(* ===== verification/Prelude.thy ===== *)
theory Prelude
  imports Main "HOL-Library.Word"
begin

text \<open>
  Shared vocabulary of the development: bytes and Go byte slices, the errors and panics the
  program can produce, random input, and the interfaces (locales) that several components
  implement.

  Go values are represented as follows.
  \<^item> \<open>byte\<close> is an 8-bit word, a byte slice or a Go string is a \<open>bytes\<close> list (Go strings
    are byte sequences). Where the code tests a slice against \<open>nil\<close> the model uses
    \<open>bytes option\<close> with \<open>None\<close> for \<open>nil\<close>.
  \<^item> \<open>int\<close> counters are unbounded integers; what makes this adequate is proved: the receiving
    counter stays below \<open>2 ^ 16 + 1\<close> and a sending counter is at most the number of calls of
    \<open>Encrypt\<close>, so that 64 bits overflow after \<open>2 ^ 63\<close> calls at the earliest.
  \<^item> A returned \<open>error\<close> is a value of \<open>err\<close>; a run-time panic is the constructor
    \<open>Panic\<close> of the same type, so that the absence of panics can be stated.
  \<^item> An index or slice expression of the code whose bounds depend on its input is \<open>goIndex\<close> or
    \<open>goSlice\<close>, and a \<open>make\<close> whose length does is \<open>goMake\<close>; they return the panic of the
    language out of range. Expressions with constant bounds on a slice the code has just made
    with that length are written as the parts of the result.
\<close>

section \<open>Bytes and slices\<close>

type_synonym byte = "8 word"
type_synonym bytes = "byte list"

text \<open>A Go string literal as the bytes of its (ASCII) characters.\<close>

definition str :: "string \<Rightarrow> bytes" where
  "str s = map of_char s"

text \<open>
  \<open>goCopy n src\<close> is what a freshly made slice of \<open>n\<close> zero bytes holds after Go's
  \<open>copy(dst, src)\<close>: as many bytes of the source as fit, the rest stays zero.
\<close>

definition goCopy :: "nat \<Rightarrow> bytes \<Rightarrow> bytes" where
  "goCopy n src = take n src @ replicate (n - length src) 0"

text \<open>The half-open slice expression \<open>b[i:j]\<close>, within the bounds of \<open>b\<close>.\<close>

definition slice :: "nat \<Rightarrow> nat \<Rightarrow> 'a list \<Rightarrow> 'a list" where
  "slice i j b = take (j - i) (drop i b)"

text \<open>The bytes behind a possibly nil slice.\<close>

fun deref :: "bytes option \<Rightarrow> bytes" where
  "deref None = []"
| "deref (Some b) = b"

definition xorBytes :: "bytes \<Rightarrow> bytes \<Rightarrow> bytes" where
  "xorBytes a b = map2 (xor) a b"

text \<open>
  \<open>subtle.ConstantTimeCompare\<close>: 0 for different lengths, otherwise the accumulated
  difference of all bytes decides.
\<close>

definition constantTimeCompare :: "bytes \<Rightarrow> bytes \<Rightarrow> nat" where
  "constantTimeCompare x y =
     (if length x \<noteq> length y then 0
      else if fold (or) (xorBytes x y) 0 = 0 then 1 else 0)"

section \<open>Errors and panics\<close>

datatype err =
    ErrBlockSize            \<comment> \<open>block size MUST be between 1 and 255\<close>
  | ErrNotAligned           \<comment> \<open>padded data is not aligned\<close>
  | ErrPadLen nat           \<comment> \<open>invalid padding length\<close>
  | ErrPadSuffix            \<comment> \<open>padded data's suffix does not match\<close>
  | ErrHeaderNumbers        \<comment> \<open>header numbers MUST be uint16\<close>
  | ErrHeaderLen            \<comment> \<open>header MUST be of 36 bytes\<close>
  | ErrKeyNotCached         \<comment> \<open>public key is not cached\<close>
  | ErrMsgNotCached         \<comment> \<open>message number is not cached\<close>
  | ErrRand                 \<comment> \<open>the error of rand.Read\<close>
  | ErrCurve                \<comment> \<open>the error of curve25519.X25519\<close>
  | ErrPrivKeyLen           \<comment> \<open>private key MUST be of 32 bytes\<close>
  | ErrPubKeyLen            \<comment> \<open>public key MUST be of 32 bytes\<close>
  | ErrChainKeyLen          \<comment> \<open>input chain key MUST be of 32 bytes\<close>
  | ErrMsgKeyLen            \<comment> \<open>message key MUST be of 32 bytes\<close>
  | ErrHkdfLimit            \<comment> \<open>hkdf: entropy limit reached\<close>
  | ErrAesKeySize           \<comment> \<open>aes.KeySizeError\<close>
  | ErrCipherShort          \<comment> \<open>ciphertext is too short\<close>
  | ErrCipherAlign          \<comment> \<open>ciphertext is not aligned to block size\<close>
  | ErrHmac                 \<comment> \<open>HMAC differs\<close>
  | ErrSkip int int         \<comment> \<open>cannot skip until .., maximum is ..\<close>
  | ErrGob                  \<comment> \<open>an error of a gob decoder\<close>
  | ErrPeerKeySize          \<comment> \<open>invalid peer public key size\<close>
  | ErrSpkSig               \<comment> \<open>invalid SPK signature\<close>
  | ErrPrefixSuffix         \<comment> \<open>message string misses pre- and/or suffix\<close>
  | ErrMsgType nat          \<comment> \<open>unsupported message type\<close>
  | ErrBase64               \<comment> \<open>base64.CorruptInputError\<close>
  | ErrPayloadLen           \<comment> \<open>payload MUST be ..\<close>
  | ErrClosePayload         \<comment> \<open>sessClose has an invalid payload\<close>
  | ErrUnseal               \<comment> \<open>unseal invalid\<close>
  | ErrUnexpectedType       \<comment> \<open>unexpected message type\<close>
  | ErrVerify               \<comment> \<open>verification function refuses public key\<close>
  | ErrActive               \<comment> \<open>received sessAck while being in an active session\<close>
  | ErrInactive             \<comment> \<open>not being in an active session\<close>
  | ErrNotExist             \<comment> \<open>os.ErrNotExist\<close>
  | ErrOs nat               \<comment> \<open>another error of a system call, by its number\<close>
  | ErrPermissions          \<comment> \<open>permissions are too weak\<close>
  | ErrLookup               \<comment> \<open>an error of saltyim.LookupAddr\<close>
  | ErrKeyID                \<comment> \<open>an error of the keys package\<close>
  | ErrJson                 \<comment> \<open>an error of a JSON decoder\<close>
  | ErrHttp                 \<comment> \<open>an error of http.Client.Post\<close>
  | ErrContext              \<comment> \<open>the context was cancelled\<close>
  | ErrSalty                \<comment> \<open>an error of the salty or lextwt packages\<close>
  | ErrEOF                  \<comment> \<open>io.EOF\<close>
  | ErrSelf                 \<comment> \<open>cant racthet with self\<close>
  | Wrapped string err      \<comment> \<open>fmt.Errorf with the verb %w\<close>
  | Panic string            \<comment> \<open>a run-time panic\<close>

type_synonym 'a result = "err + 'a"

fun isPanic :: "'a result \<Rightarrow> bool" where
  "isPanic (Inl (Panic _)) = True"
| "isPanic _ = False"

text \<open>\<open>errors.Is(err, os.ErrNotExist)\<close>; wrapping an error, which a panic passes by.\<close>

fun isNotExist :: "err \<Rightarrow> bool" where
  "isNotExist ErrNotExist = True"
| "isNotExist (Wrapped _ e) = isNotExist e"
| "isNotExist _ = False"

fun wrap :: "string \<Rightarrow> err \<Rightarrow> err" where
  "wrap s (Panic p) = Panic p"
| "wrap s e = Wrapped s e"

section \<open>Checked operations of the language\<close>

text \<open>\<open>b[i]\<close>, \<open>b[i:j]\<close> and \<open>make([]byte, n)\<close> with the run-time checks of Go.\<close>

definition goIndex :: "'a list \<Rightarrow> int \<Rightarrow> 'a result" where
  "goIndex b i = (if 0 \<le> i \<and> i < int (length b) then Inr (b ! nat i)
     else Inl (Panic ''index out of range''))"

definition goSlice :: "'a list \<Rightarrow> int \<Rightarrow> int \<Rightarrow> 'a list result" where
  "goSlice b i j = (if 0 \<le> i \<and> i \<le> j \<and> j \<le> int (length b) then Inr (slice (nat i) (nat j) b)
     else Inl (Panic ''slice bounds out of range''))"

definition goMake :: "int \<Rightarrow> bytes result" where
  "goMake n = (if 0 \<le> n then Inr (replicate (nat n) 0) else Inl (Panic ''makeslice: len out of range''))"

section \<open>Random input\<close>

text \<open>
  One call of \<open>rand.Read\<close> on a slice of \<open>n\<close> bytes. The source of randomness is an
  argument of every operation that reads it: either it delivers all bytes asked for, or it
  fails, and the slice then holds arbitrary bytes.
\<close>

datatype entropy = RandOk "nat \<Rightarrow> byte" | RandFail "nat \<Rightarrow> byte"

fun randRead :: "entropy \<Rightarrow> nat \<Rightarrow> bytes \<times> err option" where
  "randRead (RandOk f) n = (map f [0..<n], None)"
| "randRead (RandFail f) n = (map f [0..<n], Some ErrRand)"

section \<open>Shared lemmas\<close>

text \<open>The success equations of the operations.\<close>

named_theorems ok_simps

lemma length_str [simp]: "length (str s) = length s"
  by (simp add: str_def)

lemma length_goCopy [simp]: "length (goCopy n src) = n"
  by (simp add: goCopy_def)

lemma goCopy_exact [simp]: "length src = n \<Longrightarrow> goCopy n src = src"
  by (simp add: goCopy_def)

lemma goCopy_slice:
  "i + n = j \<Longrightarrow> j \<le> length b \<Longrightarrow> goCopy n (slice i j b) = slice i j b"
  by (intro goCopy_exact) (auto simp: slice_def)

lemma length_slice [simp]: "j \<le> length b \<Longrightarrow> length (slice i j b) = j - i"
  by (simp add: slice_def)

lemma slice_append_left [simp]:
  "j \<le> length a \<Longrightarrow> slice i j (a @ b) = slice i j a"
  by (cases "i \<le> length a") (auto simp: slice_def)

lemma slice_append_right [simp]:
  "length a \<le> i \<Longrightarrow> slice i j (a @ b) = slice (i - length a) (j - length a) b"
  by (auto simp: slice_def)

lemma slice_0_full [simp]: "j = length b \<Longrightarrow> slice 0 j b = b"
  by (simp add: slice_def)

text \<open>The checked operations in range.\<close>

lemma goIndex_ok [simp]: "0 \<le> i \<Longrightarrow> i < int (length b) \<Longrightarrow> goIndex b i = Inr (b ! nat i)"
  by (simp add: goIndex_def)

lemma goSlice_ok [simp]:
  "0 \<le> i \<Longrightarrow> i \<le> j \<Longrightarrow> j \<le> int (length b) \<Longrightarrow> goSlice b i j = Inr (slice (nat i) (nat j) b)"
  by (simp add: goSlice_def)

lemma goMake_ok [simp]: "0 \<le> n \<Longrightarrow> goMake n = Inr (replicate (nat n) 0)"
  by (simp add: goMake_def)

lemma goSlice_suffix: "p \<le> length b \<Longrightarrow> goSlice b (int (length b) - int p) (int (length b)) = Inr (drop (length b - p) b)"
  by (simp add: goSlice_def slice_def nat_diff_distrib)

lemma goSlice_prefix: "p \<le> length b \<Longrightarrow> goSlice b 0 (int (length b) - int p) = Inr (take (length b - p) b)"
  by (simp add: goSlice_def slice_def nat_diff_distrib)

lemma slice_take: "slice 0 j b = take j b"
  by (simp add: slice_def)

lemma slice_drop_all: "j = length b \<Longrightarrow> slice i j b = drop i b"
  by (simp add: slice_def)

lemma length_xorBytes [simp]: "length (xorBytes a b) = min (length a) (length b)"
  by (simp add: xorBytes_def)

lemma xorBytes_cancel: "length b \<le> length a \<Longrightarrow> xorBytes a (xorBytes a b) = b"
proof (induction a arbitrary: b)
  case Nil
  then show ?case by (simp add: xorBytes_def)
next
  case (Cons x xs)
  then show ?case
    by (cases b) (auto simp: xorBytes_def xor.assoc [symmetric])
qed

lemma fold_or_zero: "fold (or) xs (a::byte) = 0 \<longleftrightarrow> a = 0 \<and> (\<forall>x \<in> set xs. x = 0)"
  by (induction xs arbitrary: a) (auto simp: or_eq_0_iff)

lemma xorBytes_zero:
  "length x = length y \<Longrightarrow> (\<forall>b \<in> set (xorBytes x y). b = 0) \<longleftrightarrow> x = y"
proof (induction x y rule: list_induct2)
  case Nil
  then show ?case by (simp add: xorBytes_def)
next
  case (Cons a x b y)
  have "xor a b = 0 \<longleftrightarrow> a = b"
    by (metis xor.assoc xor.left_neutral xor_self_eq)
  with Cons show ?case by (simp add: xorBytes_def)
qed

lemma constantTimeCompare_eq [simp]: "constantTimeCompare x y = 1 \<longleftrightarrow> x = y"
  by (auto simp: constantTimeCompare_def fold_or_zero xorBytes_zero)

lemma constantTimeCompare_eq_Suc [simp]: "constantTimeCompare x y = Suc 0 \<longleftrightarrow> x = y"
  using constantTimeCompare_eq [of x y] by simp

lemma randRead_length [simp]: "length (fst (randRead e n)) = n"
  by (cases e) simp_all

lemma isPanic_iff: "isPanic r \<longleftrightarrow> (\<exists>s. r = Inl (Panic s))"
  by (cases r rule: isPanic.cases) auto

lemma isPanic_sum: "isPanic (case r of Inl e \<Rightarrow> Inl e | Inr x \<Rightarrow> f x) \<longleftrightarrow>
    isPanic r \<or> (\<exists>x. r = Inr x \<and> isPanic (f x))"
proof (cases r)
  case (Inl e)
  then show ?thesis by (cases e) simp_all
qed simp

lemma isPanic_map_sum [simp]: "isPanic (map_sum id f r) = isPanic r"
proof (cases r)
  case (Inl e)
  then show ?thesis by (cases e) simp_all
qed simp

lemma byte_unat_less: "unat (b :: byte) < 256"
  using unsigned_less [where 'a = nat, of b] by simp

lemma byte_eq_word_of_nat: "n < 256 \<Longrightarrow> unat (word_of_nat n :: byte) = n"
  by (simp add: unat_of_nat take_bit_eq_mod)

lemma isNotExist_wrap [simp]: "isNotExist (wrap s e) = isNotExist e"
  by (cases e) simp_all

lemma wrap_Panic [simp]: "wrap s e = Panic p \<longleftrightarrow> e = Panic p"
  by (cases e) simp_all

section \<open>Interfaces shared by several components\<close>

text \<open>
  A codec: an encoder and a decoder, either of which may fail, that round-trip on the valid
  values. The wire formats of the program all implement it.
\<close>

locale codec =
  fixes valid :: "'a \<Rightarrow> bool"
    and enc :: "'a \<Rightarrow> 'b result"
    and dec :: "'b \<Rightarrow> 'a result"
  assumes dec_enc: "valid x \<Longrightarrow> \<exists>b. enc x = Inr b \<and> dec b = Inr x"
begin

lemma enc_total: "valid x \<Longrightarrow> \<exists>b. enc x = Inr b"
  using dec_enc by blast

lemma dec_of_enc: "valid x \<Longrightarrow> enc x = Inr b \<Longrightarrow> dec b = Inr x"
  using dec_enc by fastforce

lemma enc_inj: "valid x \<Longrightarrow> valid y \<Longrightarrow> enc x = enc y \<Longrightarrow> x = y"
  by (metis dec_enc sum.inject(2))

end

text \<open>
  A codec whose decoder accepts nothing but encodings of valid values: no value has a second
  spelling.
\<close>

locale canonical_codec = codec +
  assumes enc_dec: "dec b = Inr x \<Longrightarrow> enc x = Inr b"
    and dec_valid: "dec b = Inr x \<Longrightarrow> valid x"
begin

lemma dec_inj: "dec b = Inr x \<Longrightarrow> dec c = Inr x \<Longrightarrow> b = c"
  by (metis enc_dec sum.inject(2))

lemma dec_iff: "dec b = Inr x \<longleftrightarrow> valid x \<and> enc x = Inr b"
  using enc_dec dec_valid dec_of_enc by blast

end

section \<open>Simulations\<close>

text \<open>
  A component whose steps implement those of an abstract machine, seen through \<open>abs\<close>: in states with
  the invariant, for inputs that are allowed, and as long as the abstract state is small. What is small
  after a step was small before it.
\<close>

locale simulation =
  fixes abs :: "'u \<Rightarrow> 'v"
    and step :: "'i \<Rightarrow> 'u \<Rightarrow> 'u"
    and spec :: "'i \<Rightarrow> 'v \<Rightarrow> 'v"
    and inv :: "'u \<Rightarrow> bool"
    and allowed :: "'i \<Rightarrow> bool"
    and small :: "'v \<Rightarrow> bool"
  assumes sim: "inv u \<Longrightarrow> allowed i \<Longrightarrow> small (abs u) \<Longrightarrow> abs (step i u) = spec i (abs u) \<and> inv (step i u)"
    and small_before: "small (spec i v) \<Longrightarrow> small v"
begin

lemma small_start: "small (fold spec inputs v) \<Longrightarrow> small v"
proof (induction inputs arbitrary: v)
  case (Cons i inputs)
  have "small (fold spec inputs (spec i v))" using Cons.prems by simp
  then have "small (spec i v)" by (rule Cons.IH)
  then show ?case by (rule small_before)
qed simp

lemma runs:
  assumes "inv u" and "\<forall>i \<in> set inputs. allowed i" and "small (fold spec inputs (abs u))"
  shows "abs (fold step inputs u) = fold spec inputs (abs u) \<and> inv (fold step inputs u)"
  using assms
proof (induction inputs arbitrary: u)
  case (Cons i inputs)
  have "small (abs u)" using Cons.prems(3) by (rule small_start)
  moreover have "allowed i" using Cons.prems(2) by simp
  ultimately have s: "abs (step i u) = spec i (abs u)" "inv (step i u)" using sim [OF Cons.prems(1)] by blast+
  have "small (fold spec inputs (abs (step i u)))" using Cons.prems(3) unfolding s(1) by simp
  from Cons.IH [OF s(2) _ this] Cons.prems(2) show ?case unfolding s(1) by simp
qed simp

end

end
