(* ===== verification/Pkcs7.thy ===== *)
theory Pkcs7
  imports Prelude
begin

text \<open>
  PKCS#7 padding (\<open>src/doubleratchet/pkcs7.go\<close>): both functions with every check of the code,
  the round trip, and the exact set of inputs \<open>pkcs7Unpad\<close> accepts.
\<close>

section \<open>Operations\<close>

definition pkcs7Pad :: "bytes \<Rightarrow> int \<Rightarrow> bytes result" where
  "pkcs7Pad data blockSize =
     (if blockSize \<le> 0 \<or> blockSize > 255 then Inl ErrBlockSize
      else let padLen = nat blockSize - length data mod nat blockSize;
               padding = replicate padLen (word_of_nat padLen)
           in Inr (data @ padding))"

definition pkcs7Unpad :: "bytes \<Rightarrow> int \<Rightarrow> bytes result" where
  "pkcs7Unpad paddedData blockSize =
     (let paddedDataLen = length paddedData in
      if blockSize \<le> 0 \<or> blockSize > 255 then Inl ErrBlockSize
      else if paddedDataLen mod nat blockSize \<noteq> 0 \<or> paddedDataLen = 0 then Inl ErrNotAligned
      else case goIndex paddedData (int paddedDataLen - 1) of Inl e \<Rightarrow> Inl e
      | Inr b \<Rightarrow> (let padLen = unat b in
        if padLen = 0 \<or> padLen > nat blockSize then Inl (ErrPadLen padLen)
        else let padExpect = replicate padLen (word_of_nat padLen) in
          case goSlice paddedData (int paddedDataLen - int padLen) (int paddedDataLen) of Inl e \<Rightarrow> Inl e
          | Inr padData \<Rightarrow>
              (if padExpect \<noteq> padData then Inl ErrPadSuffix
               else goSlice paddedData 0 (int paddedDataLen - int padLen))))"

section \<open>Properties\<close>

text \<open>
  The checks before every index and slice expression make it stay in range: the data has at least
  one full block, and the padding is no longer than a block.
\<close>

lemma pkcs7Unpad_eq:
  "pkcs7Unpad paddedData blockSize =
     (let paddedDataLen = length paddedData in
      if blockSize \<le> 0 \<or> blockSize > 255 then Inl ErrBlockSize
      else if paddedDataLen mod nat blockSize \<noteq> 0 \<or> paddedDataLen = 0 then Inl ErrNotAligned
      else let padLen = unat (paddedData ! (paddedDataLen - 1)) in
        if padLen = 0 \<or> padLen > nat blockSize then Inl (ErrPadLen padLen)
        else if replicate padLen (word_of_nat padLen) \<noteq> drop (paddedDataLen - padLen) paddedData then Inl ErrPadSuffix
        else Inr (take (paddedDataLen - padLen) paddedData))"
proof (cases "blockSize \<le> 0 \<or> blockSize > 255 \<or> length paddedData mod nat blockSize \<noteq> 0 \<or> paddedData = []")
  case True
  then show ?thesis by (auto simp: pkcs7Unpad_def Let_def)
next
  case False
  let ?n = "length paddedData"
  define p where "p = unat (paddedData ! (?n - 1))"
  have "nat blockSize \<le> ?n" using False by (metis dvd_imp_le length_greater_0_conv mod_0_imp_dvd)
  then have le: "p \<le> ?n" if "\<not> p > nat blockSize" using that by linarith
  have i: "goIndex paddedData (int ?n - 1) = Inr (paddedData ! (?n - 1))"
    using False by (simp add: goIndex_def Suc_le_eq nat_diff_distrib)
  show ?thesis
    using False i le by (simp add: pkcs7Unpad_def Let_def p_def [symmetric] goSlice_suffix goSlice_prefix
        del: One_nat_def goSlice_ok goIndex_ok)
qed

lemma padLen_bounds:
  assumes "0 < (b::nat)"
  shows "0 < b - n mod b" and "b - n mod b \<le> b" and "(n + (b - n mod b)) mod b = 0"
proof -
  have lt: "n mod b < b" using assms by simp
  then show "0 < b - n mod b" and "b - n mod b \<le> b" by simp_all
  have "n + (b - n mod b) = (n div b) * b + b"
    using lt div_mult_mod_eq [of n b] by linarith
  then show "(n + (b - n mod b)) mod b = 0" by simp
qed

lemma pkcs7Pad_ok:
  assumes "0 < blockSize" and "blockSize \<le> 255"
  obtains p where "0 < p" and "p \<le> nat blockSize" and "p < 256"
    and "pkcs7Pad data blockSize = Inr (data @ replicate p (word_of_nat p))"
    and "(length data + p) mod nat blockSize = 0"
proof -
  let ?b = "nat blockSize"
  let ?p = "?b - length data mod ?b"
  have b: "0 < ?b" "?b \<le> 255" using assms by auto
  show thesis
  proof (rule that [of ?p])
    show "0 < ?p" "?p \<le> ?b" "(length data + ?p) mod ?b = 0"
      using padLen_bounds [OF b(1), of "length data"] by auto
    show "?p < 256" using b by linarith
    show "pkcs7Pad data blockSize = Inr (data @ replicate ?p (word_of_nat ?p))"
      using assms by (simp add: pkcs7Pad_def)
  qed
qed

lemma pkcs7Unpad_padded:
  assumes "0 < blockSize" and "blockSize \<le> 255"
    and "0 < p" and "p \<le> nat blockSize" and "(length data + p) mod nat blockSize = 0"
  shows "pkcs7Unpad (data @ replicate p (word_of_nat p)) blockSize = Inr data"
proof -
  let ?x = "data @ replicate p (word_of_nat p :: byte)"
  have p: "p < 256" using assms by linarith
  have last: "?x ! (length ?x - 1) = word_of_nat p"
    using assms(3) by (auto simp: nth_append)
  have u: "unat (word_of_nat p :: byte) = p" using p by (rule byte_eq_word_of_nat)
  show ?thesis
    using assms p by (simp add: pkcs7Unpad_eq Let_def last [simplified] u)
qed

text \<open>The converse: what \<open>pkcs7Unpad\<close> accepts is a padding of its result.\<close>

lemma pkcs7Unpad_ok_inv:
  assumes "pkcs7Unpad x blockSize = Inr data"
  obtains p where "0 < p" and "p \<le> nat blockSize" and "0 < blockSize" and "blockSize \<le> 255"
    and "x = data @ replicate p (word_of_nat p)" and "length x mod nat blockSize = 0"
proof -
  let ?p = "unat (x ! (length x - 1))"
  from assms have bs: "0 < blockSize" "blockSize \<le> 255"
    and al: "length x mod nat blockSize = 0" "x \<noteq> []"
    and p: "?p \<noteq> 0" "?p \<le> nat blockSize"
    and suf: "replicate ?p (word_of_nat ?p) = drop (length x - ?p) x"
    and d: "data = take (length x - ?p) x"
    by (auto simp: pkcs7Unpad_eq Let_def split: if_splits)
  have "take (length x - ?p) x @ drop (length x - ?p) x = data @ replicate ?p (word_of_nat ?p)"
    by (rule arg_cong2 [where f = append]) (rule d [symmetric], rule suf [symmetric])
  then have "x = data @ replicate ?p (word_of_nat ?p)"
    by (rule trans [OF append_take_drop_id [symmetric]])
  from that [OF _ p(2) bs this al(1)] p(1) show thesis by simp
qed

lemma pad_length_unique_le:
  assumes "p \<le> q" "0 < p" "q \<le> b" "(l + p) mod b = 0" "(l + q) mod b = (0::nat)"
  shows "p = q"
proof -
  have "b dvd (l + q) - (l + p)"
    using assms by (intro dvd_diff_nat) auto
  then have "b dvd q - p" by simp
  moreover have "q - p < b" using assms by linarith
  ultimately have "q - p = 0" by (meson nat_dvd_not_less not_gr_zero)
  with assms(1) show ?thesis by simp
qed

lemma pad_length_unique:
  assumes "0 < p" "p \<le> b" "(l + p) mod b = 0" "0 < q" "q \<le> b" "(l + q) mod b = (0::nat)"
  shows "p = q"
  using pad_length_unique_le [of p q b l] pad_length_unique_le [of q p b l] assms
  by (cases "p \<le> q") auto

text \<open>
  The padding with the block size of AES, as the double ratchet uses it, is a codec without
  a second spelling of any value.
\<close>

lemma pkcs7Pad_Unpad:
  assumes "0 < blockSize" and "blockSize \<le> 255"
  obtains padded where "pkcs7Pad data blockSize = Inr padded"
    and "pkcs7Unpad padded blockSize = Inr data"
    and "length padded mod nat blockSize = 0"
    and "length data < length padded" and "length padded \<le> length data + nat blockSize"
proof -
  from assms obtain p where p: "0 < p" "p \<le> nat blockSize"
    "pkcs7Pad data blockSize = Inr (data @ replicate p (word_of_nat p))"
    "(length data + p) mod nat blockSize = 0"
    by (rule pkcs7Pad_ok)
  with pkcs7Unpad_padded [OF assms p(1,2,4)] that show thesis by simp
qed

lemma pkcs7Unpad_Pad:
  assumes "pkcs7Unpad x blockSize = Inr data"
  shows "pkcs7Pad data blockSize = Inr x"
proof -
  from assms obtain p where p: "0 < p" "p \<le> nat blockSize" "0 < blockSize" "blockSize \<le> 255"
    "x = data @ replicate p (word_of_nat p)" "length x mod nat blockSize = 0"
    by (rule pkcs7Unpad_ok_inv)
  from p(3,4) obtain q where q: "0 < q" "q \<le> nat blockSize"
    "pkcs7Pad data blockSize = Inr (data @ replicate q (word_of_nat q))"
    "(length data + q) mod nat blockSize = 0"
    by (rule pkcs7Pad_ok)
  have "p = q"
    using p q by (intro pad_length_unique [of p "nat blockSize" "length data" q]) auto
  with p q show ?thesis by simp
qed

interpretation aes_pad: canonical_codec "\<lambda>_. True" "\<lambda>d. pkcs7Pad d 16" "\<lambda>x. pkcs7Unpad x 16"
proof
  fix d show "\<exists>b. pkcs7Pad d 16 = Inr b \<and> pkcs7Unpad b 16 = Inr d"
    by (rule pkcs7Pad_Unpad [of 16 d]) auto
next
  fix b d assume "pkcs7Unpad b 16 = Inr d"
  then show "pkcs7Pad d 16 = Inr b" by (rule pkcs7Unpad_Pad)
qed simp

section \<open>Correctness\<close>

text \<open>
  Unpadding inverts padding for every block size the code admits, the padded length
  is the next multiple of the block size, and at least one byte is added.
\<close>

theorem pkcs7_roundtrip:
  assumes "0 < blockSize" and "blockSize \<le> 255"
  shows "\<exists>padded. pkcs7Pad data blockSize = Inr padded
    \<and> pkcs7Unpad padded blockSize = Inr data
    \<and> length padded mod nat blockSize = 0
    \<and> length data < length padded \<and> length padded \<le> length data + nat blockSize"
proof -
  from assms obtain padded where "pkcs7Pad data blockSize = Inr padded"
    "pkcs7Unpad padded blockSize = Inr data" "length padded mod nat blockSize = 0"
    "length data < length padded" "length padded \<le> length data + nat blockSize"
    by (rule pkcs7Pad_Unpad)
  then show ?thesis by (intro exI conjI)
qed

theorem pkcs7_roundtrip_witness:
  "\<exists>padded. pkcs7Pad [1, 2, 3] 16 = Inr padded \<and> pkcs7Unpad padded 16 = Inr [1, 2, 3]
    \<and> length padded mod nat 16 = 0
    \<and> length [1, 2, 3 :: byte] < length padded
    \<and> length padded \<le> length [1, 2, 3 :: byte] + nat 16"
  by (rule pkcs7_roundtrip) simp_all

text \<open>
  \<open>pkcs7Unpad\<close> accepts nothing but paddings that \<open>pkcs7Pad\<close> produces:
  whatever it accepts is re-created exactly by padding its result.
\<close>

theorem pkcs7Unpad_canonical:
  assumes "pkcs7Unpad x blockSize = Inr data"
  shows "pkcs7Pad data blockSize = Inr x"
  using assms by (rule pkcs7Unpad_Pad)

theorem pkcs7Unpad_canonical_witness:
  "pkcs7Unpad [7, 3, 3, 3] 4 = Inr [7] \<and> pkcs7Pad [7] 4 = Inr [7, 3, 3, 3]"
proof -
  have h: "pkcs7Unpad [7, 3, 3, 3] 4 = Inr [7]" by code_simp
  show ?thesis using h pkcs7Unpad_canonical [OF h] by simp
qed

end
