(* ===== verification/Primitives.thy ===== *)
theory Primitives
  imports Pkcs7
begin

text \<open>
  The external functions of the double ratchet (\<open>src/doubleratchet/primitives.go\<close>): key pairs,
  the Diffie-Hellman function, the two key derivations and the authenticated encryption.

  The cryptographic algorithms themselves are a record of parameters, \<open>prims\<close>: X25519 and HKDF
  (\<open>golang.org/x/crypto\<close>), the AES block function, HMAC-SHA-256, SHA-512, Ed25519 and the
  anonymous NaCl box. What the program relies on is stated as named laws about that record
  (\<open>dhLaw\<close>, \<open>hmacLaw\<close>, \<open>aesLaw\<close>, ...). The CBC mode of \<open>crypto/cipher\<close>, the padding and the
  order of all checks are defined, not assumed.
\<close>

section \<open>Parameters\<close>

record prims =
  x25519 :: "bytes \<Rightarrow> bytes \<Rightarrow> bytes option"
    \<comment> \<open>\<open>curve25519.X25519(scalar, point)\<close>, \<open>None\<close> for its error\<close>
  x25519_base :: "bytes \<Rightarrow> bytes"
    \<comment> \<open>\<open>curve25519.X25519(scalar, Basepoint)\<close>\<close>
  hmac_sha256 :: "bytes \<Rightarrow> bytes \<Rightarrow> bytes"
    \<comment> \<open>\<open>hmac.New(sha256.New, key)\<close>, one \<open>Write\<close>, \<open>Sum(nil)\<close>\<close>
  hkdf_sha256 :: "bytes \<Rightarrow> bytes \<Rightarrow> bytes \<Rightarrow> nat \<Rightarrow> byte"
    \<comment> \<open>the output stream of \<open>hkdf.New(sha256.New, secret, salt, info)\<close>\<close>
  aes_enc :: "bytes \<Rightarrow> bytes \<Rightarrow> bytes"
    \<comment> \<open>\<open>cipher.Block.Encrypt\<close> of \<open>aes.NewCipher(key)\<close>\<close>
  aes_dec :: "bytes \<Rightarrow> bytes \<Rightarrow> bytes"
  sha512 :: "bytes \<Rightarrow> bytes"
  ed_sign :: "bytes \<Rightarrow> bytes \<Rightarrow> bytes"
    \<comment> \<open>\<open>ed25519.Sign(privateKey, message)\<close>\<close>
  ed_verify :: "bytes \<Rightarrow> bytes \<Rightarrow> bytes \<Rightarrow> bool"
    \<comment> \<open>\<open>ed25519.Verify(publicKey, message, sig)\<close>\<close>
  seal_anonymous :: "(nat \<Rightarrow> byte) \<Rightarrow> bytes \<Rightarrow> bytes \<Rightarrow> bytes"
    \<comment> \<open>\<open>box.SealAnonymous(nil, message, recipient, rand)\<close>\<close>
  open_anonymous :: "bytes \<Rightarrow> bytes \<Rightarrow> bytes \<Rightarrow> bytes option"
    \<comment> \<open>\<open>box.OpenAnonymous(nil, box, publicKey, privateKey)\<close>\<close>

text \<open>
  X25519 on public keys that were derived from the base point: it succeeds (such points do not
  have low order), and both parties compute the same value.
\<close>

definition dhLaw :: "prims \<Rightarrow> bool" where
  "dhLaw P \<longleftrightarrow> (\<forall>a b. length a = 32 \<longrightarrow> length b = 32 \<longrightarrow>
     length (x25519_base P a) = 32 \<and>
     (\<exists>s. x25519 P a (x25519_base P b) = Some s \<and> x25519 P b (x25519_base P a) = Some s))"

text \<open>HMAC-SHA-256 has 32 bytes of output.\<close>

definition hmacLaw :: "prims \<Rightarrow> bool" where
  "hmacLaw P \<longleftrightarrow> (\<forall>k m. length (hmac_sha256 P k m) = 32)"

text \<open>The AES block functions map 16 bytes to 16 bytes, and decryption inverts encryption.\<close>

definition aesLaw :: "prims \<Rightarrow> bool" where
  "aesLaw P \<longleftrightarrow> (\<forall>k b. length k = 32 \<longrightarrow> length b = 16 \<longrightarrow>
     length (aes_enc P k b) = 16 \<and> length (aes_dec P k b) = 16 \<and>
     aes_dec P k (aes_enc P k b) = b)"

section \<open>Keys\<close>

definition dhKeyPair :: "prims \<Rightarrow> entropy \<Rightarrow> bytes \<times> bytes \<times> err option" where
  "dhKeyPair P rnd =
     (case randRead rnd 32 of
        (privKey, Some e) \<Rightarrow> ([], privKey, Some e)
      | (privKey, None) \<Rightarrow> (x25519_base P privKey, privKey, None))"

definition dh :: "prims \<Rightarrow> bytes \<Rightarrow> bytes \<Rightarrow> bytes result" where
  "dh P privKey pubKey =
     (if length privKey \<noteq> 32 then Inl ErrPrivKeyLen
      else if length pubKey \<noteq> 32 then Inl ErrPubKeyLen
      else case x25519 P privKey pubKey of None \<Rightarrow> Inl ErrCurve | Some s \<Rightarrow> Inr s)"

text \<open>\<open>io.ReadFull\<close> on an HKDF stream at an offset; the stream ends after 255 hash lengths.\<close>

definition readFull :: "(nat \<Rightarrow> byte) \<Rightarrow> nat \<Rightarrow> nat \<Rightarrow> bytes result" where
  "readFull kdf off n =
     (if off + n > 255 * 32 then Inl ErrHkdfLimit else Inr (map kdf [off..<off + n]))"

text \<open>The loop of \<open>chainKdf\<close> writes the byte \<open>i\<close> for the \<open>i\<close>-th of its two results.\<close>

definition chainKdf :: "prims \<Rightarrow> bytes \<Rightarrow> (bytes \<times> bytes) result" where
  "chainKdf P ckIn =
     (if length ckIn \<noteq> 32 then Inl ErrChainKeyLen
      else Inr (hmac_sha256 P ckIn [0], hmac_sha256 P ckIn [1]))"

definition rootKdf :: "prims \<Rightarrow> bytes \<Rightarrow> bytes \<Rightarrow> (bytes \<times> bytes) result" where
  "rootKdf P rkIn dhOut =
     (if length rkIn \<noteq> 32 then Inl ErrChainKeyLen
      else let kdf = hkdf_sha256 P dhOut rkIn [0x02] in
        case readFull kdf 0 32 of Inl e \<Rightarrow> Inl e
        | Inr rkOut \<Rightarrow> (case readFull kdf 32 32 of Inl e \<Rightarrow> Inl e
          | Inr ck \<Rightarrow> Inr (rkOut, ck)))"

definition encryptParams :: "prims \<Rightarrow> bytes \<Rightarrow> (bytes \<times> bytes \<times> bytes) result" where
  "encryptParams P msgKey =
     (if length msgKey \<noteq> 32 then Inl ErrMsgKeyLen
      else let kdf = hkdf_sha256 P msgKey (replicate 32 0) [0x03] in
        case readFull kdf 0 32 of Inl e \<Rightarrow> Inl e
        | Inr encKey \<Rightarrow> (case readFull kdf 32 32 of Inl e \<Rightarrow> Inl e
          | Inr authKey \<Rightarrow> (case readFull kdf 64 16 of Inl e \<Rightarrow> Inl e
            | Inr iv \<Rightarrow> Inr (encKey, authKey, iv))))"

section \<open>CBC mode\<close>

function cbcEncrypt :: "(bytes \<Rightarrow> bytes) \<Rightarrow> bytes \<Rightarrow> bytes \<Rightarrow> bytes" where
  "cbcEncrypt E iv src =
     (if length src < 16 then []
      else let c = E (xorBytes iv (take 16 src)) in c @ cbcEncrypt E c (drop 16 src))"
  by pat_completeness auto
termination
  by (relation "measure (\<lambda>(E, iv, src). length src)") auto

function cbcDecrypt :: "(bytes \<Rightarrow> bytes) \<Rightarrow> bytes \<Rightarrow> bytes \<Rightarrow> bytes" where
  "cbcDecrypt D iv src =
     (if length src < 16 then []
      else xorBytes iv (D (take 16 src)) @ cbcDecrypt D (take 16 src) (drop 16 src))"
  by pat_completeness auto
termination
  by (relation "measure (\<lambda>(D, iv, src). length src)") auto

declare cbcEncrypt.simps [simp del] and cbcDecrypt.simps [simp del]

text \<open>
  \<open>NewCBCEncrypter\<close> and \<open>NewCBCDecrypter\<close> panic unless the initial vector has the size of a block,
  and \<open>CryptBlocks\<close> panics unless its input consists of full blocks.
\<close>

definition cryptBlocks :: "(bytes \<Rightarrow> bytes \<Rightarrow> bytes) \<Rightarrow> bytes \<Rightarrow> bytes \<Rightarrow> bytes result" where
  "cryptBlocks mode iv src =
     (if length iv \<noteq> 16 then Inl (Panic ''cipher: IV length must equal block size'')
      else if length src mod 16 \<noteq> 0 then Inl (Panic ''crypto/cipher: input not full blocks'')
      else Inr (mode iv src))"

text \<open>\<open>aes.NewCipher\<close> accepts the three AES key sizes.\<close>

definition newCipher :: "bytes \<Rightarrow> bytes result" where
  "newCipher key = (if length key \<in> {16, 24, 32} then Inr key else Inl ErrAesKeySize)"

section \<open>Authenticated encryption\<close>

definition encrypt :: "prims \<Rightarrow> bytes \<Rightarrow> bytes \<Rightarrow> bytes \<Rightarrow> bytes result" where
  "encrypt P msgKey plaintext associatedData =
     (case encryptParams P msgKey of Inl e \<Rightarrow> Inl e
      | Inr (encKey, authKey, iv) \<Rightarrow>
      (case pkcs7Pad plaintext 16 of Inl e \<Rightarrow> Inl e
      | Inr padded \<Rightarrow>
      (case newCipher encKey of Inl e \<Rightarrow> Inl e
      | Inr block \<Rightarrow>
      (case cryptBlocks (cbcEncrypt (aes_enc P block)) iv padded of Inl e \<Rightarrow> Inl e
      | Inr aesCipher \<Rightarrow> Inr (aesCipher @ hmac_sha256 P authKey associatedData)))))"

definition decrypt :: "prims \<Rightarrow> bytes \<Rightarrow> bytes \<Rightarrow> bytes \<Rightarrow> bytes result" where
  "decrypt P msgKey ciphertext associatedData =
     (case encryptParams P msgKey of Inl e \<Rightarrow> Inl e
      | Inr (encKey, authKey, iv) \<Rightarrow>
      (case newCipher encKey of Inl e \<Rightarrow> Inl e
      | Inr block \<Rightarrow>
      (if int (length ciphertext) - 32 < 0 then Inl ErrCipherShort
       else case goSlice ciphertext 0 (int (length ciphertext) - 32) of Inl e \<Rightarrow> Inl e
       | Inr aesCipher \<Rightarrow>
        (if length aesCipher mod 16 \<noteq> 0 then Inl ErrCipherAlign
         else case cryptBlocks (cbcDecrypt (aes_dec P block)) iv aesCipher of Inl e \<Rightarrow> Inl e
          | Inr padded \<Rightarrow>
          (case pkcs7Unpad padded 16 of Inl e \<Rightarrow> Inl e
          | Inr plaintext \<Rightarrow>
          (case goSlice ciphertext (int (length aesCipher)) (int (length ciphertext)) of Inl e \<Rightarrow> Inl e
          | Inr tag \<Rightarrow>
            if constantTimeCompare tag (hmac_sha256 P authKey associatedData) \<noteq> 1
            then Inl ErrHmac
            else Inr plaintext))))))"

section \<open>Lemmas on keys\<close>

lemma readFull_ok [simp]: "off + n \<le> 255 * 32 \<Longrightarrow> readFull kdf off n = Inr (map kdf [off..<off + n])"
  by (simp add: readFull_def)

lemma chainKdf_ok [ok_simps]:
  "length ck = 32 \<Longrightarrow> chainKdf P ck = Inr (hmac_sha256 P ck [0], hmac_sha256 P ck [1])"
  by (simp add: chainKdf_def)

lemma chainKdf_error: "length ck \<noteq> 32 \<Longrightarrow> chainKdf P ck = Inl ErrChainKeyLen"
  by (simp add: chainKdf_def)

lemma hmac_length: "hmacLaw P \<Longrightarrow> length (hmac_sha256 P k m) = 32"
  by (simp add: hmacLaw_def)

lemma rootKdf_ok:
  assumes "length rk = 32"
  obtains rk' ck where "rootKdf P rk s = Inr (rk', ck)" and "length rk' = 32" and "length ck = 32"
  using assms by (simp add: rootKdf_def Let_def)

lemma rootKdf_lengths:
  "rootKdf P rk s = Inr (rk', ck) \<Longrightarrow> length rk = 32 \<and> length rk' = 32 \<and> length ck = 32"
  by (auto simp: rootKdf_def Let_def split: if_splits)

lemma dhLaw_dh:
  assumes "dhLaw P" and "length a = 32" and "length b = 32"
  obtains s where "dh P a (x25519_base P b) = Inr s" and "dh P b (x25519_base P a) = Inr s"
proof -
  from assms obtain s where "x25519 P a (x25519_base P b) = Some s"
    "x25519 P b (x25519_base P a) = Some s"
    "length (x25519_base P a) = 32" "length (x25519_base P b) = 32"
    unfolding dhLaw_def by blast
  with assms that show thesis by (simp add: dh_def)
qed

lemma base_length: "dhLaw P \<Longrightarrow> length a = 32 \<Longrightarrow> length (x25519_base P a) = 32"
  unfolding dhLaw_def by blast

lemma dhKeyPair_ok [ok_simps]:
  "dhKeyPair P (RandOk f) = (x25519_base P (map f [0..<32]), map f [0..<32], None)"
  by (simp add: dhKeyPair_def)

lemma encryptParams_ok:
  assumes "length mk = 32"
  obtains ek ak iv where "encryptParams P mk = Inr (ek, ak, iv)"
    and "length ek = 32" and "length ak = 32" and "length iv = 16"
  using assms by (simp add: encryptParams_def Let_def)

lemma encryptParams_lengths:
  "encryptParams P mk = Inr (ek, ak, iv) \<Longrightarrow>
     length mk = 32 \<and> length ek = 32 \<and> length ak = 32 \<and> length iv = 16"
  by (auto simp: encryptParams_def Let_def split: if_splits)

lemma newCipher_32 [ok_simps]: "length k = 32 \<Longrightarrow> newCipher k = Inr k"
  by (simp add: newCipher_def)

section \<open>Lemmas on CBC mode\<close>

lemma cbcEncrypt_short [simp]: "length src < 16 \<Longrightarrow> cbcEncrypt E iv src = []"
  by (simp add: cbcEncrypt.simps)

lemma cbcDecrypt_short [simp]: "length src < 16 \<Longrightarrow> cbcDecrypt D iv src = []"
  by (simp add: cbcDecrypt.simps)

lemma cbcEncrypt_block:
  "length b = 16 \<Longrightarrow> cbcEncrypt E iv (b @ src) =
     E (xorBytes iv b) @ cbcEncrypt E (E (xorBytes iv b)) src"
  by (subst cbcEncrypt.simps) (simp add: Let_def)

lemma cbcDecrypt_block:
  "length b = 16 \<Longrightarrow> cbcDecrypt D iv (b @ src) = xorBytes iv (D b) @ cbcDecrypt D b src"
  by (subst cbcDecrypt.simps) simp

lemma full_block_cases:
  assumes "length src mod 16 = (0::nat)" and "src \<noteq> []"
  obtains b r where "src = b @ r" and "length b = 16" and "length r mod 16 = 0"
proof -
  have "16 \<le> length src" using assms by (metis length_0_conv mod_less not_le)
  with assms show thesis
    by (intro that [of "take 16 src" "drop 16 src"]) (auto simp: le_mod_geq)
qed

lemma cbc_length:
  assumes "\<And>b. length b = 16 \<Longrightarrow> length (E b) = 16" and "length iv = 16"
    and "length src mod 16 = 0"
  shows "length (cbcEncrypt E iv src) = length src"
  using assms(2,3)
proof (induction "length src" arbitrary: src iv rule: less_induct)
  case less
  show ?case
  proof (cases "src = []")
    case False
    obtain b r where s: "src = b @ r" "length b = 16" "length r mod 16 = 0"
      using less.prems(2) False by (rule full_block_cases)
    have e: "length (E (xorBytes iv b)) = 16" using assms(1) less.prems s by simp
    from s e less.hyps [of r "E (xorBytes iv b)"] show ?thesis by (simp add: cbcEncrypt_block)
  qed simp
qed

lemma cbcDecrypt_length:
  assumes "\<And>b. length b = 16 \<Longrightarrow> length (D b) = 16" and "length iv = 16"
    and "length src mod 16 = 0"
  shows "length (cbcDecrypt D iv src) = length src"
  using assms(2,3)
proof (induction "length src" arbitrary: src iv rule: less_induct)
  case less
  show ?case
  proof (cases "src = []")
    case False
    obtain b r where s: "src = b @ r" "length b = 16" "length r mod 16 = 0"
      using less.prems(2) False by (rule full_block_cases)
    from s assms(1) less less.hyps [of r b] show ?thesis by (simp add: cbcDecrypt_block)
  qed simp
qed

text \<open>CBC decryption inverts CBC encryption whenever the block functions are inverse.\<close>

lemma cbc_roundtrip:
  assumes "\<And>b. length b = 16 \<Longrightarrow> length (E b) = 16 \<and> D (E b) = b"
    and "length iv = 16" and "length src mod 16 = 0"
  shows "cbcDecrypt D iv (cbcEncrypt E iv src) = src"
  using assms(2,3)
proof (induction "length src" arbitrary: src iv rule: less_induct)
  case less
  show ?case
  proof (cases "src = []")
    case False
    obtain b r where s: "src = b @ r" "length b = 16" "length r mod 16 = 0"
      using less.prems(2) False by (rule full_block_cases)
    let ?c = "E (xorBytes iv b)"
    have c: "length ?c = 16" "D ?c = xorBytes iv b" using assms(1) less.prems s by simp_all
    have "cbcDecrypt D ?c (cbcEncrypt E ?c r) = r" using s c less.hyps [of r ?c] by simp
    with s c less.prems show ?thesis
      by (simp add: cbcEncrypt_block cbcDecrypt_block xorBytes_cancel)
  qed simp
qed

section \<open>Lemmas on the authenticated encryption\<close>

text \<open>
  Both directions in terms of the derived keys: with a 32-byte message key no error branch but
  the ones named here can be taken.
\<close>

lemma decrypt_slices:
  "decrypt P msgKey ciphertext ad =
     (case encryptParams P msgKey of Inl e \<Rightarrow> Inl e
      | Inr (encKey, authKey, iv) \<Rightarrow>
      (case newCipher encKey of Inl e \<Rightarrow> Inl e
      | Inr block \<Rightarrow>
      (if length ciphertext < 32 then Inl ErrCipherShort
       else let aesCipher = take (length ciphertext - 32) ciphertext in
        if length aesCipher mod 16 \<noteq> 0 then Inl ErrCipherAlign
        else (case cryptBlocks (cbcDecrypt (aes_dec P block)) iv aesCipher of Inl e \<Rightarrow> Inl e
          | Inr padded \<Rightarrow>
          (case pkcs7Unpad padded 16 of Inl e \<Rightarrow> Inl e
          | Inr plaintext \<Rightarrow>
            if drop (length ciphertext - 32) ciphertext \<noteq> hmac_sha256 P authKey ad
            then Inl ErrHmac else Inr plaintext)))))"
proof (cases "length ciphertext < 32")
  case False
  then have "goSlice ciphertext 0 (int (length ciphertext) - 32) = Inr (take (length ciphertext - 32) ciphertext)"
    "goSlice ciphertext (int (length (take (length ciphertext - 32) ciphertext))) (int (length ciphertext)) =
      Inr (drop (length ciphertext - 32) ciphertext)"
    using goSlice_prefix [of 32 ciphertext] goSlice_suffix [of 32 ciphertext] by (simp_all add: of_nat_diff)
  with False show ?thesis
    by (simp add: decrypt_def Let_def del: goSlice_ok length_take split: sum.split prod.split)
qed (auto simp: decrypt_def split: sum.split)

lemma encrypt_eq:
  assumes "encryptParams P mk = Inr (ek, ak, iv)" and "pkcs7Pad pt 16 = Inr padded"
  shows "encrypt P mk pt ad = Inr (cbcEncrypt (aes_enc P ek) iv padded @ hmac_sha256 P ak ad)"
proof -
  have "length ek = 32" "length iv = 16" using encryptParams_lengths [OF assms(1)] by simp_all
  moreover have "length padded mod 16 = 0"
    using pkcs7Pad_Unpad [of 16 pt] assms(2) by auto
  ultimately show ?thesis
    using assms by (simp add: encrypt_def newCipher_32 cryptBlocks_def)
qed

lemma decrypt_eq:
  assumes "encryptParams P mk = Inr (ek, ak, iv)"
    and "length body mod 16 = 0" and "length tag = 32"
  shows "decrypt P mk (body @ tag) ad =
    (case pkcs7Unpad (cbcDecrypt (aes_dec P ek) iv body) 16 of Inl e \<Rightarrow> Inl e
     | Inr pt \<Rightarrow> if tag = hmac_sha256 P ak ad then Inr pt else Inl ErrHmac)"
proof -
  have "length ek = 32" "length iv = 16" using encryptParams_lengths [OF assms(1)] by simp_all
  with assms show ?thesis
    by (simp add: decrypt_slices newCipher_32 cryptBlocks_def split: sum.splits)
qed

lemma next_multiple:
  assumes "n mod 16 = (0::nat)" and "l < n" and "n \<le> l + 16"
  shows "n = 16 * (l div 16 + 1)"
proof -
  obtain q where q: "n = 16 * q" using assms(1) by (auto simp: mod_eq_0_iff_dvd)
  then obtain r where r: "q = Suc r" using assms(2) by (cases q) auto
  have "l div 16 = r" by (rule div_nat_eqI) (use assms q r in auto)
  with q r show ?thesis by simp
qed

lemma aesLaw_block:
  assumes "aesLaw P" and "length k = 32" and "length b = 16"
  shows "length (aes_enc P k b) = 16" and "length (aes_dec P k b) = 16"
    and "aes_dec P k (aes_enc P k b) = b"
  using assms by (simp_all add: aesLaw_def)

text \<open>Encryption of any plaintext under a 32-byte message key succeeds and is inverted.\<close>

lemma decrypt_encrypt:
  assumes "aesLaw P" and "hmacLaw P" and "length mk = 32"
  obtains c where "encrypt P mk pt ad = Inr c" and "decrypt P mk c ad = Inr pt"
    and "length c = 16 * (length pt div 16 + 1) + 32"
proof -
  obtain ek ak iv where k: "encryptParams P mk = Inr (ek, ak, iv)"
    "length ek = 32" "length ak = 32" "length iv = 16"
    using encryptParams_ok [OF assms(3)] .
  obtain padded where p: "pkcs7Pad pt 16 = Inr padded" "pkcs7Unpad padded 16 = Inr pt"
    "length padded mod nat 16 = 0" "length pt < length padded" "length padded \<le> length pt + nat 16"
    using pkcs7Pad_Unpad [of 16 pt] by auto
  let ?body = "cbcEncrypt (aes_enc P ek) iv padded"
  have E: "\<And>b. length b = 16 \<Longrightarrow> length (aes_enc P ek b) = 16 \<and> aes_dec P ek (aes_enc P ek b) = b"
    using aesLaw_block [OF assms(1) k(2)] by simp
  have len: "length ?body = length padded"
    using E k(4) p(3) by (intro cbc_length) auto
  have "cbcDecrypt (aes_dec P ek) iv ?body = padded"
    using E k(4) p(3) by (intro cbc_roundtrip) auto
  then have "decrypt P mk (?body @ hmac_sha256 P ak ad) ad = Inr pt"
    using decrypt_eq [OF k(1), of ?body "hmac_sha256 P ak ad" ad] len p hmac_length [OF assms(2)]
    by simp
  moreover have "length padded = 16 * (length pt div 16 + 1)"
    by (rule next_multiple) (use p(3,4,5) in simp_all)
  ultimately show thesis
    using that [OF encrypt_eq [OF k(1) p(1)]] len hmac_length [OF assms(2)] by simp
qed

text \<open>
  The authenticated encryption as a codec: a value is the cipher suite, the message key, the
  associated data and the plaintext.
\<close>

definition aeadValid :: "prims \<times> bytes \<times> bytes \<Rightarrow> bool" where
  "aeadValid = (\<lambda>(P, mk, ad). aesLaw P \<and> hmacLaw P \<and> length mk = 32)"

interpretation aead: codec "\<lambda>(K, pt). aeadValid K"
  "\<lambda>((P, mk, ad), pt). map_sum id (Pair (P, mk, ad)) (encrypt P mk pt ad)"
  "\<lambda>((P, mk, ad), c). map_sum id (Pair (P, mk, ad)) (decrypt P mk c ad)"
proof
  fix x :: "(prims \<times> bytes \<times> bytes) \<times> bytes"
  assume v: "case x of (K, pt) \<Rightarrow> aeadValid K"
  obtain P mk ad pt where x: "x = ((P, mk, ad), pt)" by (cases x) auto
  from v x have "aesLaw P" "hmacLaw P" "length mk = 32" by (simp_all add: aeadValid_def)
  then obtain c where "encrypt P mk pt ad = Inr c" "decrypt P mk c ad = Inr pt"
    using decrypt_encrypt by blast
  then show "\<exists>b. (case x of (K, pt) \<Rightarrow> (case K of (P, mk, ad) \<Rightarrow>
        (\<lambda>pt. map_sum id (Pair (P, mk, ad)) (encrypt P mk pt ad))) pt) = Inr b \<and>
      (case b of (K, c) \<Rightarrow> (case K of (P, mk, ad) \<Rightarrow>
        (\<lambda>c. map_sum id (Pair (P, mk, ad)) (decrypt P mk c ad))) c) = Inr x"
    using x by (intro exI [of _ "((P, mk, ad), c)"]) simp
qed

text \<open>A wrong tag is always refused, whatever the body is.\<close>

lemma decrypt_bad_tag:
  assumes "length mk = 32" and "length tag = 32"
    and "encryptParams P mk = Inr (ek, ak, iv)" and "tag \<noteq> hmac_sha256 P ak ad"
  shows "\<exists>e. decrypt P mk (body @ tag) ad = Inl e"
proof (cases "length body mod 16 = 0")
  case True
  then show ?thesis
    using decrypt_eq [OF assms(3) True assms(2), of ad] assms(4) by (auto split: sum.splits)
next
  case False
  have "length ek = 32" using encryptParams_lengths [OF assms(3)] by simp
  with False assms(2,3) show ?thesis by (simp add: decrypt_slices newCipher_32)
qed

lemma decrypt_never_panics: "\<not> isPanic (decrypt P mk c ad)"
  by (auto simp: decrypt_slices encryptParams_def readFull_def newCipher_def cryptBlocks_def
      pkcs7Unpad_eq Let_def split: sum.splits if_splits)

lemma encrypt_never_panics: "\<not> isPanic (encrypt P mk pt ad)"
proof (cases "length mk = 32")
  case True
  then obtain ek ak iv where "encryptParams P mk = Inr (ek, ak, iv)" by (rule encryptParams_ok)
  moreover obtain padded where "pkcs7Pad pt 16 = Inr padded" using pkcs7Pad_Unpad [of 16 pt] by auto
  ultimately show ?thesis by (simp add: encrypt_eq)
next
  case False
  then show ?thesis by (simp add: encrypt_def encryptParams_def)
qed

text \<open>
  The tag covers the associated data only. Flipping bits of the first ciphertext block therefore
  goes unnoticed: it flips the same bits of the second plaintext block.
\<close>

lemma xorBytes_swap:
  assumes "length a = n" and "length b = n" and "length c = n"
  shows "xorBytes (xorBytes a b) c = xorBytes (xorBytes a c) b"
  using assms
  by (intro nth_equalityI) (auto simp: xorBytes_def xor.assoc xor.commute xor.left_commute)

lemma cbc_bitflip:
  assumes ED: "\<And>b. length b = 16 \<Longrightarrow> length (E b) = 16 \<and> D (E b) = b"
    and l: "length iv = 16" "length b0 = 16" "length b1 = 16" "length \<delta> = 16" "length r mod 16 = 0"
    and body: "body = cbcEncrypt E iv (b0 @ b1 @ r)"
  shows "cbcDecrypt D iv (xorBytes (take 16 body) \<delta> @ drop 16 body)
    = xorBytes iv (D (xorBytes (take 16 body) \<delta>)) @ xorBytes b1 \<delta> @ r"
proof -
  let ?c0 = "E (xorBytes iv b0)"
  let ?c1 = "E (xorBytes ?c0 b1)"
  have c0: "length ?c0 = 16" using ED l by simp
  have c1: "length ?c1 = 16" "D ?c1 = xorBytes ?c0 b1" using ED c0 l by simp_all
  have b: "body = ?c0 @ ?c1 @ cbcEncrypt E ?c1 r"
    using l c0 by (simp add: body cbcEncrypt_block)
  have rest: "cbcDecrypt D ?c1 (cbcEncrypt E ?c1 r) = r"
    by (rule cbc_roundtrip) (use ED c1 l in simp_all)
  have "xorBytes (xorBytes ?c0 \<delta>) (xorBytes ?c0 b1) = xorBytes b1 \<delta>"
    using xorBytes_swap [of ?c0 16 \<delta> "xorBytes ?c0 b1"] xorBytes_cancel [of b1 ?c0] c0 l by simp
  then show ?thesis
    using b c0 c1 l rest by (simp add: cbcDecrypt_block)
qed

lemma add32_mod16 [simp]: "(32 + n) mod 16 = n mod (16::nat)"
proof -
  have "32 + n = n + 16 * 2" by simp
  then show ?thesis by (simp only: mod_mult_self2)
qed

lemma decrypt_bitflip:
  assumes "aesLaw P" and "hmacLaw P" and l: "length b0 = 16" "length b1 = 16" "length \<delta> = 16"
    and "encrypt P msgKey (b0 @ b1 @ d) ad = Inr c"
  shows "\<exists>g. length g = 16 \<and>
    decrypt P msgKey (xorBytes (take 16 c) \<delta> @ drop 16 c) ad = Inr (g @ xorBytes b1 \<delta> @ d)"
proof -
  obtain ek ak iv where k: "encryptParams P msgKey = Inr (ek, ak, iv)"
    using assms(6) by (cases "encryptParams P msgKey") (auto simp: encrypt_def)
  have kl: "length ek = 32" "length iv = 16" using encryptParams_lengths [OF k] by simp_all
  have "0 < (16::int)" "(16::int) \<le> 255" by simp_all
  then obtain p where p: "0 < p" "p \<le> nat 16" "(length (b0 @ b1 @ d) + p) mod nat 16 = 0"
    "pkcs7Pad (b0 @ b1 @ d) 16 = Inr ((b0 @ b1 @ d) @ replicate p (word_of_nat p))"
    by (rule pkcs7Pad_ok)
  let ?E = "aes_enc P ek" and ?D = "aes_dec P ek" and ?tag = "hmac_sha256 P ak ad"
  define r :: bytes where "r = d @ replicate p (word_of_nat p)"
  define body where "body = cbcEncrypt ?E iv (b0 @ b1 @ r)"
  have c: "c = body @ ?tag"
    using encrypt_eq [OF k p(4), of ad] assms(6) by (simp add: body_def r_def)
  have r: "length r mod 16 = 0"
    using p(3) l add32_mod16 [of "length r"] by (simp add: r_def add.assoc)
  have ED: "\<And>b. length b = 16 \<Longrightarrow> length (?E b) = 16 \<and> ?D (?E b) = b"
    using aesLaw_block [OF assms(1) kl(1)] by simp
  have bl: "length body = 32 + length r"
    unfolding body_def using cbc_length [of ?E iv "b0 @ b1 @ r"] ED kl l r by simp
  define g where "g = xorBytes iv (?D (xorBytes (take 16 body) \<delta>))"
  have g: "length g = 16" using aesLaw_block(2) [OF assms(1) kl(1)] kl bl l by (simp add: g_def)
  have dec: "cbcDecrypt ?D iv (xorBytes (take 16 body) \<delta> @ drop 16 body) = g @ xorBytes b1 \<delta> @ r"
    unfolding g_def using ED kl(2) l r body_def by (rule cbc_bitflip)
  have "pkcs7Unpad ((g @ xorBytes b1 \<delta> @ d) @ replicate p (word_of_nat p)) 16
      = Inr (g @ xorBytes b1 \<delta> @ d)"
    using p(1-3) g l by (intro pkcs7Unpad_padded) simp_all
  then have "decrypt P msgKey ((xorBytes (take 16 body) \<delta> @ drop 16 body) @ ?tag) ad
      = Inr (g @ xorBytes b1 \<delta> @ d)"
    using decrypt_eq [OF k, of "xorBytes (take 16 body) \<delta> @ drop 16 body" ?tag ad]
      dec bl r l hmac_length [OF assms(2)] by (simp add: r_def)
  with g bl show ?thesis by (intro exI [of _ g]) (simp add: c)
qed

section \<open>A computable instance of the parameters\<close>

text \<open>
  A concrete, computable cipher suite. It is of course not secure; it shows that the laws the
  properties assume can hold together, and it lets closed instances of the properties be
  evaluated.
\<close>

definition demo :: prims where
  "demo = \<lparr>
     x25519 = (\<lambda>a b. Some (map2 (+) a b)),
     x25519_base = (\<lambda>a. a),
     hmac_sha256 = (\<lambda>k m. map (\<lambda>b. b * 3 + sum_list m + 1) (goCopy 32 k)),
     hkdf_sha256 = (\<lambda>secret salt info i.
        sum_list secret + 3 * sum_list salt + sum_list info + word_of_nat i),
     aes_enc = (\<lambda>k b. xorBytes k b),
     aes_dec = (\<lambda>k b. xorBytes k b),
     sha512 = goCopy 64,
     ed_sign = (\<lambda>k m. goCopy 64 (drop 32 k @ m)),
     ed_verify = (\<lambda>p m s. s = goCopy 64 (p @ m)),
     seal_anonymous = (\<lambda>f m key. key @ m),
     open_anonymous = (\<lambda>b pub priv. if take 32 b = pub then Some (drop 32 b) else None)\<rparr>"

lemma map2_plus_commute: "map2 (+) a b = map2 (+) b (a :: bytes)"
proof (induction a arbitrary: b)
  case Nil
  then show ?case by simp
next
  case (Cons x xs)
  then show ?case by (cases b) (simp_all add: add.commute)
qed

lemma demo_dhLaw: "dhLaw demo"
  unfolding dhLaw_def by (simp add: demo_def map2_plus_commute)

lemma demo_hmacLaw: "hmacLaw demo"
  by (simp add: hmacLaw_def demo_def)

lemma demo_aesLaw: "aesLaw demo"
  by (simp add: aesLaw_def demo_def xorBytes_cancel)

lemmas demo_laws = demo_dhLaw demo_hmacLaw demo_aesLaw

section \<open>Correctness\<close>

text \<open>
  C12: for every plaintext, associated data and 32-byte message key the authenticated encryption succeeds, its output is the padded plaintext plus 32 bytes of tag, and decryption with the same key and associated data returns the plaintext.
\<close>

theorem aead_roundtrip:
  assumes "aesLaw P" and "hmacLaw P" and "length msgKey = 32"
  shows "\<exists>c. encrypt P msgKey plaintext ad = Inr c \<and> decrypt P msgKey c ad = Inr plaintext
    \<and> length c = 16 * (length plaintext div 16 + 1) + 32"
proof -
  from assms obtain c where "encrypt P msgKey plaintext ad = Inr c"
    "decrypt P msgKey c ad = Inr plaintext"
    "length c = 16 * (length plaintext div 16 + 1) + 32"
    by (rule decrypt_encrypt)
  then show ?thesis by (intro exI conjI)
qed

theorem aead_roundtrip_witness:
  "\<exists>c. encrypt demo (replicate 32 7) [1, 2, 3] [9] = Inr c
    \<and> decrypt demo (replicate 32 7) c [9] = Inr [1, 2, 3]
    \<and> length c = 16 * (length [1, 2, 3 :: byte] div 16 + 1) + 32"
  by (rule aead_roundtrip) (simp_all add: demo_laws)

text \<open>
  C37: the tag does not cover the ciphertext. Whoever flips bits of the first ciphertext block of a message of at least 32 bytes, without knowing any key, obtains a ciphertext that decrypts without error; the same bits are flipped in the second plaintext block and everything from the third block on is unchanged.
\<close>

theorem decrypt_accepts_bitflips:
  assumes "aesLaw P" and "hmacLaw P"
    and "length plaintext \<ge> 32" and "length \<delta> = 16"
    and "encrypt P msgKey plaintext ad = Inr c"
  shows "\<exists>garbled. length garbled = 16 \<and>
    decrypt P msgKey (xorBytes (take 16 c) \<delta> @ drop 16 c) ad =
      Inr (garbled @ xorBytes (slice 16 32 plaintext) \<delta> @ drop 32 plaintext)"
proof -
  obtain b0 b1 d where pt: "plaintext = b0 @ b1 @ d" "length b0 = 16" "length b1 = 16"
  proof
    show "plaintext = take 16 plaintext @ slice 16 32 plaintext @ drop 32 plaintext"
      using append_take_drop_id [of 16 plaintext] append_take_drop_id [of 16 "drop 16 plaintext"]
      by (simp add: slice_def)
  qed (use assms(3) in simp_all)
  from decrypt_bitflip [OF assms(1,2) pt(2,3) assms(4)] assms(5) pt show ?thesis by simp
qed

theorem decrypt_accepts_bitflips_witness:
  "\<exists>c garbled. encrypt demo (replicate 32 7) (replicate 40 65) [9] = Inr c \<and> length garbled = 16 \<and>
    decrypt demo (replicate 32 7) (xorBytes (take 16 c) (replicate 16 1) @ drop 16 c) [9] =
      Inr (garbled @ xorBytes (slice 16 32 (replicate 40 65)) (replicate 16 1)
        @ drop 32 (replicate 40 65))"
proof -
  obtain c where c: "encrypt demo (replicate 32 7) (replicate 40 65) [9] = Inr c"
    using demo_laws(3,2) by (rule decrypt_encrypt [of demo "replicate 32 7" "replicate 40 65"]) simp_all
  show ?thesis
    using decrypt_accepts_bitflips [OF demo_laws(3,2) _ _ c, of "replicate 16 1"] c by auto
qed

end
