(* ===== verification/DhRatchet.thy ===== *)
theory DhRatchet
  imports Primitives
begin

text \<open>
  The Diffie-Hellman ratchet with its root chain (\<open>src/doubleratchet/dh_ratchet.go\<close>).
  \<open>step\<close> returns the ratchet it mutated together with its four results, on every path:
  the code assigns some fields before an error and the caller stores the returned keys even then.
\<close>

section \<open>Data and operations\<close>

record dhRatchet =
  r_rootKey :: bytes
  r_dhPub :: bytes
  r_dhPriv :: bytes
  r_peerDhPub :: bytes
  r_isActive :: bool
  r_isInitialized :: bool

definition dhRatchetActive ::
    "prims \<Rightarrow> entropy \<Rightarrow> bytes \<Rightarrow> bytes \<Rightarrow> dhRatchet \<times> err option" where
  "dhRatchetActive P rnd rootKey peerDhPub =
     (let r = \<lparr>r_rootKey = rootKey, r_dhPub = [], r_dhPriv = [], r_peerDhPub = peerDhPub,
               r_isActive = True, r_isInitialized = False\<rparr>;
          (pub, priv, err) = dhKeyPair P rnd
      in (r\<lparr>r_dhPub := pub, r_dhPriv := priv\<rparr>, err))"

definition dhRatchetPassive :: "bytes \<Rightarrow> bytes \<Rightarrow> bytes \<Rightarrow> dhRatchet" where
  "dhRatchetPassive rootKey dhPub dhPriv =
     \<lparr>r_rootKey = rootKey, r_dhPub = dhPub, r_dhPriv = dhPriv, r_peerDhPub = [],
      r_isActive = False, r_isInitialized = False\<rparr>"

text \<open>The results of \<open>step\<close>: the public key, the sending and the receiving key, the error.\<close>

type_synonym stepResult = "bytes \<times> bytes option \<times> bytes option \<times> err option"

text \<open>The initial step of the active peer.\<close>

definition stepInitial :: "prims \<Rightarrow> dhRatchet \<Rightarrow> dhRatchet \<times> stepResult" where
  "stepInitial P r =
     (case dh P (r_dhPriv r) (r_peerDhPub r) of
        Inl e \<Rightarrow> (r, (r_dhPub r, None, None, Some e))
      | Inr s \<Rightarrow> (case rootKdf P (r_rootKey r) s of
          Inl e \<Rightarrow> (r\<lparr>r_rootKey := []\<rparr>, (r_dhPub r, None, None, Some e))
        | Inr (rk, sendKey) \<Rightarrow>
            (r\<lparr>r_rootKey := rk, r_isInitialized := True\<rparr>, (r_dhPub r, Some sendKey, None, None))))"

text \<open>The second half of a regular step: a new key pair and the sending key.\<close>

definition stepProceed :: "prims \<Rightarrow> entropy \<Rightarrow> dhRatchet \<Rightarrow> bytes option \<Rightarrow> dhRatchet \<times> stepResult" where
  "stepProceed P rnd r recvKey =
     (let (pub, priv, err) = dhKeyPair P rnd;
          r = r\<lparr>r_dhPub := pub, r_dhPriv := priv\<rparr>
      in case err of
        Some e \<Rightarrow> (r, ([], None, recvKey, Some e))
      | None \<Rightarrow> (case dh P (r_dhPriv r) (r_peerDhPub r) of
          Inl e \<Rightarrow> (r, (r_dhPub r, None, recvKey, Some e))
        | Inr s \<Rightarrow> (case rootKdf P (r_rootKey r) s of
            Inl e \<Rightarrow> (r\<lparr>r_rootKey := []\<rparr>, (r_dhPub r, None, recvKey, Some e))
          | Inr (rk, sendKey) \<Rightarrow>
              (r\<lparr>r_rootKey := rk\<rparr>, (r_dhPub r, Some sendKey, recvKey, None)))))"

definition step :: "prims \<Rightarrow> entropy \<Rightarrow> dhRatchet \<Rightarrow> bytes \<Rightarrow> dhRatchet \<times> stepResult" where
  "step P rnd r peerDhPub =
     (if r_isActive r \<and> \<not> r_isInitialized r then stepInitial P r
      else let r = r\<lparr>r_peerDhPub := peerDhPub\<rparr> in
        case dh P (r_dhPriv r) (r_peerDhPub r) of
          Inl e \<Rightarrow> (r, ([], None, None, Some e))
        | Inr s \<Rightarrow> (case rootKdf P (r_rootKey r) s of
            Inl e \<Rightarrow> (r\<lparr>r_rootKey := []\<rparr>, ([], None, None, Some e))
          | Inr (rk, recvKey) \<Rightarrow> stepProceed P rnd (r\<lparr>r_rootKey := rk\<rparr>) (Some recvKey)))"

section \<open>Agreement of two ratchets\<close>

text \<open>A ratchet with a consistent key pair that is past the initial step.\<close>

definition keysOk :: "prims \<Rightarrow> dhRatchet \<Rightarrow> bool" where
  "keysOk P r \<longleftrightarrow> length (r_dhPriv r) = 32 \<and> r_dhPub r = x25519_base P (r_dhPriv r)
     \<and> length (r_rootKey r) = 32"

definition regular :: "dhRatchet \<Rightarrow> bool" where
  "regular r \<longleftrightarrow> (r_isActive r \<longrightarrow> r_isInitialized r)"

text \<open>
  \<open>dhAhead P x y ck\<close>: \<open>x\<close> has proceeded by one step on the current key of \<open>y\<close>, and \<open>y\<close>
  will reach the root key of \<open>x\<close> with the chain key \<open>ck\<close> once it learns the key of \<open>x\<close>.
\<close>

definition dhAhead :: "prims \<Rightarrow> dhRatchet \<Rightarrow> dhRatchet \<Rightarrow> bytes \<Rightarrow> bool" where
  "dhAhead P x y ck \<longleftrightarrow> keysOk P x \<and> keysOk P y \<and> regular x \<and> regular y
     \<and> r_peerDhPub x = r_dhPub y
     \<and> (\<exists>s. dh P (r_dhPriv x) (r_dhPub y) = Inr s \<and> rootKdf P (r_rootKey y) s = Inr (r_rootKey x, ck))"

lemma dhAheadD:
  assumes "dhAhead P x y ck"
  shows "keysOk P x" "keysOk P y" "regular x" "regular y" "r_peerDhPub x = r_dhPub y"
    "length ck = 32"
  using assms by (auto simp: dhAhead_def dest: rootKdf_lengths)

lemma keysOk_base_length: "dhLaw P \<Longrightarrow> keysOk P r \<Longrightarrow> length (r_dhPub r) = 32"
  by (simp add: keysOk_def base_length)

text \<open>The follower's step yields the leader's chain key, and the roles swap.\<close>

lemma step_follows:
  assumes "dhLaw P" and "dhAhead P x y ck"
  obtains y' sk where
    "step P (RandOk f) y (r_dhPub x) = (y', (r_dhPub y', Some sk, Some ck, None))"
    and "dhAhead P y' x sk" and "r_dhPub y' = x25519_base P (map f [0..<32])"
proof -
  have x: "keysOk P x" "regular x" and y: "keysOk P y" "regular y"
    using dhAheadD [OF assms(2)] by auto
  from assms(2) obtain s where s: "dh P (r_dhPriv x) (r_dhPub y) = Inr s"
    and rk: "rootKdf P (r_rootKey y) s = Inr (r_rootKey x, ck)"
    by (auto simp: dhAhead_def)
  have sy: "dh P (r_dhPriv y) (r_dhPub x) = Inr s"
    using dhLaw_dh [OF assms(1), of "r_dhPriv x" "r_dhPriv y"] x y s
    by (auto simp: keysOk_def)
  let ?priv = "map f [0..<32]" and ?pub = "x25519_base P (map f [0..<32])"
  obtain t where t: "dh P ?priv (r_dhPub x) = Inr t"
    using dhLaw_dh [OF assms(1), of ?priv "r_dhPriv x"] x by (auto simp: keysOk_def)
  have "length (r_rootKey x) = 32" using x by (simp add: keysOk_def)
  then obtain rk' sk where k: "rootKdf P (r_rootKey x) t = Inr (rk', sk)"
    by (rule rootKdf_ok)
  let ?y = "y\<lparr>r_peerDhPub := r_dhPub x, r_rootKey := rk', r_dhPub := ?pub, r_dhPriv := ?priv\<rparr>"
  have st: "step P (RandOk f) y (r_dhPub x) = (?y, (r_dhPub ?y, Some sk, Some ck, None))"
    using y(2) sy rk t k
    by (auto simp: step_def regular_def stepProceed_def dhKeyPair_ok)
  have "dhAhead P ?y x sk"
    using x y t k rootKdf_lengths [OF k] by (auto simp: dhAhead_def keysOk_def regular_def)
  with st that show thesis by simp
qed

text \<open>The initial step of the active peer, against a passive peer that knows the same root key.\<close>

lemma stepInitial_ahead:
  assumes "dhLaw P" and "length rk = 32" and "length priv = 32" and "pub = x25519_base P priv"
    and "dhRatchetActive P (RandOk f) rk pub = (a, None)"
  obtains a' sk where
    "step P rnd a peer = (a', (r_dhPub a', Some sk, None, None))"
    and "dhAhead P a' (dhRatchetPassive rk pub priv) sk"
    and "r_dhPub a' = x25519_base P (map f [0..<32])"
proof -
  let ?priv = "map f [0..<32]"
  have a: "a = \<lparr>r_rootKey = rk, r_dhPub = x25519_base P ?priv, r_dhPriv = ?priv, r_peerDhPub = pub,
      r_isActive = True, r_isInitialized = False\<rparr>"
    using assms(5) by (simp add: dhRatchetActive_def dhKeyPair_ok)
  obtain s where s: "dh P ?priv pub = Inr s"
    using dhLaw_dh [OF assms(1), of ?priv priv] assms(3,4) by auto
  obtain rk' sk where k: "rootKdf P rk s = Inr (rk', sk)"
    using rootKdf_ok [OF assms(2)] by blast
  let ?a = "a\<lparr>r_rootKey := rk', r_isInitialized := True\<rparr>"
  have "step P rnd a peer = (?a, (r_dhPub ?a, Some sk, None, None))"
    using s k by (simp add: step_def stepInitial_def a)
  moreover have "dhAhead P ?a (dhRatchetPassive rk pub priv) sk"
    using assms s k rootKdf_lengths [OF k]
    by (auto simp: dhAhead_def keysOk_def regular_def dhRatchetPassive_def a)
  ultimately show thesis using that by (simp add: a)
qed

text \<open>
  Alternating steps of two ratchets, as long as random input lasts: the list of pairs
  (sending key of the previous step, receiving key of this step).
\<close>

fun pingPong :: "prims \<Rightarrow> (nat \<Rightarrow> byte) list \<Rightarrow> dhRatchet \<Rightarrow> dhRatchet \<Rightarrow> bytes option
    \<Rightarrow> (bytes option \<times> bytes option \<times> err option) list" where
  "pingPong P [] x y skPrev = []"
| "pingPong P (f # fs) x y skPrev =
     (let (y', (dhPub, sk, rk, err)) = step P (RandOk f) y (r_dhPub x)
      in (skPrev, rk, err) # pingPong P fs y' x sk)"

lemma pingPong_ahead:
  assumes "dhLaw P" and "dhAhead P x y ck"
  shows "\<forall>(sk, rk, err) \<in> set (pingPong P fs x y (Some ck)). sk = rk \<and> rk \<noteq> None \<and> err = None"
  using assms(2)
proof (induction fs arbitrary: x y ck)
  case Nil
  then show ?case by simp
next
  case (Cons f fs)
  obtain y' sk where "step P (RandOk f) y (r_dhPub x) = (y', (r_dhPub y', Some sk, Some ck, None))"
    "dhAhead P y' x sk"
    using step_follows [OF assms(1) Cons.prems, of f] by blast
  with Cons.IH show ?case by auto
qed

section \<open>Correctness\<close>

text \<open>
  C11: two DH ratchets that start from the same root key stay in agreement for any number of alternating steps with any random key pairs: every step succeeds and every receiving key equals the sending key of the peer's step before.
\<close>

theorem dh_ratchets_agree:
  assumes "dhLaw P" and "length rootKey = 32" and "length priv = 32"
    and "dhRatchetActive P (RandOk f) rootKey (x25519_base P priv) = (alice, None)"
    and "step P rnd alice peer = (alice', (dhPub, sk, rk, err))"
  shows "err = None \<and> sk \<noteq> None \<and>
    (\<forall>(skPrev, recvKey, e) \<in> set (pingPong P fs alice'
        (dhRatchetPassive rootKey (x25519_base P priv) priv) sk).
      skPrev = recvKey \<and> recvKey \<noteq> None \<and> e = None)"
proof -
  obtain a' k where a: "step P rnd alice peer = (a', (r_dhPub a', Some k, None, None))"
    and "dhAhead P a' (dhRatchetPassive rootKey (x25519_base P priv) priv) k"
    using stepInitial_ahead [OF assms(1-3) refl assms(4)] by blast
  with assms(5) pingPong_ahead [OF assms(1)] show ?thesis by auto
qed

theorem dh_ratchets_agree_witness:
  "\<exists>alice alice' dhPub sk rk err.
    dhRatchetActive demo (RandOk (\<lambda>_. 5)) (replicate 32 1) (x25519_base demo (replicate 32 2)) = (alice, None)
    \<and> step demo (RandOk (\<lambda>_. 0)) alice [] = (alice', (dhPub, sk, rk, err))
    \<and> err = None \<and> sk \<noteq> None \<and>
    (\<forall>(skPrev, recvKey, e) \<in> set (pingPong demo [\<lambda>_. 3, \<lambda>_. 4, \<lambda>i. word_of_nat i] alice'
        (dhRatchetPassive (replicate 32 1) (x25519_base demo (replicate 32 2)) (replicate 32 2)) sk).
      skPrev = recvKey \<and> recvKey \<noteq> None \<and> e = None)"
proof -
  obtain alice where a: "dhRatchetActive demo (RandOk (\<lambda>_. 5)) (replicate 32 1)
      (x25519_base demo (replicate 32 2)) = (alice, None)"
    by (simp add: dhRatchetActive_def dhKeyPair_ok)
  obtain alice' dhPub sk rk err where
    st: "step demo (RandOk (\<lambda>_. 0)) alice [] = (alice', (dhPub, sk, rk, err))"
    by (cases "step demo (RandOk (\<lambda>_. 0)) alice []") auto
  have "length (replicate 32 1 :: bytes) = 32" "length (replicate 32 2 :: bytes) = 32" by simp_all
  note agree = dh_ratchets_agree [OF demo_dhLaw this a st]
  show ?thesis
    by (intro exI conjI) (rule a, rule st, rule agree [THEN conjunct1],
        rule agree [THEN conjunct2, THEN conjunct1], rule agree [THEN conjunct2, THEN conjunct2])
qed

end
