(* ===== verification/KeyBuff.thy ===== *)
theory KeyBuff
  imports Prelude "HOL-Library.AList"
begin

text \<open>
  The buffer of skipped message keys (\<open>src/doubleratchet/key_buff.go\<close>): a
  \<open>container/ring\<close> of eight slots, each empty or holding the message keys of one sending
  chain, indexed by the chain's public key.

  The ring is a list of slots read in the direction of \<open>Next\<close> from the current pointer
  \<open>kb.buff\<close>, so the pointer is always at index 0 and \<open>Prev\<close> rotates the list. An element
  is addressed by its position in that list, which stands for the Go pointer.
\<close>

section \<open>Data and operations\<close>

definition maxSkipChains :: nat where
  "maxSkipChains = 8"

definition maxSkipElements :: int where
  "maxSkipElements = 32"

record keyBufferElement =
  e_dhPub :: bytes
  e_msgKeys :: "(int \<times> bytes) list"

record keyBuffer =
  buff :: "keyBufferElement option list"

text \<open>\<open>ring.New(n)\<close> and \<open>r.Prev()\<close>.\<close>

definition ringNew :: "nat \<Rightarrow> 'a option list" where
  "ringNew n = replicate n None"

definition ringPrev :: "'a list \<Rightarrow> 'a list" where
  "ringPrev r = (if r = [] then [] else last r # butlast r)"

definition newKeyBuffer :: keyBuffer where
  "newKeyBuffer = \<lparr>buff = ringNew maxSkipChains\<rparr>"

text \<open>
  The closure that \<open>elementFind\<close> hands to \<open>Do\<close>: it visits every slot in order, ignores the
  empty ones and remembers the last slot whose key is equal (there is no early exit).
\<close>

fun findLoop :: "bytes \<Rightarrow> nat \<Rightarrow> keyBufferElement option list \<Rightarrow> nat option \<Rightarrow> nat option" where
  "findLoop dhPub i [] kbe = kbe"
| "findLoop dhPub i (None # r) kbe = findLoop dhPub (Suc i) r kbe"
| "findLoop dhPub i (Some e # r) kbe =
     findLoop dhPub (Suc i) r
       (if constantTimeCompare dhPub (e_dhPub e) = 1 then Some i else kbe)"

definition elementFind :: "keyBuffer \<Rightarrow> bytes \<Rightarrow> nat option" where
  "elementFind kb dhPub = findLoop dhPub 0 (buff kb) None"

text \<open>
  \<open>elementAdd\<close> steps the pointer back by one slot and overwrites that slot. The new element
  is then at the pointer, position 0.
\<close>

definition elementAdd :: "keyBuffer \<Rightarrow> bytes \<Rightarrow> keyBuffer \<times> nat" where
  "elementAdd kb dhPub =
     (kb\<lparr>buff := (ringPrev (buff kb))[0 := Some \<lparr>e_dhPub = dhPub, e_msgKeys = []\<rparr>]\<rparr>, 0)"

definition elementAt :: "keyBuffer \<Rightarrow> nat \<Rightarrow> keyBufferElement" where
  "elementAt kb i = the (buff kb ! i)"

definition find :: "keyBuffer \<Rightarrow> bytes \<Rightarrow> int \<Rightarrow> bytes result" where
  "find kb dhPub msgNo =
     (case elementFind kb dhPub of
        None \<Rightarrow> Inl ErrKeyNotCached
      | Some i \<Rightarrow> (case map_of (e_msgKeys (elementAt kb i)) msgNo of
          None \<Rightarrow> Inl ErrMsgNotCached
        | Some msgKey \<Rightarrow> Inr msgKey))"

definition insertKey :: "keyBuffer \<Rightarrow> bytes \<Rightarrow> int \<Rightarrow> bytes \<Rightarrow> keyBuffer" where
  "insertKey kb dhPub msgNo msgKey =
     (let (kb', i) = (case elementFind kb dhPub of
              None \<Rightarrow> elementAdd kb dhPub
            | Some i \<Rightarrow> (kb, i));
          e = elementAt kb' i
      in kb'\<lparr>buff := (buff kb')[i := Some (e\<lparr>e_msgKeys := AList.update msgNo msgKey (e_msgKeys e)\<rparr>)]\<rparr>)"

section \<open>Specification: a bounded list of chains, newest first\<close>

text \<open>
  What the ring represents: the cached chains, newest first, at most eight of them and no two
  with the same public key. The representation invariant says that the empty slots come last.
\<close>

definition cached :: "keyBuffer \<Rightarrow> keyBufferElement list" where
  "cached kb = List.map_filter id (buff kb)"

definition kbInv :: "keyBuffer \<Rightarrow> bool" where
  "kbInv kb \<longleftrightarrow> buff kb = map Some (cached kb) @ replicate (maxSkipChains - length (cached kb)) None
     \<and> length (cached kb) \<le> maxSkipChains \<and> distinct (map e_dhPub (cached kb))"

fun putKey :: "bytes \<Rightarrow> int \<Rightarrow> bytes \<Rightarrow> keyBufferElement list \<Rightarrow> keyBufferElement list" where
  "putKey d n k [] = []"
| "putKey d n k (e # es) =
     (if e_dhPub e = d then e\<lparr>e_msgKeys := AList.update n k (e_msgKeys e)\<rparr> # es
      else e # putKey d n k es)"

definition specInsert :: "bytes \<Rightarrow> int \<Rightarrow> bytes \<Rightarrow> keyBufferElement list \<Rightarrow> keyBufferElement list" where
  "specInsert d n k cs =
     (if d \<in> e_dhPub ` set cs then putKey d n k cs
      else take maxSkipChains (\<lparr>e_dhPub = d, e_msgKeys = [(n, k)]\<rparr> # cs))"

fun specLookup :: "keyBufferElement list \<Rightarrow> bytes \<Rightarrow> int \<Rightarrow> bytes result" where
  "specLookup [] d n = Inl ErrKeyNotCached"
| "specLookup (e # es) d n =
     (if e_dhPub e = d
      then (case map_of (e_msgKeys e) n of None \<Rightarrow> Inl ErrMsgNotCached | Some k \<Rightarrow> Inr k)
      else specLookup es d n)"

section \<open>The ring implements the specification\<close>

lemma map_filter_id_map_Some [simp]: "List.map_filter id (map Some xs) = xs"
  by (induction xs) (simp_all add: map_filter_simps)

lemma map_filter_id_replicate_None [simp]: "List.map_filter id (replicate n None) = []"
  by (induction n) (simp_all add: map_filter_simps)

lemma map_filter_append: "List.map_filter f (xs @ ys) = List.map_filter f xs @ List.map_filter f ys"
  by (simp add: List.map_filter_def)

lemma findLoop_replicate_None [simp]: "findLoop d i (replicate n None) acc = acc"
  by (induction n arbitrary: i) simp_all

lemma findLoop_append_None:
  "findLoop d i (r @ replicate n None) acc = findLoop d i r acc"
  by (induction d i r acc rule: findLoop.induct) simp_all

lemma findLoop_absent:
  "d \<notin> e_dhPub ` set es \<Longrightarrow> findLoop d i (map Some es) acc = acc"
  by (induction es arbitrary: i acc) auto

lemma findLoop_present:
  assumes "distinct (map e_dhPub es)" and "j < length es" and "e_dhPub (es ! j) = d"
  shows "findLoop d i (map Some es) acc = Some (i + j)"
  using assms
proof (induction es arbitrary: i j acc)
  case Nil
  then show ?case by simp
next
  case (Cons e es)
  show ?case
  proof (cases j)
    case 0
    with Cons.prems have "d \<notin> e_dhPub ` set es" and "e_dhPub e = d" by auto
    with 0 show ?thesis by (simp add: findLoop_absent)
  next
    case (Suc j')
    with Cons.prems Cons.IH [of j' "Suc i"] show ?thesis by simp
  qed
qed

text \<open>Positions of elements, for a buffer that satisfies the invariant.\<close>

lemma elementFind_iff:
  assumes "kbInv kb"
  shows "elementFind kb d = None \<longleftrightarrow> d \<notin> e_dhPub ` set (cached kb)"
    and "elementFind kb d = Some i \<longleftrightarrow> i < length (cached kb) \<and> e_dhPub (cached kb ! i) = d"
proof -
  let ?cs = "cached kb"
  have b: "buff kb = map Some ?cs @ replicate (maxSkipChains - length ?cs) None"
    and dist: "distinct (map e_dhPub ?cs)"
    using assms by (auto simp: kbInv_def)
  have ef: "elementFind kb d = findLoop d 0 (map Some ?cs) None"
    unfolding elementFind_def by (subst b) (rule findLoop_append_None)
  have found: "elementFind kb d = Some j" if "j < length ?cs" "e_dhPub (?cs ! j) = d" for j
    using findLoop_present [OF dist that, of 0 None] ef by simp
  have absent: "elementFind kb d = None" if "d \<notin> e_dhPub ` set ?cs"
    using that ef by (simp add: findLoop_absent)
  have pos: "\<exists>j < length ?cs. e_dhPub (?cs ! j) = d" if "d \<in> e_dhPub ` set ?cs"
    using that by (metis imageE in_set_conv_nth)
  show none: "elementFind kb d = None \<longleftrightarrow> d \<notin> e_dhPub ` set ?cs"
    using found absent pos by (metis option.distinct(1))
  show "elementFind kb d = Some i \<longleftrightarrow> i < length ?cs \<and> e_dhPub (?cs ! i) = d"
    using found absent pos by (metis option.distinct(1) option.inject)
qed

lemma elementAt_cached:
  assumes "kbInv kb" and "i < length (cached kb)"
  shows "elementAt kb i = cached kb ! i"
proof -
  have "buff kb ! i = Some (cached kb ! i)"
    using assms by (metis kbInv_def length_map nth_append nth_map)
  then show ?thesis by (simp add: elementAt_def)
qed

lemma specLookup_absent: "d \<notin> e_dhPub ` set es \<Longrightarrow> specLookup es d n = Inl ErrKeyNotCached"
  by (induction es) auto

lemma specLookup_present:
  assumes "distinct (map e_dhPub es)" and "i < length es" and "e_dhPub (es ! i) = d"
  shows "specLookup es d n =
    (case map_of (e_msgKeys (es ! i)) n of None \<Rightarrow> Inl ErrMsgNotCached | Some k \<Rightarrow> Inr k)"
  using assms
proof (induction es arbitrary: i)
  case Nil
  then show ?case by simp
next
  case (Cons e es)
  show ?case
  proof (cases i)
    case 0
    with Cons.prems show ?thesis by simp
  next
    case (Suc j)
    with Cons.prems have "es ! j \<in> set es" "e_dhPub e \<notin> e_dhPub ` set es" by auto
    with Cons.prems Suc have "e_dhPub e \<noteq> d" by auto
    with Cons Suc show ?thesis by simp
  qed
qed

lemma find_specLookup:
  assumes "kbInv kb"
  shows "find kb d n = specLookup (cached kb) d n"
proof (cases "elementFind kb d")
  case None
  then have "d \<notin> e_dhPub ` set (cached kb)"
    using elementFind_iff(1) [OF assms] by simp
  with None show ?thesis by (simp add: find_def specLookup_absent)
next
  case (Some i)
  with elementFind_iff(2) [OF assms] have i: "i < length (cached kb)" "e_dhPub (cached kb ! i) = d"
    by auto
  have "distinct (map e_dhPub (cached kb))" using assms by (simp add: kbInv_def)
  from specLookup_present [OF this i, of n] Some show ?thesis
    by (simp add: find_def elementAt_cached [OF assms i(1)])
qed

lemma kbInv_intro:
  assumes "buff kb = map Some cs @ replicate (maxSkipChains - length cs) None"
    and "length cs \<le> maxSkipChains" and "distinct (map e_dhPub cs)"
  shows "kbInv kb \<and> cached kb = cs"
  using assms by (simp add: kbInv_def cached_def map_filter_append)

lemma kbInv_new: "kbInv newKeyBuffer" and cached_new: "cached newKeyBuffer = []"
  using kbInv_intro [of newKeyBuffer "[]"] by (simp_all add: newKeyBuffer_def ringNew_def)

lemma putKey_update:
  assumes "distinct (map e_dhPub es)" and "i < length es" and "e_dhPub (es ! i) = d"
  shows "putKey d n k es =
    es[i := (es ! i)\<lparr>e_msgKeys := AList.update n k (e_msgKeys (es ! i))\<rparr>]"
  using assms
proof (induction es arbitrary: i)
  case Nil
  then show ?case by simp
next
  case (Cons e es)
  show ?case
  proof (cases i)
    case 0
    with Cons.prems show ?thesis by simp
  next
    case (Suc j)
    with Cons.prems have "es ! j \<in> set es" "e_dhPub e \<notin> e_dhPub ` set es" by auto
    with Cons.prems Suc have "e_dhPub e \<noteq> d" by auto
    with Cons Suc show ?thesis by simp
  qed
qed

lemma putKey_dhPub [simp]: "map e_dhPub (putKey d n k es) = map e_dhPub es"
  by (induction es) auto

lemma length_putKey [simp]: "length (putKey d n k es) = length es"
  by (induction es) auto

lemma insertKey_present:
  assumes "kbInv kb" and "d \<in> e_dhPub ` set (cached kb)"
  shows "kbInv (insertKey kb d n k) \<and> cached (insertKey kb d n k) = putKey d n k (cached kb)"
proof -
  let ?cs = "cached kb"
  have b: "buff kb = map Some ?cs @ replicate (maxSkipChains - length ?cs) None"
    and dist: "distinct (map e_dhPub ?cs)" and len: "length ?cs \<le> maxSkipChains"
    using assms(1) by (auto simp: kbInv_def)
  from assms(2) elementFind_iff [OF assms(1)] obtain i where i: "elementFind kb d = Some i"
    by (metis not_None_eq)
  with elementFind_iff(2) [OF assms(1)] have il: "i < length ?cs" "e_dhPub (?cs ! i) = d" by auto
  have "buff (insertKey kb d n k) = (map Some ?cs @ replicate (maxSkipChains - length ?cs) None)
      [i := Some ((?cs ! i)\<lparr>e_msgKeys := AList.update n k (e_msgKeys (?cs ! i))\<rparr>)]"
    using i b by (simp add: insertKey_def Let_def elementAt_cached [OF assms(1) il(1)])
  also have "\<dots> = map Some (putKey d n k ?cs) @ replicate (maxSkipChains - length ?cs) None"
    by (simp add: putKey_update [OF dist il] list_update_append il map_update)
  finally show ?thesis
    using kbInv_intro [of "insertKey kb d n k" "putKey d n k ?cs"] dist len by simp
qed

lemma butlast_slots:
  assumes "length cs \<le> Suc m"
  shows "butlast (map Some cs @ replicate (Suc m - length cs) None)
    = map Some (take m cs) @ replicate (m - length (take m cs)) None"
proof (cases "length cs = Suc m")
  case True
  then show ?thesis by (simp add: map_butlast butlast_conv_take take_map)
next
  case False
  with assms have "Suc m - length cs = Suc (m - length cs)" and "length cs \<le> m" by auto
  then show ?thesis by (simp add: replicate_append_same [symmetric] butlast_append)
qed

lemma insertKey_absent:
  assumes "kbInv kb" and "d \<notin> e_dhPub ` set (cached kb)"
  shows "kbInv (insertKey kb d n k) \<and>
    cached (insertKey kb d n k) = take maxSkipChains (\<lparr>e_dhPub = d, e_msgKeys = [(n, k)]\<rparr> # cached kb)"
proof -
  let ?cs = "cached kb" and ?e = "\<lparr>e_dhPub = d, e_msgKeys = [(n, k)]\<rparr>"
  have b: "buff kb = map Some ?cs @ replicate (maxSkipChains - length ?cs) None"
    and dist: "distinct (map e_dhPub ?cs)" and len: "length ?cs \<le> maxSkipChains"
    using assms(1) by (auto simp: kbInv_def)
  have ne: "buff kb \<noteq> []" using b len by (auto simp: maxSkipChains_def)
  have "elementFind kb d = None" using assms elementFind_iff(1) by blast
  then have "buff (insertKey kb d n k) = Some ?e # butlast (buff kb)"
    using ne by (simp add: insertKey_def Let_def elementAdd_def ringPrev_def elementAt_def)
  also have "butlast (buff kb) = map Some (take 7 ?cs) @ replicate (7 - length (take 7 ?cs)) None"
    using butlast_slots [of ?cs 7] len by (subst b) (simp add: maxSkipChains_def)
  finally have "buff (insertKey kb d n k) = map Some (?e # take 7 ?cs)
      @ replicate (maxSkipChains - length (?e # take 7 ?cs)) None"
    by (simp add: maxSkipChains_def)
  moreover have "distinct (map e_dhPub (?e # take 7 ?cs))"
    using dist assms(2) by (auto simp: take_map [symmetric] dest: in_set_takeD)
  ultimately have "kbInv (insertKey kb d n k) \<and> cached (insertKey kb d n k) = ?e # take 7 ?cs"
    by (intro kbInv_intro) (simp_all add: maxSkipChains_def)
  then show ?thesis by (simp add: maxSkipChains_def)
qed

lemma insertKey_inv: "kbInv kb \<Longrightarrow> kbInv (insertKey kb d n k)"
  by (cases "d \<in> e_dhPub ` set (cached kb)") (simp_all add: insertKey_present insertKey_absent)

lemma insertKey_refines:
  "kbInv kb \<Longrightarrow> cached (insertKey kb d n k) = specInsert d n k (cached kb)"
  by (cases "d \<in> e_dhPub ` set (cached kb)")
    (simp_all add: insertKey_present insertKey_absent specInsert_def del: image_iff)

section \<open>The interface the double ratchet relies on\<close>

text \<open>
  A cache of message keys: what was inserted under a public key and number is found again as
  long as only that chain is extended, and nothing is found that was never inserted.
\<close>

locale key_cache =
  fixes inv :: "'b \<Rightarrow> bool"
    and ins :: "'b \<Rightarrow> bytes \<Rightarrow> int \<Rightarrow> bytes \<Rightarrow> 'b"
    and look :: "'b \<Rightarrow> bytes \<Rightarrow> int \<Rightarrow> bytes result"
  assumes inv_ins: "inv b \<Longrightarrow> inv (ins b d n k)"
    and look_ins: "inv b \<Longrightarrow> look (ins b d n k) d n = Inr k"
    and look_keep: "inv b \<Longrightarrow> m \<noteq> n \<Longrightarrow> look b d m = Inr v \<Longrightarrow> look (ins b d n k) d m = Inr v"
    and look_origin: "inv b \<Longrightarrow> look (ins b d n k) d' m = Inr v \<Longrightarrow>
      d' = d \<and> m = n \<and> v = k \<or> look b d' m = Inr v"
begin

lemma inv_all: "inv b \<Longrightarrow> inv (foldl (\<lambda>b (n, k). ins b d n k) b xs)"
  by (induction xs arbitrary: b) (auto simp: inv_ins)

lemma look_all_keep:
  "inv b \<Longrightarrow> m \<notin> fst ` set xs \<Longrightarrow> look b d m = Inr v \<Longrightarrow>
     look (foldl (\<lambda>b (n, k). ins b d n k) b xs) d m = Inr v"
  by (induction xs arbitrary: b) (auto simp: inv_ins look_keep)

lemma look_all:
  "inv b \<Longrightarrow> distinct (map fst xs) \<Longrightarrow> (n, k) \<in> set xs \<Longrightarrow>
     look (foldl (\<lambda>b (n, k). ins b d n k) b xs) d n = Inr k"
proof (induction xs arbitrary: b)
  case Nil
  then show ?case by simp
next
  case (Cons x xs)
  show ?case
  proof (cases "x = (n, k)")
    case True
    with Cons.prems show ?thesis by (simp add: inv_ins look_ins look_all_keep)
  next
    case False
    with Cons show ?thesis by (auto simp: inv_ins split: prod.splits)
  qed
qed

end

lemma specLookup_putKey:
  assumes "d \<in> e_dhPub ` set es"
  shows "specLookup (putKey d n k es) d' m =
    (if d' = d \<and> m = n then Inr k else specLookup es d' m)"
  using assms by (induction es) (auto simp: update_conv split: option.splits)

lemma specLookup_take:
  "specLookup (take j es) d n = Inr v \<Longrightarrow> specLookup es d n = Inr v"
  by (induction es arbitrary: j) (auto simp: take_Cons split: nat.splits if_splits)

interpretation kbuf: key_cache kbInv insertKey find
proof
  fix b d n k assume I: "kbInv b"
  show I': "kbInv (insertKey b d n k)" using I by (rule insertKey_inv)
  show "find (insertKey b d n k) d n = Inr k"
    by (simp add: find_specLookup [OF I'] insertKey_refines [OF I] specInsert_def
        specLookup_putKey maxSkipChains_def)
next
  fix b m n d v k assume I: "kbInv b" and "m \<noteq> n" and v: "find b d m = Inr v"
  have "specLookup (cached b) d m = Inr v" using v find_specLookup [OF I] by simp
  then have "d \<in> e_dhPub ` set (cached b)" using specLookup_absent by fastforce
  with v \<open>m \<noteq> n\<close> show "find (insertKey b d n k) d m = Inr v"
    by (simp add: find_specLookup I insertKey_inv insertKey_refines specInsert_def specLookup_putKey)
next
  fix b d n k d' m v assume I: "kbInv b" and v: "find (insertKey b d n k) d' m = Inr v"
  then have "specLookup (specInsert d n k (cached b)) d' m = Inr v"
    by (simp add: find_specLookup insertKey_inv insertKey_refines)
  then show "d' = d \<and> m = n \<and> v = k \<or> find b d' m = Inr v"
    by (auto simp: find_specLookup [OF I] specInsert_def specLookup_putKey maxSkipChains_def
        split: if_splits dest: specLookup_take)
qed

section \<open>Correctness\<close>

text \<open>A sequence of insertions, on the ring and on the specification.\<close>

definition insertAll :: "keyBuffer \<Rightarrow> (bytes \<times> int \<times> bytes) list \<Rightarrow> keyBuffer" where
  "insertAll kb ops = foldl (\<lambda>kb (d, n, k). insertKey kb d n k) kb ops"

definition specInsertAll :: "keyBufferElement list \<Rightarrow> (bytes \<times> int \<times> bytes) list \<Rightarrow> keyBufferElement list" where
  "specInsertAll cs ops = foldl (\<lambda>cs (d, n, k). specInsert d n k cs) cs ops"

lemma insertAll_refines:
  "kbInv kb \<Longrightarrow> kbInv (insertAll kb ops) \<and> cached (insertAll kb ops) = specInsertAll (cached kb) ops"
  by (induction ops arbitrary: kb)
    (auto simp: insertAll_def specInsertAll_def insertKey_inv insertKey_refines)

text \<open>
  C13: the ring of skipped message keys implements its specification, a list of at most eight chains, newest first: after any sequence of insertions into a new buffer the representation invariant holds, and every lookup, found or not, gives the answer of the specification.
\<close>

theorem keyBuffer_refines:
  "kbInv (insertAll newKeyBuffer ops)
   \<and> find (insertAll newKeyBuffer ops) d n = specLookup (specInsertAll [] ops) d n"
  using insertAll_refines [OF kbInv_new] by (simp add: find_specLookup cached_new)

fun newElement :: "bytes \<times> int \<times> bytes \<Rightarrow> keyBufferElement" where
  "newElement (d, n, k) = \<lparr>e_dhPub = d, e_msgKeys = [(n, k)]\<rparr>"

lemma e_dhPub_newElement [simp]: "e_dhPub (newElement x) = fst x"
  by (cases x) simp

lemma take_Cons_take: "take m (x # take m xs) = take m (x # xs)"
  by (cases m) (simp_all add: min_def)

lemma not_in_take: "d \<notin> f ` set xs \<Longrightarrow> d \<notin> f ` set (take m xs)"
  by (meson image_mono set_take_subset subsetD)

lemma specInsertAll_snoc:
  "specInsertAll cs (ops @ [(d, n, k)]) = specInsert d n k (specInsertAll cs ops)"
  by (simp add: specInsertAll_def)

lemma specInsertAll_new:
  assumes "distinct (map fst ops)" and "fst ` set ops \<inter> e_dhPub ` set cs = {}"
    and "length cs \<le> maxSkipChains"
  shows "specInsertAll cs ops = take maxSkipChains
    (rev (map newElement ops) @ cs)"
  using assms
proof (induction ops rule: rev_induct)
  case Nil
  then show ?case by (simp add: specInsertAll_def)
next
  case (snoc x ops)
  obtain d n k where x: "x = (d, n, k)" by (cases x)
  let ?es = "rev (map newElement ops) @ cs"
  have "d \<notin> e_dhPub ` set ?es" using snoc.prems x by (force split: prod.splits)
  then have "d \<notin> e_dhPub ` set (take maxSkipChains ?es)" by (rule not_in_take)
  moreover have "specInsertAll cs ops = take maxSkipChains ?es"
    by (rule snoc.IH) (use snoc.prems in auto)
  ultimately have "specInsertAll cs (ops @ [x]) =
      take maxSkipChains (\<lparr>e_dhPub = d, e_msgKeys = [(n, k)]\<rparr> # take maxSkipChains ?es)"
    using x by (simp only: specInsertAll_snoc specInsert_def if_False)
  then show ?case by (simp only: take_Cons_take) (simp add: x)
qed

text \<open>
  The buffer keeps exactly eight chains: a key inserted for a new chain is found as long as fewer than eight other new chains followed, and is gone (not cached) from the eighth on.
\<close>

theorem keyBuffer_eviction:
  assumes "kbInv kb" and "distinct (d # map fst ops)"
    and "(insert d (fst ` set ops)) \<inter> e_dhPub ` set (cached kb) = {}"
  shows "find (insertAll kb ((d, n, k) # ops)) d n =
    (if length ops < maxSkipChains then Inr k else Inl ErrKeyNotCached)"
proof -
  let ?new = "rev (map newElement ops)"
  let ?e = "\<lparr>e_dhPub = d, e_msgKeys = [(n, k)]\<rparr>"
  have "length (cached kb) \<le> maxSkipChains" using assms(1) by (simp add: kbInv_def)
  with assms have "cached (insertAll kb ((d, n, k) # ops)) = take maxSkipChains (?new @ ?e # cached kb)"
    using insertAll_refines [OF assms(1), of "(d, n, k) # ops"]
      specInsertAll_new [of "(d, n, k) # ops" "cached kb"] by simp
  then have f: "find (insertAll kb ((d, n, k) # ops)) d n =
      specLookup (take maxSkipChains (?new @ ?e # cached kb)) d n"
    using insertAll_refines [OF assms(1)] by (simp add: find_specLookup)
  have new: "d \<notin> e_dhPub ` set ?new" using assms(2) by (force split: prod.splits)
  show ?thesis
  proof (cases "length ops < maxSkipChains")
    case True
    then have "maxSkipChains - length ops = Suc (maxSkipChains - length ops - 1)" by simp
    then have "take maxSkipChains (?new @ ?e # cached kb) =
        ?new @ ?e # take (maxSkipChains - length ops - 1) (cached kb)"
      using True by (simp add: take_Cons')
    moreover have "specLookup (?new @ ?e # cs) d n = Inr k" for cs
      using new by (induction ops rule: rev_induct) auto
    ultimately show ?thesis using True f by simp
  next
    case False
    then have "take maxSkipChains (?new @ ?e # cached kb) = take maxSkipChains ?new" by simp
    then have "d \<notin> e_dhPub ` set (take maxSkipChains (?new @ ?e # cached kb))"
      using not_in_take [OF new] by simp
    then show ?thesis using False f specLookup_absent by simp
  qed
qed

theorem keyBuffer_eviction_witness:
  "find (insertAll newKeyBuffer (([9], 4, [1]) # [([1], 0, []), ([2], 0, [])])) [9] 4 =
     (if length [([1], 0, []), ([2], 0, []) :: bytes \<times> int \<times> bytes] < maxSkipChains then Inr [1] else Inl ErrKeyNotCached)"
  by (rule keyBuffer_eviction) (simp_all add: kbInv_new cached_new)

end
