(* ===== verification/MsgHeader.thy ===== *)
theory MsgHeader
  imports Prelude
begin

text \<open>
  The unencrypted message header (\<open>src/doubleratchet/msg_header.go\<close>): 32 bytes of public key
  and two big-endian 16-bit numbers.
\<close>

section \<open>Data and operations\<close>

record header =
  h_dhPub :: bytes
  h_prevNo :: int
  h_msgNo :: int

definition headerLen :: nat where
  "headerLen = 32 + 2 + 2"

text \<open>\<open>byte(i >> 8)\<close> and \<open>byte(i)\<close>: conversion to a byte keeps the low 8 bits.\<close>

definition uint16Bytes :: "int \<Rightarrow> bytes" where
  "uint16Bytes i = [word_of_int (i div 2 ^ 8), word_of_int i]"

definition marshal :: "header \<Rightarrow> bytes result" where
  "marshal h =
     (if h_prevNo h \<ge> 2 ^ 16 \<or> h_msgNo h \<ge> 2 ^ 16 then Inl ErrHeaderNumbers
      else Inr (goCopy 32 (h_dhPub h) @ uint16Bytes (h_prevNo h) @ uint16Bytes (h_msgNo h)))"

text \<open>\<open>int(hi)<<8 | int(lo)\<close>; the two bytes do not overlap.\<close>

definition bytesUint16 :: "byte \<Rightarrow> byte \<Rightarrow> int" where
  "bytesUint16 hi lo = or (push_bit 8 (uint hi)) (uint lo)"

definition parseHeader :: "bytes \<Rightarrow> header result" where
  "parseHeader data =
     (if length data < headerLen then Inl ErrHeaderLen
      else case goSlice data 0 32 of Inl e \<Rightarrow> Inl e
      | Inr dhPub \<Rightarrow> (case goIndex data 32 of Inl e \<Rightarrow> Inl e
      | Inr b32 \<Rightarrow> (case goIndex data 33 of Inl e \<Rightarrow> Inl e
      | Inr b33 \<Rightarrow> (case goIndex data 34 of Inl e \<Rightarrow> Inl e
      | Inr b34 \<Rightarrow> (case goIndex data 35 of Inl e \<Rightarrow> Inl e
      | Inr b35 \<Rightarrow> Inr \<lparr>h_dhPub = goCopy 32 dhPub, h_prevNo = bytesUint16 b32 b33,
          h_msgNo = bytesUint16 b34 b35\<rparr>)))))"

section \<open>Lemmas\<close>

text \<open>After the check of the length every access is in range.\<close>

lemma parseHeader_eq:
  "parseHeader data =
     (if length data < headerLen then Inl ErrHeaderLen
      else Inr \<lparr>h_dhPub = goCopy 32 (take 32 data),
                h_prevNo = bytesUint16 (data ! 32) (data ! 33),
                h_msgNo = bytesUint16 (data ! 34) (data ! 35)\<rparr>)"
  by (simp add: parseHeader_def headerLen_def slice_take)

lemma bytesUint16_eq: "bytesUint16 hi lo = uint hi * 256 + uint lo"
proof -
  have "uint lo < 2 ^ 8" using uint_lt2p [of lo] by simp
  then have "8 \<le> n \<Longrightarrow> \<not> bit (uint lo) n" for n
    by (metis bit_take_bit_iff not_le take_bit_int_eq_self uint_nonnegative)
  then have "and (push_bit 8 (uint hi)) (uint lo) = 0"
    by (intro bit_eqI) (simp add: bit_and_iff bit_push_bit_iff_int)
  then have "or (push_bit 8 (uint hi)) (uint lo) = push_bit 8 (uint hi) + uint lo"
    using plus_and_or [of "push_bit 8 (uint hi)" "uint lo"] by simp
  then show ?thesis by (simp add: bytesUint16_def push_bit_eq_mult)
qed

lemma bytesUint16_range: "0 \<le> bytesUint16 hi lo \<and> bytesUint16 hi lo < 2 ^ 16"
  using uint_lt2p [of hi] uint_lt2p [of lo] by (simp add: bytesUint16_eq)

lemma uint_word_of_int_byte: "uint (word_of_int i :: byte) = i mod 256"
  by (simp add: uint_word_of_int)

lemma bytesUint16_uint16Bytes:
  assumes "0 \<le> i" and "i < 2 ^ 16"
  shows "bytesUint16 (uint16Bytes i ! 0) (uint16Bytes i ! 1) = i"
proof -
  have "i div 256 < 256" and "0 \<le> i div 256" using assms by simp_all
  then have "i div 256 mod 256 * 256 + i mod 256 = i" by simp
  then show ?thesis
    by (simp add: uint16Bytes_def bytesUint16_eq uint_word_of_int_byte)
qed

lemma uint16Bytes_bytesUint16: "uint16Bytes (bytesUint16 hi lo) = [hi, lo]"
proof -
  have lo: "0 \<le> uint lo" "uint lo < 256" using uint_lt2p [of lo] by simp_all
  then have "(uint hi * 256 + uint lo) div 256 = uint hi" by simp
  moreover have "word_of_int (uint hi * 256 + uint lo) = lo"
  proof (rule word_uint_eqI)
    have "(uint hi * 256 + uint lo) mod 256 = uint lo" using lo by simp
    then show "uint (word_of_int (uint hi * 256 + uint lo) :: byte) = uint lo"
      by (simp only: uint_word_of_int_byte)
  qed
  ultimately show ?thesis by (simp add: uint16Bytes_def bytesUint16_eq)
qed

lemma length_uint16Bytes [simp]: "length (uint16Bytes i) = 2"
  by (simp add: uint16Bytes_def)

definition headerValid :: "header \<Rightarrow> bool" where
  "headerValid h \<longleftrightarrow> length (h_dhPub h) = 32
     \<and> 0 \<le> h_prevNo h \<and> h_prevNo h < 2 ^ 16 \<and> 0 \<le> h_msgNo h \<and> h_msgNo h < 2 ^ 16"

lemma marshal_ok:
  assumes "headerValid h"
  shows "marshal h =
    Inr (h_dhPub h @ uint16Bytes (h_prevNo h) @ uint16Bytes (h_msgNo h))"
  using assms by (simp add: marshal_def headerValid_def)

lemma length_marshal: "marshal h = Inr b \<Longrightarrow> length b = headerLen"
  by (auto simp: marshal_def headerLen_def split: if_splits)

lemma parseHeader_append:
  assumes "headerValid h" and "marshal h = Inr b"
  shows "parseHeader (b @ rest) = Inr h"
proof -
  have b: "b = h_dhPub h @ uint16Bytes (h_prevNo h) @ uint16Bytes (h_msgNo h)"
    using assms marshal_ok by simp
  have l: "length (h_dhPub h) = 32" using assms(1) by (simp add: headerValid_def)
  have "(b @ rest) ! 32 = uint16Bytes (h_prevNo h) ! 0"
    "(b @ rest) ! 33 = uint16Bytes (h_prevNo h) ! 1"
    "(b @ rest) ! 34 = uint16Bytes (h_msgNo h) ! 0"
    "(b @ rest) ! 35 = uint16Bytes (h_msgNo h) ! 1"
    using l by (auto simp: b nth_append)
  then show ?thesis
    using assms(1) l
    by (simp add: parseHeader_eq headerLen_def headerValid_def bytesUint16_uint16Bytes
        del: One_nat_def) (simp add: b)
qed

lemma parseHeader_total: "headerLen \<le> length b \<Longrightarrow> \<exists>h. parseHeader b = Inr h"
  by (simp add: parseHeader_eq)

lemma parseHeader_valid: "parseHeader b = Inr h \<Longrightarrow> headerValid h"
  using bytesUint16_range
  by (auto simp: parseHeader_eq headerValid_def headerLen_def split: if_splits)

lemma list36_split:
  assumes "length b = 36"
  shows "b = take 32 b @ [b ! 32, b ! 33] @ [b ! 34, b ! 35]"
proof (rule nth_equalityI)
  show "length b = length (take 32 b @ [b ! 32, b ! 33] @ [b ! 34, b ! 35])"
    using assms by simp
next
  fix i assume "i < length b"
  with assms have "i < 32 \<or> i = 32 \<or> i = 33 \<or> i = 34 \<or> i = 35" by arith
  then show "b ! i = (take 32 b @ [b ! 32, b ! 33] @ [b ! 34, b ! 35]) ! i"
    using assms by (auto simp: nth_append)
qed

lemma marshal_parseHeader:
  assumes "length b = headerLen" and "parseHeader b = Inr h"
  shows "marshal h = Inr b"
proof -
  have v: "headerValid h" using assms(2) by (rule parseHeader_valid)
  have "marshal h = Inr (take 32 b @ [b ! 32, b ! 33] @ [b ! 34, b ! 35])"
    using assms marshal_ok [OF v]
    by (auto simp: parseHeader_eq headerLen_def uint16Bytes_bytesUint16)
  also have "take 32 b @ [b ! 32, b ! 33] @ [b ! 34, b ! 35] = b"
    using list36_split [of b, symmetric] assms(1) by (simp add: headerLen_def)
  finally show ?thesis .
qed

text \<open>
  The header codec reads exactly the header: the decoder of the interface is \<open>parseHeader\<close> on
  the slice \<open>ciphertext[:headerLen]\<close> that \<open>Decrypt\<close> hands to it.
\<close>

definition parseExact :: "bytes \<Rightarrow> header result" where
  "parseExact b = (if length b = headerLen then parseHeader b else Inl ErrHeaderLen)"

interpretation hdr: canonical_codec headerValid marshal parseExact
proof
  fix h assume v: "headerValid h"
  then obtain b where b: "marshal h = Inr b" using marshal_ok by blast
  with v have "parseExact b = Inr h"
    using parseHeader_append [OF v b, of "[]"] length_marshal by (simp add: parseExact_def)
  with b show "\<exists>b. marshal h = Inr b \<and> parseExact b = Inr h" by blast
next
  fix b h assume "parseExact b = Inr h"
  then show "marshal h = Inr b"
    by (auto simp: parseExact_def marshal_parseHeader split: if_splits)
next
  fix b h assume "parseExact b = Inr h"
  then show "headerValid h"
    by (auto simp: parseExact_def parseHeader_valid split: if_splits)
qed

section \<open>Correctness\<close>

text \<open>
  A 36-byte string parses as a header exactly if it is the marshalled form of that header and the header is valid (a 32-byte key and two numbers that fit 16 bits); so marshalling and parsing are inverse bijections.
\<close>

theorem header_bijection:
  assumes "length b = headerLen"
  shows "parseHeader b = Inr h \<longleftrightarrow> headerValid h \<and> marshal h = Inr b"
  using hdr.dec_iff [of b h] assms by (simp add: parseExact_def)

theorem header_bijection_witness:
  "length (replicate 32 7 @ [0, 1, 1, 2] :: bytes) = headerLen
   \<and> (parseHeader (replicate 32 7 @ [0, 1, 1, 2]) = Inr \<lparr>h_dhPub = replicate 32 7, h_prevNo = 1, h_msgNo = 258\<rparr>
    \<longleftrightarrow> headerValid \<lparr>h_dhPub = replicate 32 7, h_prevNo = 1, h_msgNo = 258\<rparr>
      \<and> marshal \<lparr>h_dhPub = replicate 32 7, h_prevNo = 1, h_msgNo = 258\<rparr> = Inr (replicate 32 7 @ [0, 1, 1, 2]))"
proof -
  have l: "length (replicate 32 7 @ [0, 1, 1, 2] :: bytes) = headerLen" by (simp add: headerLen_def)
  with header_bijection [OF l] show ?thesis by blast
qed

end
