(* ===== verification/DoubleRatchet.thy ===== *)
theory DoubleRatchet
  imports DhRatchet KeyBuff MsgHeader
begin

text \<open>
  The double ratchet (\<open>src/doubleratchet/doubleratchet.go\<close>): encryption, decryption, the skipping
  of message keys and the Diffie-Hellman steps between chains. Every operation returns the state
  it leaves behind on every path, errors included, because the code mutates the ratchet before
  it knows whether a message is genuine.
\<close>

section \<open>Data and operations\<close>

record doubleRatchet =
  dr_associatedData :: bytes
  dr_dhr :: dhRatchet
  dr_peerDhPub :: bytes
  dr_chainKeySend :: "bytes option"
  dr_chainKeyRecv :: "bytes option"
  dr_sendNo :: int
  dr_recvNo :: int
  dr_prevSendNo :: int
  dr_msgKeyBuffer :: keyBuffer

definition CreateActive :: "prims \<Rightarrow> entropy \<Rightarrow> bytes \<Rightarrow> bytes \<Rightarrow> bytes \<Rightarrow> doubleRatchet result" where
  "CreateActive P rnd sessKey associatedData peerDhPub =
     (case dhRatchetActive P rnd sessKey peerDhPub of
        (dhr, Some e) \<Rightarrow> Inl e
      | (dhr, None) \<Rightarrow> Inr \<lparr>dr_associatedData = associatedData, dr_dhr = dhr,
          dr_peerDhPub = peerDhPub, dr_chainKeySend = None, dr_chainKeyRecv = None,
          dr_sendNo = 0, dr_recvNo = 0, dr_prevSendNo = 0, dr_msgKeyBuffer = newKeyBuffer\<rparr>)"

definition CreatePassive :: "bytes \<Rightarrow> bytes \<Rightarrow> bytes \<Rightarrow> bytes \<Rightarrow> doubleRatchet" where
  "CreatePassive sessKey associatedData dhPub dhPriv =
     \<lparr>dr_associatedData = associatedData, dr_dhr = dhRatchetPassive sessKey dhPub dhPriv,
      dr_peerDhPub = [], dr_chainKeySend = None, dr_chainKeyRecv = None,
      dr_sendNo = 0, dr_recvNo = 0, dr_prevSendNo = 0, dr_msgKeyBuffer = newKeyBuffer\<rparr>"

definition dhStep :: "prims \<Rightarrow> entropy \<Rightarrow> doubleRatchet \<Rightarrow> doubleRatchet \<times> err option" where
  "dhStep P rnd dr =
     (let dr = dr\<lparr>dr_prevSendNo := dr_sendNo dr, dr_sendNo := 0, dr_recvNo := 0\<rparr>;
          (dhr, (_, sendKey, recvKey, err)) = step P rnd (dr_dhr dr) (dr_peerDhPub dr)
      in (dr\<lparr>dr_dhr := dhr, dr_chainKeySend := sendKey, dr_chainKeyRecv := recvKey\<rparr>, err))"

definition Encrypt :: "prims \<Rightarrow> entropy \<Rightarrow> doubleRatchet \<Rightarrow> bytes \<Rightarrow> doubleRatchet \<times> bytes result" where
  "Encrypt P rnd dr plaintext =
     (let (dr, err) = (if dr_chainKeySend dr = None then dhStep P rnd dr else (dr, None)) in
      case err of Some e \<Rightarrow> (dr, Inl e)
      | None \<Rightarrow> (case chainKdf P (deref (dr_chainKeySend dr)) of
          Inl e \<Rightarrow> (dr\<lparr>dr_chainKeySend := None\<rparr>, Inl e)
        | Inr (ck, msgKey) \<Rightarrow>
          (let h = \<lparr>h_dhPub = r_dhPub (dr_dhr dr), h_prevNo = dr_prevSendNo dr, h_msgNo = dr_sendNo dr\<rparr>;
               dr = dr\<lparr>dr_chainKeySend := Some ck, dr_sendNo := dr_sendNo dr + 1\<rparr>
           in case marshal h of Inl e \<Rightarrow> (dr, Inl e)
              | Inr hData \<Rightarrow> (case encrypt P msgKey plaintext (dr_associatedData dr) of
                  Inl e \<Rightarrow> (dr, Inl e)
                | Inr ciphertext \<Rightarrow> (dr, Inr (hData @ ciphertext))))))"

text \<open>The loop of \<open>skipMsgKeys\<close>.\<close>

function skipLoop :: "prims \<Rightarrow> doubleRatchet \<Rightarrow> int \<Rightarrow> doubleRatchet \<times> err option" where
  "skipLoop P dr until =
     (if dr_recvNo dr < until
      then case chainKdf P (deref (dr_chainKeyRecv dr)) of
          Inl e \<Rightarrow> (dr\<lparr>dr_chainKeyRecv := None\<rparr>, Some e)
        | Inr (ck, msgKey) \<Rightarrow>
            skipLoop P (dr\<lparr>dr_chainKeyRecv := Some ck,
              dr_msgKeyBuffer := insertKey (dr_msgKeyBuffer dr) (dr_peerDhPub dr) (dr_recvNo dr) msgKey,
              dr_recvNo := dr_recvNo dr + 1\<rparr>) until
      else (dr, None))"
  by pat_completeness auto
termination
  by (relation "measure (\<lambda>(P, dr, until). nat (until - dr_recvNo dr))") auto

declare skipLoop.simps [simp del]

definition skipMsgKeys :: "prims \<Rightarrow> doubleRatchet \<Rightarrow> int \<Rightarrow> doubleRatchet \<times> err option" where
  "skipMsgKeys P dr until =
     (if dr_recvNo dr + maxSkipElements < until
      then (dr, Some (ErrSkip until (dr_recvNo dr + maxSkipElements)))
      else if dr_chainKeyRecv dr = None then (dr, None)
      else skipLoop P dr until)"

text \<open>The first part of \<open>Decrypt\<close>: a header with another public key starts a new chain.\<close>

definition decryptRatchet :: "prims \<Rightarrow> entropy \<Rightarrow> doubleRatchet \<Rightarrow> header \<Rightarrow> doubleRatchet \<times> err option" where
  "decryptRatchet P rnd dr h =
     (if constantTimeCompare (h_dhPub h) (dr_peerDhPub dr) \<noteq> 1
      then case skipMsgKeys P dr (h_prevNo h) of
          (dr, Some e) \<Rightarrow> (dr, Some e)
        | (dr, None) \<Rightarrow> dhStep P rnd (dr\<lparr>dr_peerDhPub := h_dhPub h\<rparr>)
      else (dr, None))"

text \<open>The last case of the \<open>switch\<close>, which the case of a later message falls through to.\<close>

definition nextMsgKey :: "prims \<Rightarrow> doubleRatchet \<Rightarrow> doubleRatchet \<times> bytes result" where
  "nextMsgKey P dr =
     (case chainKdf P (deref (dr_chainKeyRecv dr)) of
        Inl e \<Rightarrow> (dr\<lparr>dr_chainKeyRecv := None\<rparr>, Inl e)
      | Inr (ck, msgKey) \<Rightarrow>
          (dr\<lparr>dr_chainKeyRecv := Some ck, dr_recvNo := dr_recvNo dr + 1\<rparr>, Inr msgKey))"

definition decryptMsgKey :: "prims \<Rightarrow> doubleRatchet \<Rightarrow> header \<Rightarrow> doubleRatchet \<times> bytes result" where
  "decryptMsgKey P dr h =
     (if h_msgNo h < dr_recvNo dr
      then (dr, find (dr_msgKeyBuffer dr) (h_dhPub h) (h_msgNo h))
      else if h_msgNo h > dr_recvNo dr
      then (case skipMsgKeys P dr (h_msgNo h) of
          (dr, Some e) \<Rightarrow> (dr, Inl e)
        | (dr, None) \<Rightarrow> nextMsgKey P dr)
      else nextMsgKey P dr)"

definition Decrypt :: "prims \<Rightarrow> entropy \<Rightarrow> doubleRatchet \<Rightarrow> bytes \<Rightarrow> doubleRatchet \<times> bytes result" where
  "Decrypt P rnd dr ciphertext =
     (if length ciphertext \<le> headerLen then (dr, Inl ErrCipherShort)
      else case goSlice ciphertext 0 (int headerLen) of Inl e \<Rightarrow> (dr, Inl e)
      | Inr hData \<Rightarrow> (case parseHeader hData of Inl e \<Rightarrow> (dr, Inl e)
      | Inr h \<Rightarrow> (case decryptRatchet P rnd dr h of
          (dr, Some e) \<Rightarrow> (dr, Inl e)
        | (dr, None) \<Rightarrow> (case decryptMsgKey P dr h of
            (dr, Inl e) \<Rightarrow> (dr, Inl e)
          | (dr, Inr msgKey) \<Rightarrow>
              (dr, case goSlice ciphertext (int headerLen) (int (length ciphertext)) of Inl e \<Rightarrow> Inl e
                   | Inr body \<Rightarrow> decrypt P msgKey body (dr_associatedData dr))))))"

text \<open>Both slices are in range: the ciphertext is longer than a header.\<close>

lemma Decrypt_eq:
  "Decrypt P rnd dr ciphertext =
     (if length ciphertext \<le> headerLen then (dr, Inl ErrCipherShort)
      else case parseHeader (take headerLen ciphertext) of Inl e \<Rightarrow> (dr, Inl e)
      | Inr h \<Rightarrow> (case decryptRatchet P rnd dr h of
          (dr, Some e) \<Rightarrow> (dr, Inl e)
        | (dr, None) \<Rightarrow> (case decryptMsgKey P dr h of
            (dr, Inl e) \<Rightarrow> (dr, Inl e)
          | (dr, Inr msgKey) \<Rightarrow>
              (dr, decrypt P msgKey (drop headerLen ciphertext) (dr_associatedData dr)))))"
  by (auto simp: Decrypt_def slice_take slice_drop_all split: sum.split prod.split option.split)

section \<open>Chains\<close>

text \<open>The \<open>n\<close>-th chain key and message key of the chain that starts with \<open>c\<close>.\<close>

fun ckAt :: "prims \<Rightarrow> bytes \<Rightarrow> nat \<Rightarrow> bytes" where
  "ckAt P c 0 = c"
| "ckAt P c (Suc n) = hmac_sha256 P (ckAt P c n) [0]"

definition mkAt :: "prims \<Rightarrow> bytes \<Rightarrow> nat \<Rightarrow> bytes" where
  "mkAt P c n = hmac_sha256 P (ckAt P c n) [1]"

lemma ckAt_length: "hmacLaw P \<Longrightarrow> length c = 32 \<Longrightarrow> length (ckAt P c n) = 32"
  by (cases n) (simp_all add: hmac_length)

lemma mkAt_length: "hmacLaw P \<Longrightarrow> length (mkAt P c n) = 32"
  by (simp add: mkAt_def hmac_length)

lemma chainKdf_ckAt:
  assumes "hmacLaw P" and "length c = 32" and "0 \<le> i"
  shows "chainKdf P (ckAt P c (nat i)) = Inr (ckAt P c (nat (i + 1)), mkAt P c (nat i))"
proof -
  have "nat (i + 1) = Suc (nat i)" using assms(3) by simp
  then show ?thesis using ckAt_length [OF assms(1,2)] by (simp add: chainKdf_ok mkAt_def)
qed

text \<open>Message \<open>n\<close> of a chain on the wire.\<close>

definition wire :: "prims \<Rightarrow> bytes \<Rightarrow> bytes \<Rightarrow> header \<Rightarrow> bytes \<Rightarrow> bytes \<Rightarrow> bool" where
  "wire P c ad h pt msg \<longleftrightarrow> headerValid h \<and>
     (\<exists>hData ct. marshal h = Inr hData \<and> encrypt P (mkAt P c (nat (h_msgNo h))) pt ad = Inr ct
        \<and> msg = hData @ ct)"

text \<open>The sending and the receiving end of a chain.\<close>

definition sends :: "prims \<Rightarrow> bytes \<Rightarrow> doubleRatchet \<Rightarrow> bool" where
  "sends P c dr \<longleftrightarrow> length c = 32 \<and> 0 \<le> dr_sendNo dr
     \<and> dr_chainKeySend dr = Some (ckAt P c (nat (dr_sendNo dr)))"

text \<open>\<open>S\<close> is the set of message numbers that were skipped and can still be decrypted.\<close>

definition receives :: "prims \<Rightarrow> bytes \<Rightarrow> int set \<Rightarrow> doubleRatchet \<Rightarrow> bool" where
  "receives P c S dr \<longleftrightarrow> length c = 32 \<and> 0 \<le> dr_recvNo dr
     \<and> dr_chainKeyRecv dr = Some (ckAt P c (nat (dr_recvNo dr)))
     \<and> kbInv (dr_msgKeyBuffer dr)
     \<and> (\<forall>i \<in> S. 0 \<le> i \<and> i < dr_recvNo dr
          \<and> find (dr_msgKeyBuffer dr) (dr_peerDhPub dr) i = Inr (mkAt P c (nat i)))"

definition sendHeader :: "doubleRatchet \<Rightarrow> header" where
  "sendHeader dr = \<lparr>h_dhPub = r_dhPub (dr_dhr dr), h_prevNo = dr_prevSendNo dr, h_msgNo = dr_sendNo dr\<rparr>"

lemma Encrypt_sends:
  assumes "aesLaw P" and "hmacLaw P" and "sends P c dr" and "headerValid (sendHeader dr)"
  obtains msg where
    "Encrypt P rnd dr pt = (dr\<lparr>dr_chainKeySend := Some (ckAt P c (nat (dr_sendNo dr + 1))),
        dr_sendNo := dr_sendNo dr + 1\<rparr>, Inr msg)"
    and "wire P c (dr_associatedData dr) (sendHeader dr) pt msg"
proof -
  let ?h = "sendHeader dr" and ?mk = "mkAt P c (nat (dr_sendNo dr))"
  obtain hData where h: "marshal ?h = Inr hData" using marshal_ok [OF assms(4)] by blast
  have "length ?mk = 32" using assms(2) by (rule mkAt_length)
  with assms(1,2) obtain ct where ct: "encrypt P ?mk pt (dr_associatedData dr) = Inr ct"
    by (rule decrypt_encrypt)
  have "chainKdf P (deref (dr_chainKeySend dr)) = Inr (ckAt P c (nat (dr_sendNo dr + 1)), ?mk)"
    using assms(2,3) chainKdf_ckAt by (simp add: sends_def)
  then have "Encrypt P rnd dr pt = (dr\<lparr>dr_chainKeySend := Some (ckAt P c (nat (dr_sendNo dr + 1))),
        dr_sendNo := dr_sendNo dr + 1\<rparr>, Inr (hData @ ct))"
    using h ct assms(3) by (simp add: Encrypt_def sends_def sendHeader_def [symmetric])
  moreover have "wire P c (dr_associatedData dr) ?h pt (hData @ ct)"
    using assms(4) h ct by (auto simp: wire_def sendHeader_def)
  ultimately show thesis by (rule that)
qed

section \<open>Skipping\<close>

lemma skipLoop_stop: "until \<le> dr_recvNo dr \<Longrightarrow> skipLoop P dr until = (dr, None)"
  by (simp add: skipLoop.simps)

text \<open>The keys that skipping from \<open>i\<close> to \<open>j\<close> caches.\<close>

definition skippedKeys :: "prims \<Rightarrow> bytes \<Rightarrow> int \<Rightarrow> int \<Rightarrow> (int \<times> bytes) list" where
  "skippedKeys P c i j = map (\<lambda>m. (m, mkAt P c (nat m))) [i..j - 1]"

lemma skippedKeys_Cons:
  "i < j \<Longrightarrow> skippedKeys P c i j = (i, mkAt P c (nat i)) # skippedKeys P c (i + 1) j"
  by (simp add: skippedKeys_def upto_rec1)

lemma skipLoop_eq:
  assumes "hmacLaw P" and "length c = 32" and "0 \<le> dr_recvNo dr" and "dr_recvNo dr \<le> until"
    and "dr_chainKeyRecv dr = Some (ckAt P c (nat (dr_recvNo dr)))"
  shows "skipLoop P dr until = (dr\<lparr>dr_chainKeyRecv := Some (ckAt P c (nat until)),
      dr_msgKeyBuffer := foldl (\<lambda>b (n, k). insertKey b (dr_peerDhPub dr) n k) (dr_msgKeyBuffer dr)
        (skippedKeys P c (dr_recvNo dr) until),
      dr_recvNo := until\<rparr>, None)"
  using assms(1,3-5)
proof (induction P dr until rule: skipLoop.induct)
  case (1 P dr until)
  show ?case
  proof (cases "dr_recvNo dr < until")
    case False
    with "1.prems" have "until = dr_recvNo dr" by simp
    with "1.prems"(4) show ?thesis by (simp add: skipLoop_stop skippedKeys_def)
  next
    case True
    let ?n = "dr_recvNo dr" and ?p = "dr_peerDhPub dr"
    let ?ck = "ckAt P c (nat (?n + 1))" and ?mk = "mkAt P c (nat ?n)"
    let ?dr = "dr\<lparr>dr_chainKeyRecv := Some ?ck,
      dr_msgKeyBuffer := insertKey (dr_msgKeyBuffer dr) ?p ?n ?mk, dr_recvNo := ?n + 1\<rparr>"
    have k: "chainKdf P (deref (dr_chainKeyRecv dr)) = Inr (?ck, ?mk)"
      using "1.prems" assms(2) by (simp add: chainKdf_ckAt)
    then have "skipLoop P dr until = skipLoop P ?dr until"
      using True by (subst skipLoop.simps) simp
    also have "\<dots> = (?dr\<lparr>dr_chainKeyRecv := Some (ckAt P c (nat until)),
      dr_msgKeyBuffer := foldl (\<lambda>b (n, k). insertKey b ?p n k) (dr_msgKeyBuffer ?dr)
        (skippedKeys P c (?n + 1) until), dr_recvNo := until\<rparr>, None)"
      using "1.IH" [OF True k refl] "1.prems" True by simp
    finally show ?thesis
      using skippedKeys_Cons [OF True, of P c] by simp
  qed
qed

text \<open>Skipping inside a chain succeeds within the window and caches every key in between.\<close>

lemma skipMsgKeys_receives:
  assumes "hmacLaw P" and "receives P c S dr"
    and "dr_recvNo dr \<le> until" and "until \<le> dr_recvNo dr + maxSkipElements"
  obtains kb where
    "skipMsgKeys P dr until = (dr\<lparr>dr_chainKeyRecv := Some (ckAt P c (nat until)),
        dr_msgKeyBuffer := kb, dr_recvNo := until\<rparr>, None)"
    and "receives P c (S \<union> {dr_recvNo dr..<until}) (dr\<lparr>dr_chainKeyRecv := Some (ckAt P c (nat until)),
        dr_msgKeyBuffer := kb, dr_recvNo := until\<rparr>)"
proof -
  let ?n = "dr_recvNo dr" and ?ks = "skippedKeys P c (dr_recvNo dr) until"
  let ?kb = "foldl (\<lambda>b (n, k). insertKey b (dr_peerDhPub dr) n k) (dr_msgKeyBuffer dr) ?ks"
  have r: "length c = 32" "0 \<le> ?n" "dr_chainKeyRecv dr = Some (ckAt P c (nat ?n))"
    "kbInv (dr_msgKeyBuffer dr)" using assms(2) by (auto simp: receives_def)
  have keys: "fst ` set ?ks = {?n..<until}" "distinct (map fst ?ks)"
    by (force simp: skippedKeys_def) (simp add: skippedKeys_def comp_def)
  have old: "find ?kb (dr_peerDhPub dr) i = Inr (mkAt P c (nat i))" if "i \<in> S" for i
  proof -
    from that assms(2) have "i < ?n" "find (dr_msgKeyBuffer dr) (dr_peerDhPub dr) i = Inr (mkAt P c (nat i))"
      by (auto simp: receives_def)
    then show ?thesis using kbuf.look_all_keep [OF r(4)] keys(1) by auto
  qed
  have new: "find ?kb (dr_peerDhPub dr) i = Inr (mkAt P c (nat i))" if "?n \<le> i" "i < until" for i
    by (rule kbuf.look_all [OF r(4) keys(2)]) (use that in \<open>auto simp: skippedKeys_def\<close>)
  have "skipMsgKeys P dr until = (dr\<lparr>dr_chainKeyRecv := Some (ckAt P c (nat until)),
      dr_msgKeyBuffer := ?kb, dr_recvNo := until\<rparr>, None)"
    using skipLoop_eq [OF assms(1) r(1,2) assms(3) r(3)] r(3) assms(4)
    by (simp add: skipMsgKeys_def)
  moreover have "receives P c (S \<union> {?n..<until}) (dr\<lparr>dr_chainKeyRecv := Some (ckAt P c (nat until)),
      dr_msgKeyBuffer := ?kb, dr_recvNo := until\<rparr>)"
    using assms(2,3) r kbuf.inv_all [OF r(4)] old new by (fastforce simp: receives_def)
  ultimately show thesis by (rule that)
qed

section \<open>Delivery inside a chain\<close>

lemma wire_parse:
  assumes "aesLaw P" and "hmacLaw P" and "wire P c ad h pt msg"
  shows "headerLen < length msg" and "parseHeader (take headerLen msg) = Inr h"
    and "decrypt P (mkAt P c (nat (h_msgNo h))) (drop headerLen msg) ad = Inr pt"
proof -
  let ?mk = "mkAt P c (nat (h_msgNo h))"
  obtain hData ct where m: "marshal h = Inr hData" "encrypt P ?mk pt ad = Inr ct" "msg = hData @ ct"
    and v: "headerValid h" using assms(3) by (auto simp: wire_def)
  have l: "length hData = headerLen" using m(1) by (rule length_marshal)
  have "length ?mk = 32" using assms(2) by (rule mkAt_length)
  with assms(1,2) obtain ct' where e: "encrypt P ?mk pt ad = Inr ct'"
    "decrypt P ?mk ct' ad = Inr pt" "length ct' = 16 * (length pt div 16 + 1) + 32"
    by (rule decrypt_encrypt)
  then show "headerLen < length msg" using m l by simp
  show "decrypt P ?mk (drop headerLen msg) ad = Inr pt" using e m l by simp
  show "parseHeader (take headerLen msg) = Inr h"
    using parseHeader_append [OF v m(1), of "[]"] m(3) l by simp
qed

lemma Decrypt_of_wire:
  assumes "aesLaw P" and "hmacLaw P" and "wire P c ad h pt msg"
    and "decryptRatchet P rnd dr h = (dr1, None)"
    and "decryptMsgKey P dr1 h = (dr2, Inr (mkAt P c (nat (h_msgNo h))))"
    and "dr_associatedData dr2 = ad"
  shows "Decrypt P rnd dr msg = (dr2, Inr pt)"
  using wire_parse [OF assms(1-3)] assms(4-6) by (simp add: Decrypt_eq)

text \<open>
  Which message numbers a receiver can handle: the skipped ones, and everything from the next
  expected one up to the end of the window.
\<close>

definition deliverable :: "int set \<Rightarrow> doubleRatchet \<Rightarrow> int \<Rightarrow> bool" where
  "deliverable S dr n \<longleftrightarrow> n \<in> S \<or> dr_recvNo dr \<le> n \<and> n \<le> dr_recvNo dr + maxSkipElements"

definition skippedAfter :: "int set \<Rightarrow> int \<Rightarrow> int \<Rightarrow> int set" where
  "skippedAfter S r n = (if n \<in> S then S else S \<union> {r..<n})"

definition recvNoAfter :: "int set \<Rightarrow> int \<Rightarrow> int \<Rightarrow> int" where
  "recvNoAfter S r n = (if n \<in> S then r else n + 1)"

lemma nextMsgKey_receives:
  assumes "hmacLaw P" and "receives P c S dr"
  shows "nextMsgKey P dr = (dr\<lparr>dr_chainKeyRecv := Some (ckAt P c (nat (dr_recvNo dr + 1))),
      dr_recvNo := dr_recvNo dr + 1\<rparr>, Inr (mkAt P c (nat (dr_recvNo dr))))"
    and "receives P c S (dr\<lparr>dr_chainKeyRecv := Some (ckAt P c (nat (dr_recvNo dr + 1))),
      dr_recvNo := dr_recvNo dr + 1\<rparr>)"
  using assms chainKdf_ckAt [OF assms(1), of c "dr_recvNo dr"]
  by (auto simp: nextMsgKey_def receives_def)

lemma decryptMsgKey_receives:
  assumes "hmacLaw P" and "receives P c S dr"
    and "h_dhPub h = dr_peerDhPub dr" and "deliverable S dr (h_msgNo h)"
  obtains ck kb where
    "decryptMsgKey P dr h = (dr\<lparr>dr_chainKeyRecv := ck, dr_msgKeyBuffer := kb,
        dr_recvNo := recvNoAfter S (dr_recvNo dr) (h_msgNo h)\<rparr>, Inr (mkAt P c (nat (h_msgNo h))))"
    and "receives P c (skippedAfter S (dr_recvNo dr) (h_msgNo h))
      (dr\<lparr>dr_chainKeyRecv := ck, dr_msgKeyBuffer := kb,
        dr_recvNo := recvNoAfter S (dr_recvNo dr) (h_msgNo h)\<rparr>)"
proof (cases "h_msgNo h \<in> S")
  case True
  with assms(2) have "h_msgNo h < dr_recvNo dr"
    "find (dr_msgKeyBuffer dr) (dr_peerDhPub dr) (h_msgNo h) = Inr (mkAt P c (nat (h_msgNo h)))"
    by (auto simp: receives_def)
  with True assms show thesis
    by (intro that [where ck = "dr_chainKeyRecv dr" and kb = "dr_msgKeyBuffer dr"])
      (simp_all add: decryptMsgKey_def skippedAfter_def recvNoAfter_def)
next
  case False
  let ?n = "h_msgNo h"
  have w: "dr_recvNo dr \<le> ?n" "?n \<le> dr_recvNo dr + maxSkipElements"
    using False assms(4) by (simp_all add: deliverable_def)
  obtain kb where
    sk: "skipMsgKeys P dr ?n = (dr\<lparr>dr_chainKeyRecv := Some (ckAt P c (nat ?n)),
        dr_msgKeyBuffer := kb, dr_recvNo := ?n\<rparr>, None)"
    and rc: "receives P c (S \<union> {dr_recvNo dr..<?n}) (dr\<lparr>dr_chainKeyRecv := Some (ckAt P c (nat ?n)),
        dr_msgKeyBuffer := kb, dr_recvNo := ?n\<rparr>)"
    using assms(1,2) w by (rule skipMsgKeys_receives)
  let ?dr = "dr\<lparr>dr_chainKeyRecv := Some (ckAt P c (nat ?n)), dr_msgKeyBuffer := kb, dr_recvNo := ?n\<rparr>"
  have key: "decryptMsgKey P dr h = nextMsgKey P ?dr"
  proof (cases "?n = dr_recvNo dr")
    case True
    have "dr_chainKeyRecv dr = Some (ckAt P c (nat ?n))" using assms(2) True by (simp add: receives_def)
    with sk True have "?dr = dr"
      by (simp add: skipMsgKeys_def skipLoop_stop maxSkipElements_def)
    with True show ?thesis by (simp add: decryptMsgKey_def)
  next
    case False
    with w sk show ?thesis by (simp add: decryptMsgKey_def)
  qed
  show thesis
    using nextMsgKey_receives [OF assms(1) rc] key False
    by (intro that [where ck = "Some (ckAt P c (nat (?n + 1)))" and kb = kb])
      (simp_all add: skippedAfter_def recvNoAfter_def receives_def)
qed

text \<open>One message of the current chain is decrypted, whether late, next or early.\<close>

lemma Decrypt_same_chain:
  assumes "aesLaw P" and "hmacLaw P" and "receives P c S dr"
    and "wire P c (dr_associatedData dr) h pt msg"
    and "h_dhPub h = dr_peerDhPub dr" and "deliverable S dr (h_msgNo h)"
  obtains ck kb where
    "Decrypt P rnd dr msg = (dr\<lparr>dr_chainKeyRecv := ck, dr_msgKeyBuffer := kb,
        dr_recvNo := recvNoAfter S (dr_recvNo dr) (h_msgNo h)\<rparr>, Inr pt)"
    and "receives P c (skippedAfter S (dr_recvNo dr) (h_msgNo h))
      (dr\<lparr>dr_chainKeyRecv := ck, dr_msgKeyBuffer := kb,
        dr_recvNo := recvNoAfter S (dr_recvNo dr) (h_msgNo h)\<rparr>)"
proof -
  obtain ck kb where k:
    "decryptMsgKey P dr h = (dr\<lparr>dr_chainKeyRecv := ck, dr_msgKeyBuffer := kb,
        dr_recvNo := recvNoAfter S (dr_recvNo dr) (h_msgNo h)\<rparr>, Inr (mkAt P c (nat (h_msgNo h))))"
    "receives P c (skippedAfter S (dr_recvNo dr) (h_msgNo h))
      (dr\<lparr>dr_chainKeyRecv := ck, dr_msgKeyBuffer := kb,
        dr_recvNo := recvNoAfter S (dr_recvNo dr) (h_msgNo h)\<rparr>)"
    using assms(2,3,5,6) by (rule decryptMsgKey_receives)
  have "decryptRatchet P rnd dr h = (dr, None)" using assms(5) by (simp add: decryptRatchet_def)
  with k that show thesis by (simp add: Decrypt_of_wire [OF assms(1,2,4)])
qed

end
