(* ===== verification/Conversation.thy ===== *)
theory Conversation
  imports DoubleRatchet
begin

text \<open>
  Two double ratchets in conversation: the invariant that ties the two ends of a session together,
  the step relation of a lossy channel, and the theorem that whatever is delivered decrypts to
  what was encrypted, over any number of messages and changes of direction.
\<close>

section \<open>A new chain\<close>

text \<open>
  What a receiver's chain looks like before the first message of a new chain arrives: there is
  none yet, or it is the receiving end of some chain.
\<close>

definition receiving :: "prims \<Rightarrow> doubleRatchet \<Rightarrow> bool" where
  "receiving P dr \<longleftrightarrow> kbInv (dr_msgKeyBuffer dr) \<and> 0 \<le> dr_recvNo dr
     \<and> (dr_chainKeyRecv dr = None \<or> (\<exists>c S. receives P c S dr))"

lemma receives_receiving: "receives P c S dr \<Longrightarrow> receiving P dr"
  by (auto simp: receiving_def receives_def)

lemma receives_empty: "receives P c S dr \<Longrightarrow> receives P c {} dr"
  by (auto simp: receives_def)

lemma skipMsgKeys_receiving:
  assumes "hmacLaw P" and "receiving P dr" and "until \<le> dr_recvNo dr + maxSkipElements"
  obtains ck kb n where "skipMsgKeys P dr until =
      (dr\<lparr>dr_chainKeyRecv := ck, dr_msgKeyBuffer := kb, dr_recvNo := n\<rparr>, None)" and "kbInv kb"
proof (cases "dr_chainKeyRecv dr = None \<or> until \<le> dr_recvNo dr")
  case True
  with assms(2,3) show thesis
    by (intro that [where ck = "dr_chainKeyRecv dr" and kb = "dr_msgKeyBuffer dr" and n = "dr_recvNo dr"])
      (auto simp: skipMsgKeys_def skipLoop_stop receiving_def)
next
  case False
  with assms(2) obtain c S where r: "receives P c S dr" by (auto simp: receiving_def)
  have "dr_recvNo dr \<le> until" using False by simp
  with assms(1) r obtain kb where
    sk: "skipMsgKeys P dr until = (dr\<lparr>dr_chainKeyRecv := Some (ckAt P c (nat until)),
      dr_msgKeyBuffer := kb, dr_recvNo := until\<rparr>, None)"
    and "receives P c (S \<union> {dr_recvNo dr..<until}) (dr\<lparr>dr_chainKeyRecv := Some (ckAt P c (nat until)),
      dr_msgKeyBuffer := kb, dr_recvNo := until\<rparr>)"
    using assms(3) by (rule skipMsgKeys_receives)
  then have "kbInv kb" by (simp add: receives_def)
  with sk show thesis by (rule that)
qed

lemma dhStep_follows:
  assumes "dhLaw P" and "dhAhead P x (dr_dhr y) ck" and "dr_peerDhPub y = r_dhPub x"
    and "kbInv (dr_msgKeyBuffer y)"
  obtains y' sk where "dhStep P (RandOk f) y = (y', None)"
    and "receives P ck {} y'" and "dr_recvNo y' = 0"
    and "sends P sk y'" and "dr_sendNo y' = 0" and "dr_prevSendNo y' = dr_sendNo y"
    and "dhAhead P (dr_dhr y') x sk" and "r_dhPub (dr_dhr y') = x25519_base P (map f [0..<32])"
    and "dr_peerDhPub y' = dr_peerDhPub y" and "dr_associatedData y' = dr_associatedData y"
    and "dr_msgKeyBuffer y' = dr_msgKeyBuffer y"
proof -
  from assms(1,2) obtain r sk where
    st: "step P (RandOk f) (dr_dhr y) (r_dhPub x) = (r, (r_dhPub r, Some sk, Some ck, None))"
    and a: "dhAhead P r x sk" and pub: "r_dhPub r = x25519_base P (map f [0..<32])"
    by (rule step_follows)
  have l: "length ck = 32" "length sk = 32" using dhAheadD(6) assms(2) a by auto
  let ?y = "y\<lparr>dr_prevSendNo := dr_sendNo y, dr_sendNo := 0, dr_recvNo := 0, dr_dhr := r,
      dr_chainKeySend := Some sk, dr_chainKeyRecv := Some ck\<rparr>"
  have "dhStep P (RandOk f) y = (?y, None)"
    using st assms(3) by (simp add: dhStep_def)
  then show thesis
    by (rule that) (use a pub l assms(4) in \<open>simp_all add: receives_def sends_def\<close>)
qed

text \<open>A header with the leader's new key moves the follower to the new chain.\<close>

lemma decryptRatchet_follows:
  assumes "dhLaw P" and "hmacLaw P" and "dhAhead P x (dr_dhr y) ck" and "receiving P y"
    and "h_dhPub h = r_dhPub x" and "h_dhPub h \<noteq> dr_peerDhPub y"
    and "h_prevNo h \<le> dr_recvNo y + maxSkipElements"
  obtains y' sk where "decryptRatchet P (RandOk f) y h = (y', None)"
    and "receives P ck {} y'" and "dr_recvNo y' = 0"
    and "sends P sk y'" and "dr_sendNo y' = 0" and "dr_prevSendNo y' = dr_sendNo y"
    and "dhAhead P (dr_dhr y') x sk" and "r_dhPub (dr_dhr y') = x25519_base P (map f [0..<32])"
    and "dr_peerDhPub y' = r_dhPub x" and "dr_associatedData y' = dr_associatedData y"
proof -
  obtain ck0 kb n where
    sk: "skipMsgKeys P y (h_prevNo h) =
      (y\<lparr>dr_chainKeyRecv := ck0, dr_msgKeyBuffer := kb, dr_recvNo := n\<rparr>, None)" and kb: "kbInv kb"
    using assms(2,4,7) by (rule skipMsgKeys_receiving)
  let ?y = "y\<lparr>dr_chainKeyRecv := ck0, dr_msgKeyBuffer := kb, dr_recvNo := n, dr_peerDhPub := h_dhPub h\<rparr>"
  have "dhAhead P x (dr_dhr ?y) ck" "dr_peerDhPub ?y = r_dhPub x" "kbInv (dr_msgKeyBuffer ?y)"
    using assms(3,5) kb by simp_all
  from dhStep_follows [OF assms(1) this] obtain y' sk where
    st: "dhStep P (RandOk f) ?y = (y', None)"
    and "receives P ck {} y'" "dr_recvNo y' = 0" "sends P sk y'" "dr_sendNo y' = 0"
    "dr_prevSendNo y' = dr_sendNo ?y" "dhAhead P (dr_dhr y') x sk"
    "r_dhPub (dr_dhr y') = x25519_base P (map f [0..<32])" "dr_peerDhPub y' = dr_peerDhPub ?y"
    "dr_associatedData y' = dr_associatedData ?y"
    by metis
  moreover have "decryptRatchet P (RandOk f) y h = (y', None)"
    using assms(6) sk st by (simp add: decryptRatchet_def)
  ultimately show thesis using that assms(5) by simp
qed

section \<open>Messages under way\<close>

text \<open>A channel is the list of the messages under way, each with its plaintext.\<close>

type_synonym channel = "(bytes \<times> bytes) list"

definition headerOf :: "bytes \<Rightarrow> header" where
  "headerOf msg = projr (parseHeader (take headerLen msg))"

definition ofChain :: "bytes \<Rightarrow> channel \<Rightarrow> channel" where
  "ofChain pub q = filter (\<lambda>(pt, msg). h_dhPub (headerOf msg) = pub) q"

definition numbers :: "bytes \<Rightarrow> channel \<Rightarrow> int list" where
  "numbers pub q = map (\<lambda>(pt, msg). h_msgNo (headerOf msg)) (ofChain pub q)"

definition chan :: "prims \<Rightarrow> bytes \<Rightarrow> bytes \<Rightarrow> bytes \<Rightarrow> channel \<Rightarrow> bool" where
  "chan P ad c pub q \<longleftrightarrow> distinct (numbers pub q)
     \<and> (\<forall>(pt, msg) \<in> set (ofChain pub q). wire P c ad (headerOf msg) pt msg)"

text \<open>The sending end with its channel, and the receiving end with its channel.\<close>

definition source :: "prims \<Rightarrow> bytes \<Rightarrow> doubleRatchet \<Rightarrow> channel \<Rightarrow> bool" where
  "source P c x q \<longleftrightarrow> sends P c x \<and> chan P (dr_associatedData x) c (r_dhPub (dr_dhr x)) q
     \<and> set (numbers (r_dhPub (dr_dhr x)) q) \<subseteq> {0..<dr_sendNo x}"

definition sink :: "prims \<Rightarrow> bytes \<Rightarrow> doubleRatchet \<Rightarrow> channel \<Rightarrow> bool" where
  "sink P c y q \<longleftrightarrow> chan P (dr_associatedData y) c (dr_peerDhPub y) q
     \<and> (\<exists>S. receives P c S y \<and> (\<forall>n \<in> set (numbers (dr_peerDhPub y) q). n \<in> S \<or> dr_recvNo y \<le> n))"

lemma sinkI:
  assumes "receives P c S y" and "chan P (dr_associatedData y) c (dr_peerDhPub y) q"
    and "\<And>n. n \<in> set (numbers (dr_peerDhPub y) q) \<Longrightarrow> n \<in> S \<or> dr_recvNo y \<le> n"
  shows "sink P c y q"
  unfolding sink_def using assms by blast

lemma wire_headerOf:
  "aesLaw P \<Longrightarrow> hmacLaw P \<Longrightarrow> wire P c ad h pt msg \<Longrightarrow> headerOf msg = h"
  using wire_parse(2) by (simp add: headerOf_def)

lemma ofChain_append [simp]: "ofChain pub (q @ q') = ofChain pub q @ ofChain pub q'"
  by (simp add: ofChain_def)

lemma ofChain_Nil [simp]: "ofChain pub [] = []"
  by (simp add: ofChain_def)

lemma ofChain_Cons [simp]: "ofChain pub ((pt, msg) # q) =
    (if h_dhPub (headerOf msg) = pub then (pt, msg) # ofChain pub q else ofChain pub q)"
  by (simp add: ofChain_def)

lemma numbers_append [simp]: "numbers pub (q @ q') = numbers pub q @ numbers pub q'"
  by (simp add: numbers_def)

lemma numbers_Nil [simp]: "numbers pub [] = []"
  by (simp add: numbers_def)

lemma numbers_Cons [simp]: "numbers pub ((pt, msg) # q) =
    (if h_dhPub (headerOf msg) = pub then h_msgNo (headerOf msg) # numbers pub q else numbers pub q)"
  by (simp add: numbers_def)

lemma chan_remove: "chan P ad c pub (q1 @ m # q2) \<Longrightarrow> chan P ad c pub (q1 @ q2)"
  by (cases m) (auto simp: chan_def split: if_splits)

lemma numbers_remove: "set (numbers pub (q1 @ q2)) \<subseteq> set (numbers pub (q1 @ m # q2))"
  by (cases m) auto

lemma source_remove: "source P c x (q1 @ m # q2) \<Longrightarrow> source P c x (q1 @ q2)"
  unfolding source_def using chan_remove numbers_remove by blast

lemma sink_remove: "sink P c y (q1 @ m # q2) \<Longrightarrow> sink P c y (q1 @ q2)"
  unfolding sink_def using chan_remove numbers_remove by blast

text \<open>A message of another chain does not disturb a receiver.\<close>

lemma sink_other:
  "h_dhPub (headerOf msg) \<noteq> dr_peerDhPub y \<Longrightarrow> sink P c y (q @ [(pt, msg)]) = sink P c y q"
  by (simp add: sink_def chan_def)

lemma source_send:
  assumes "aesLaw P" and "hmacLaw P" and "source P c x q" and "headerValid (sendHeader x)"
  obtains msg ck where
    "Encrypt P rnd x pt = (x\<lparr>dr_chainKeySend := ck, dr_sendNo := dr_sendNo x + 1\<rparr>, Inr msg)"
    and "source P c (x\<lparr>dr_chainKeySend := ck, dr_sendNo := dr_sendNo x + 1\<rparr>) (q @ [(pt, msg)])"
    and "headerOf msg = sendHeader x" and "wire P c (dr_associatedData x) (sendHeader x) pt msg"
proof -
  have s: "sends P c x" using assms(3) by (simp add: source_def)
  obtain msg where e: "Encrypt P rnd x pt =
      (x\<lparr>dr_chainKeySend := Some (ckAt P c (nat (dr_sendNo x + 1))), dr_sendNo := dr_sendNo x + 1\<rparr>, Inr msg)"
    and w: "wire P c (dr_associatedData x) (sendHeader x) pt msg"
    using assms(1,2) s assms(4) by (rule Encrypt_sends)
  have h: "headerOf msg = sendHeader x" using assms(1,2) w by (rule wire_headerOf)
  have "source P c (x\<lparr>dr_chainKeySend := Some (ckAt P c (nat (dr_sendNo x + 1))),
      dr_sendNo := dr_sendNo x + 1\<rparr>) (q @ [(pt, msg)])"
    using assms(3) s w h by (auto simp: source_def sends_def chan_def sendHeader_def)
  with e show thesis using h w by (rule that)
qed

lemma sink_receive:
  assumes "aesLaw P" and "hmacLaw P" and "sink P c y (q1 @ (pt, msg) # q2)"
    and "h_dhPub (headerOf msg) = dr_peerDhPub y"
    and "h_msgNo (headerOf msg) \<le> dr_recvNo y + maxSkipElements"
  obtains ck kb n where
    "Decrypt P rnd y msg =
      (y\<lparr>dr_chainKeyRecv := ck, dr_msgKeyBuffer := kb, dr_recvNo := n\<rparr>, Inr pt)"
    and "sink P c (y\<lparr>dr_chainKeyRecv := ck, dr_msgKeyBuffer := kb, dr_recvNo := n\<rparr>) (q1 @ q2)"
    and "n = dr_recvNo y \<or> n = h_msgNo (headerOf msg) + 1"
proof -
  let ?h = "headerOf msg"
  from assms(3) obtain S where c: "chan P (dr_associatedData y) c (dr_peerDhPub y) (q1 @ (pt, msg) # q2)"
    and r: "receives P c S y"
    and n: "\<forall>n \<in> set (numbers (dr_peerDhPub y) (q1 @ (pt, msg) # q2)). n \<in> S \<or> dr_recvNo y \<le> n"
    by (auto simp: sink_def)
  have w: "wire P c (dr_associatedData y) ?h pt msg" using c assms(4) by (auto simp: chan_def)
  have d: "deliverable S y (h_msgNo ?h)" using n assms(4,5) by (auto simp: deliverable_def)
  let ?n = "recvNoAfter S (dr_recvNo y) (h_msgNo ?h)" and ?S = "skippedAfter S (dr_recvNo y) (h_msgNo ?h)"
  from assms(1,2) r w assms(4) d obtain ck kb where
    e: "Decrypt P rnd y msg = (y\<lparr>dr_chainKeyRecv := ck, dr_msgKeyBuffer := kb, dr_recvNo := ?n\<rparr>, Inr pt)"
    and r': "receives P c ?S (y\<lparr>dr_chainKeyRecv := ck, dr_msgKeyBuffer := kb, dr_recvNo := ?n\<rparr>)"
    by (rule Decrypt_same_chain)
  have "i \<in> ?S \<or> ?n \<le> i" if "i \<in> set (numbers (dr_peerDhPub y) (q1 @ q2))" for i
  proof -
    have "i \<noteq> h_msgNo ?h" using c assms(4) that by (auto simp: chan_def)
    moreover have "i \<in> S \<or> dr_recvNo y \<le> i" using n that assms(4) by auto
    ultimately show ?thesis by (auto simp: skippedAfter_def recvNoAfter_def)
  qed
  with chan_remove [OF c] r' have
    "sink P c (y\<lparr>dr_chainKeyRecv := ck, dr_msgKeyBuffer := kb, dr_recvNo := ?n\<rparr>) (q1 @ q2)"
    unfolding sink_def by auto
  with e show thesis by (rule that) (simp add: recvNoAfter_def)
qed

section \<open>The invariant of a session\<close>

text \<open>
  \<open>paired P x y qx qy\<close>: \<open>x\<close> took the last Diffie-Hellman step and \<open>y\<close> has not heard of it yet;
  \<open>qx\<close> and \<open>qy\<close> are the messages under way from \<open>x\<close> and from \<open>y\<close>. The chain of \<open>x\<close> is the one \<open>y\<close>
  will derive; the chain of \<open>y\<close>, if \<open>y\<close> can send at all, is the one \<open>x\<close> receives on.
\<close>

definition leads :: "prims \<Rightarrow> doubleRatchet \<Rightarrow> doubleRatchet \<Rightarrow> channel \<Rightarrow> bool" where
  "leads P x y q \<longleftrightarrow> (\<exists>ck. dhAhead P (dr_dhr x) (dr_dhr y) ck \<and> source P ck x q)"

definition hears :: "prims \<Rightarrow> doubleRatchet \<Rightarrow> channel \<Rightarrow> bool" where
  "hears P y q \<longleftrightarrow> kbInv (dr_msgKeyBuffer y) \<and> 0 \<le> dr_recvNo y
     \<and> (dr_chainKeyRecv y = None \<and> numbers (dr_peerDhPub y) q = [] \<or> (\<exists>c. sink P c y q))"

definition answers :: "prims \<Rightarrow> doubleRatchet \<Rightarrow> doubleRatchet \<Rightarrow> channel \<Rightarrow> bool" where
  "answers P y x q \<longleftrightarrow> (\<exists>c. source P c y q \<and> sink P c x q \<and> dr_recvNo x \<le> dr_sendNo y)"

definition silent :: "doubleRatchet \<Rightarrow> doubleRatchet \<Rightarrow> channel \<Rightarrow> bool" where
  "silent y x q \<longleftrightarrow> dr_chainKeySend y = None \<and> dr_peerDhPub y = [] \<and> q = []
     \<and> dr_chainKeyRecv x = None \<and> kbInv (dr_msgKeyBuffer x) \<and> 0 \<le> dr_recvNo x \<and> dr_sendNo y = 0"

definition paired :: "prims \<Rightarrow> doubleRatchet \<Rightarrow> doubleRatchet \<Rightarrow> channel \<Rightarrow> channel \<Rightarrow> bool" where
  "paired P x y qx qy \<longleftrightarrow> leads P x y qx \<and> hears P y qx \<and> (answers P y x qy \<or> silent y x qy)
     \<and> r_dhPub (dr_dhr x) \<noteq> dr_peerDhPub y \<and> dr_peerDhPub x = r_dhPub (dr_dhr y)
     \<and> dr_associatedData x = dr_associatedData y
     \<and> 0 \<le> dr_prevSendNo x \<and> 0 \<le> dr_prevSendNo y"

text \<open>The states right after \<open>CreateActive\<close> and \<open>CreatePassive\<close>.\<close>

definition created :: "prims \<Rightarrow> doubleRatchet \<Rightarrow> doubleRatchet \<Rightarrow> bool" where
  "created P a b \<longleftrightarrow> (\<exists>f sessKey ad priv. length sessKey = 32 \<and> length priv = 32
     \<and> CreateActive P (RandOk f) sessKey ad (x25519_base P priv) = Inr a
     \<and> b = CreatePassive sessKey ad (x25519_base P priv) priv)"

lemma createdI:
  "length sessKey = 32 \<Longrightarrow> length priv = 32
    \<Longrightarrow> CreateActive P (RandOk f) sessKey ad (x25519_base P priv) = Inr a
    \<Longrightarrow> created P a (CreatePassive sessKey ad (x25519_base P priv) priv)"
  unfolding created_def by blast

lemma source_hears: "sink P c y q \<Longrightarrow> hears P y q"
  by (auto simp: hears_def sink_def receives_def)

lemma hears_receiving: "hears P y q \<Longrightarrow> receiving P y"
  by (auto simp: hears_def receiving_def sink_def)

lemma answers_or_silent_hears: "answers P y x q \<or> silent y x q \<Longrightarrow> hears P x q"
  by (auto simp: answers_def silent_def hears_def sink_def receives_def)

text \<open>
  The first encryption of the active peer takes its initial step; afterwards the peers are paired.
\<close>

lemma Encrypt_lazy:
  assumes "dr_chainKeySend dr = None" and "dhStep P rnd dr = (dr1, None)" and "dr_chainKeySend dr1 \<noteq> None"
  shows "Encrypt P rnd dr pt = Encrypt P rnd dr1 pt"
  using assms by (auto simp: Encrypt_def)

lemma created_step:
  assumes "dhLaw P" and "created P a b"
  obtains a1 where "dhStep P rnd a = (a1, None)" and "paired P a1 b [] []"
    and "dr_chainKeySend a = None" and "dr_chainKeySend a1 \<noteq> None"
    and "dr_sendNo a1 = 0" and "dr_prevSendNo a1 = 0"
proof -
  from assms(2) obtain f sessKey ad priv where l: "length sessKey = 32" "length priv = 32"
    and a: "CreateActive P (RandOk f) sessKey ad (x25519_base P priv) = Inr a"
    and b: "b = CreatePassive sessKey ad (x25519_base P priv) priv"
    by (auto simp: created_def)
  let ?pub = "x25519_base P priv"
  define r where "r = fst (dhRatchetActive P (RandOk f) sessKey ?pub)"
  have r: "dhRatchetActive P (RandOk f) sessKey ?pub = (r, None)"
    by (simp add: r_def dhRatchetActive_def dhKeyPair_ok)
  have a: "a = \<lparr>dr_associatedData = ad, dr_dhr = r, dr_peerDhPub = ?pub, dr_chainKeySend = None,
      dr_chainKeyRecv = None, dr_sendNo = 0, dr_recvNo = 0, dr_prevSendNo = 0,
      dr_msgKeyBuffer = newKeyBuffer\<rparr>"
    using a r by (simp add: CreateActive_def)
  obtain r' sk where st: "step P rnd r ?pub = (r', (r_dhPub r', Some sk, None, None))"
    and ah: "dhAhead P r' (dhRatchetPassive sessKey ?pub priv) sk"
    using stepInitial_ahead [OF assms(1) l refl r] by metis
  let ?a = "a\<lparr>dr_dhr := r', dr_chainKeySend := Some sk\<rparr>"
  have "dhStep P rnd a = (?a, None)" using st by (simp add: dhStep_def a)
  moreover have "paired P ?a b [] []"
    using ah dhAheadD [OF ah] keysOk_base_length [OF assms(1) dhAheadD(1) [OF ah]]
    by (auto simp: paired_def leads_def hears_def silent_def source_def chan_def sends_def
        a b CreatePassive_def kbInv_new dhRatchetPassive_def)
  ultimately show thesis by (rule that) (simp_all add: a)
qed

text \<open>The passive peer cannot send before it has received.\<close>

lemma Encrypt_no_peer:
  assumes "dr_chainKeySend dr = None" and "dr_peerDhPub dr = []" and "regular (dr_dhr dr)"
  shows "\<exists>dr' e. Encrypt P rnd dr pt = (dr', Inl e)"
proof -
  let ?r = "(dr_dhr dr)\<lparr>r_peerDhPub := []\<rparr>"
  have "\<not> (r_isActive (dr_dhr dr) \<and> \<not> r_isInitialized (dr_dhr dr))"
    using assms(3) by (simp add: regular_def)
  moreover have "\<exists>e. dh P (r_dhPriv (dr_dhr dr)) [] = Inl e" by (simp add: dh_def)
  then obtain e where "dh P (r_dhPriv (dr_dhr dr)) [] = Inl e" ..
  ultimately have "step P rnd (dr_dhr dr) [] = (?r, ([], None, None, Some e))"
    by (auto simp: step_def)
  with assms(1,2) show ?thesis by (simp add: Encrypt_def dhStep_def)
qed

section \<open>Sending and receiving keep the invariant\<close>

lemma sendHeader_valid:
  assumes "dhLaw P" and "keysOk P (dr_dhr x)" and "0 \<le> dr_prevSendNo x" and "0 \<le> dr_sendNo x"
    and "dr_prevSendNo x < 65536" and "dr_sendNo x < 65536"
  shows "headerValid (sendHeader x)"
  using assms keysOk_base_length [OF assms(1,2)] by (simp add: headerValid_def sendHeader_def)

lemma Encrypt_header_valid:
  assumes "sends P c x" and "Encrypt P rnd x pt = (x', Inr msg)"
    and "length (r_dhPub (dr_dhr x)) = 32" and "0 \<le> dr_prevSendNo x"
  shows "headerValid (sendHeader x)"
proof -
  have "\<exists>hData. marshal (sendHeader x) = Inr hData"
    using assms(1,2) by (auto simp: Encrypt_def sends_def sendHeader_def [symmetric] Let_def
        split: sum.splits prod.splits)
  then have "dr_prevSendNo x < 65536" "dr_sendNo x < 65536"
    by (auto simp: marshal_def sendHeader_def split: if_splits)
  with assms show ?thesis by (simp add: headerValid_def sendHeader_def sends_def)
qed

lemma paired_left_send:
  assumes "aesLaw P" and "hmacLaw P" and "dhLaw P" and "paired P x y qx qy"
    and "Encrypt P rnd x pt = (x', Inr msg)"
  shows "paired P x' y (qx @ [(pt, msg)]) qy"
proof -
  from assms(4) obtain ck where a: "dhAhead P (dr_dhr x) (dr_dhr y) ck" and s: "source P ck x qx"
    by (auto simp: paired_def leads_def)
  have l: "length (r_dhPub (dr_dhr x)) = 32"
    using keysOk_base_length [OF assms(3) dhAheadD(1) [OF a]] .
  have "sends P ck x" using s by (simp add: source_def)
  then have v: "headerValid (sendHeader x)"
    using assms(4,5) l by (intro Encrypt_header_valid) (auto simp: paired_def)
  obtain msg' k where
    e: "Encrypt P rnd x pt = (x\<lparr>dr_chainKeySend := k, dr_sendNo := dr_sendNo x + 1\<rparr>, Inr msg')"
    and s': "source P ck (x\<lparr>dr_chainKeySend := k, dr_sendNo := dr_sendNo x + 1\<rparr>) (qx @ [(pt, msg')])"
    and h: "headerOf msg' = sendHeader x"
    using assms(1,2) s v by (rule source_send)
  have eq: "x' = x\<lparr>dr_chainKeySend := k, dr_sendNo := dr_sendNo x + 1\<rparr>" "msg' = msg"
    using e assms(5) by auto
  have o: "h_dhPub (headerOf msg) \<noteq> dr_peerDhPub y"
    using assms(4) h eq(2) by (simp add: paired_def sendHeader_def)
  have "leads P x' y (qx @ [(pt, msg)])" using a s' eq by (auto simp: leads_def)
  moreover have "hears P y (qx @ [(pt, msg)])"
    using assms(4) o by (simp add: paired_def hears_def sink_other)
  moreover have "answers P y x' qy = answers P y x qy" "silent y x' qy = silent y x qy"
    by (simp_all add: eq answers_def silent_def sink_def receives_def)
  ultimately show ?thesis using assms(4) by (simp add: paired_def eq)
qed

lemma sink_grow:
  assumes "sink P c x q" and "wire P c (dr_associatedData x) (headerOf msg) pt msg"
    and "h_dhPub (headerOf msg) = dr_peerDhPub x" and "dr_recvNo x \<le> h_msgNo (headerOf msg)"
    and "h_msgNo (headerOf msg) \<notin> set (numbers (dr_peerDhPub x) q)"
  shows "sink P c x (q @ [(pt, msg)])"
  using assms by (auto simp: sink_def chan_def)

lemma paired_right_send:
  assumes "aesLaw P" and "hmacLaw P" and "dhLaw P" and "paired P x y qx qy"
    and "Encrypt P rnd y pt = (y', Inr msg)"
  shows "paired P x y' qx (qy @ [(pt, msg)])"
proof -
  from assms(4) obtain ck where a: "dhAhead P (dr_dhr x) (dr_dhr y) ck" and sx: "source P ck x qx"
    by (auto simp: paired_def leads_def)
  have "\<not> silent y x qy"
    using Encrypt_no_peer [of y P rnd pt] dhAheadD(4) [OF a] assms(5) by (auto simp: silent_def)
  then obtain c where s: "source P c y qy" and r: "sink P c x qy" and n: "dr_recvNo x \<le> dr_sendNo y"
    using assms(4) by (auto simp: paired_def answers_def)
  have l: "length (r_dhPub (dr_dhr y)) = 32"
    using keysOk_base_length [OF assms(3) dhAheadD(2) [OF a]] .
  have "sends P c y" using s by (simp add: source_def)
  then have v: "headerValid (sendHeader y)"
    using assms(4,5) l by (intro Encrypt_header_valid) (auto simp: paired_def)
  obtain msg' k where
    e: "Encrypt P rnd y pt = (y\<lparr>dr_chainKeySend := k, dr_sendNo := dr_sendNo y + 1\<rparr>, Inr msg')"
    and s': "source P c (y\<lparr>dr_chainKeySend := k, dr_sendNo := dr_sendNo y + 1\<rparr>) (qy @ [(pt, msg')])"
    and h: "headerOf msg' = sendHeader y"
    and w: "wire P c (dr_associatedData y) (sendHeader y) pt msg'"
    using assms(1,2) s v by (rule source_send)
  have eq: "y' = y\<lparr>dr_chainKeySend := k, dr_sendNo := dr_sendNo y + 1\<rparr>" "msg' = msg"
    using e assms(5) by auto
  have p: "dr_peerDhPub x = r_dhPub (dr_dhr y)" "dr_associatedData x = dr_associatedData y"
    using assms(4) by (simp_all add: paired_def)
  have "sink P c x (qy @ [(pt, msg)])"
    using r by (rule sink_grow)
      (use w h eq(2) n s p in \<open>auto simp: sendHeader_def source_def\<close>)
  then have "answers P y' x (qy @ [(pt, msg)])" using s' eq n by (auto simp: answers_def)
  moreover have "leads P x y' qx" using a sx by (auto simp: leads_def eq)
  moreover have "hears P y' qx = hears P y qx" by (simp add: eq hears_def sink_def receives_def)
  ultimately show ?thesis using assms(4) by (simp add: paired_def eq)
qed

text \<open>A message of the chain that the receiver is on.\<close>

lemma paired_left_old:
  assumes "aesLaw P" and "hmacLaw P" and "paired P x y (q1 @ (pt, msg) # q2) qy"
    and "h_dhPub (headerOf msg) = dr_peerDhPub y"
    and "h_msgNo (headerOf msg) \<le> dr_recvNo y + maxSkipElements"
  shows "\<exists>y'. Decrypt P rnd y msg = (y', Inr pt) \<and> paired P x y' (q1 @ q2) qy"
proof -
  let ?q = "q1 @ (pt, msg) # q2"
  from assms(3,4) obtain c where s: "sink P c y ?q" by (auto simp: paired_def hears_def)
  obtain k kb n where
    d: "Decrypt P rnd y msg = (y\<lparr>dr_chainKeyRecv := k, dr_msgKeyBuffer := kb, dr_recvNo := n\<rparr>, Inr pt)"
    and s': "sink P c (y\<lparr>dr_chainKeyRecv := k, dr_msgKeyBuffer := kb, dr_recvNo := n\<rparr>) (q1 @ q2)"
    using assms(1,2) s assms(4,5) by (rule sink_receive)
  let ?y = "y\<lparr>dr_chainKeyRecv := k, dr_msgKeyBuffer := kb, dr_recvNo := n\<rparr>"
  have "leads P x ?y (q1 @ q2)"
    using assms(3) source_remove by (fastforce simp: paired_def leads_def)
  moreover have "hears P ?y (q1 @ q2)" using s' by (rule source_hears)
  moreover have "answers P ?y x qy = answers P y x qy" "silent ?y x qy = silent y x qy"
    by (simp_all add: answers_def silent_def source_def sends_def)
  ultimately have "paired P x ?y (q1 @ q2) qy" using assms(3) by (simp add: paired_def)
  with d show ?thesis by blast
qed

lemma paired_right:
  assumes "aesLaw P" and "hmacLaw P" and "paired P x y qx (q1 @ (pt, msg) # q2)"
    and "h_dhPub (headerOf msg) = dr_peerDhPub x"
    and "h_msgNo (headerOf msg) \<le> dr_recvNo x + maxSkipElements"
  shows "\<exists>x'. Decrypt P rnd x msg = (x', Inr pt) \<and> paired P x' y qx (q1 @ q2)"
proof -
  let ?q = "q1 @ (pt, msg) # q2"
  from assms(3) obtain c where so: "source P c y ?q" and s: "sink P c x ?q" and n: "dr_recvNo x \<le> dr_sendNo y"
    by (auto simp: paired_def answers_def silent_def)
  obtain k kb n' where
    d: "Decrypt P rnd x msg = (x\<lparr>dr_chainKeyRecv := k, dr_msgKeyBuffer := kb, dr_recvNo := n'\<rparr>, Inr pt)"
    and s': "sink P c (x\<lparr>dr_chainKeyRecv := k, dr_msgKeyBuffer := kb, dr_recvNo := n'\<rparr>) (q1 @ q2)"
    and n': "n' = dr_recvNo x \<or> n' = h_msgNo (headerOf msg) + 1"
    using assms(1,2) s assms(4,5) by (rule sink_receive)
  let ?x = "x\<lparr>dr_chainKeyRecv := k, dr_msgKeyBuffer := kb, dr_recvNo := n'\<rparr>"
  have "dr_peerDhPub x = r_dhPub (dr_dhr y)" using assms(3) by (simp add: paired_def)
  then have "h_msgNo (headerOf msg) < dr_sendNo y" using so assms(4) by (auto simp: source_def)
  with n n' source_remove [OF so] s' have "answers P y ?x (q1 @ q2)" by (auto simp: answers_def)
  moreover have "leads P ?x y qx = leads P x y qx"
    by (simp add: leads_def source_def sends_def)
  ultimately have "paired P ?x y qx (q1 @ q2)" using assms(3) by (simp add: paired_def)
  with d show ?thesis by blast
qed

text \<open>The first message of the new chain that arrives: the receiver follows and takes the lead.\<close>

lemma paired_left_new:
  assumes "aesLaw P" and "hmacLaw P" and "dhLaw P" and "paired P x y (q1 @ (pt, msg) # q2) qy"
    and "h_dhPub (headerOf msg) = r_dhPub (dr_dhr x)"
    and "h_prevNo (headerOf msg) \<le> dr_recvNo y + maxSkipElements"
    and "h_msgNo (headerOf msg) \<le> maxSkipElements"
    and "x25519_base P (map f [0..<32]) \<noteq> r_dhPub (dr_dhr y)"
    and "ofChain (x25519_base P (map f [0..<32])) qy = []"
  shows "\<exists>y'. Decrypt P (RandOk f) y msg = (y', Inr pt) \<and> paired P y' x qy (q1 @ q2)"
proof -
  let ?h = "headerOf msg" and ?q = "q1 @ (pt, msg) # q2"
  from assms(4) obtain ck where a: "dhAhead P (dr_dhr x) (dr_dhr y) ck" and s: "source P ck x ?q"
    by (auto simp: paired_def leads_def)
  have p: "h_dhPub ?h \<noteq> dr_peerDhPub y" "receiving P y" "dr_associatedData x = dr_associatedData y"
    "dr_peerDhPub x = r_dhPub (dr_dhr y)"
    using assms(4,5) by (auto simp: paired_def intro: hears_receiving)
  have w: "wire P ck (dr_associatedData x) ?h pt msg" and n: "0 \<le> h_msgNo ?h" "h_msgNo ?h < dr_sendNo x"
    using s assms(5) by (auto simp: source_def chan_def)
  obtain y1 sk where dr: "decryptRatchet P (RandOk f) y ?h = (y1, None)"
    and r: "receives P ck {} y1" "dr_recvNo y1 = 0" and sd: "sends P sk y1" "dr_sendNo y1 = 0"
    and pv: "dr_prevSendNo y1 = dr_sendNo y" and a1: "dhAhead P (dr_dhr y1) (dr_dhr x) sk"
    and pub: "r_dhPub (dr_dhr y1) = x25519_base P (map f [0..<32])"
    and pe: "dr_peerDhPub y1 = r_dhPub (dr_dhr x)" "dr_associatedData y1 = dr_associatedData y"
    using assms(3,2) a p(2) assms(5) p(1) assms(6) by (rule decryptRatchet_follows)
  have "deliverable {} y1 (h_msgNo ?h)" using n assms(7) r by (simp add: deliverable_def)
  with assms(2) r(1) pe assms(5) obtain k kb where
    dk: "decryptMsgKey P y1 ?h = (y1\<lparr>dr_chainKeyRecv := k, dr_msgKeyBuffer := kb,
        dr_recvNo := recvNoAfter {} (dr_recvNo y1) (h_msgNo ?h)\<rparr>, Inr (mkAt P ck (nat (h_msgNo ?h))))"
    and r2: "receives P ck (skippedAfter {} (dr_recvNo y1) (h_msgNo ?h))
      (y1\<lparr>dr_chainKeyRecv := k, dr_msgKeyBuffer := kb,
        dr_recvNo := recvNoAfter {} (dr_recvNo y1) (h_msgNo ?h)\<rparr>)"
    by (metis decryptMsgKey_receives)
  let ?y = "y1\<lparr>dr_chainKeyRecv := k, dr_msgKeyBuffer := kb, dr_recvNo := h_msgNo ?h + 1\<rparr>"
  have d: "Decrypt P (RandOk f) y msg = (?y, Inr pt)"
    using Decrypt_of_wire [OF assms(1,2) w dr dk] pe p(3) by (simp add: recvNoAfter_def)
  have r3: "receives P ck {0..<h_msgNo ?h} ?y"
    using r2 r(2) by (simp add: recvNoAfter_def skippedAfter_def)
  have i: "i \<in> {0..<h_msgNo ?h} \<or> h_msgNo ?h + 1 \<le> i" if "i \<in> set (numbers (r_dhPub (dr_dhr x)) (q1 @ q2))" for i
  proof -
    have "i \<noteq> h_msgNo ?h" "0 \<le> i" using s that assms(5) by (auto simp: source_def chan_def)
    then show ?thesis by auto
  qed
  have "chan P (dr_associatedData x) ck (r_dhPub (dr_dhr x)) (q1 @ q2)"
    using s chan_remove by (auto simp: source_def)
  with i pe p(3) have si: "sink P ck ?y (q1 @ q2)" by (intro sinkI [OF r3]) simp_all
  have "leads P ?y x qy"
    using a1 sd pub assms(9) by (auto simp: leads_def source_def sends_def chan_def numbers_def)
  moreover have "hears P x qy" using assms(4) by (intro answers_or_silent_hears [of P y]) (simp add: paired_def)
  moreover have "answers P x ?y (q1 @ q2)"
    using source_remove [OF s] si n by (auto simp: answers_def)
  moreover have "0 \<le> dr_sendNo y"
    using assms(4) by (auto simp: paired_def answers_def silent_def source_def sends_def)
  ultimately have "paired P ?y x qy (q1 @ q2)"
    using assms(4,8) pub pv pe p by (simp add: paired_def)
  with d show ?thesis by blast
qed

section \<open>Conversations\<close>

text \<open>
  A session is the two ratchets and the messages under way in both directions. Messages are sent,
  and delivered in any order or not at all. A message is admissible if it belongs to the chain the
  receiver is on or to the newest chain of the sender, and is within the window of skipped
  messages; a new key pair must not repeat a public key that is in use.
\<close>

type_synonym session = "doubleRatchet \<times> doubleRatchet \<times> channel \<times> channel"

definition admissible :: "doubleRatchet \<Rightarrow> doubleRatchet \<Rightarrow> header \<Rightarrow> bool" where
  "admissible x y h \<longleftrightarrow>
     (if h_dhPub h = dr_peerDhPub y then h_msgNo h \<le> dr_recvNo y + maxSkipElements
      else h_dhPub h = r_dhPub (dr_dhr x) \<and> h_prevNo h \<le> dr_recvNo y + maxSkipElements
        \<and> h_msgNo h \<le> maxSkipElements)"

definition freshKey :: "prims \<Rightarrow> (nat \<Rightarrow> byte) \<Rightarrow> doubleRatchet \<Rightarrow> channel \<Rightarrow> bool" where
  "freshKey P f y q \<longleftrightarrow> (let pub = x25519_base P (map f [0..<32])
     in pub \<noteq> r_dhPub (dr_dhr y) \<and> ofChain pub q = [])"

text \<open>The log of a step holds the plaintext that was sent and what the receiver made of it.\<close>

inductive act :: "prims \<Rightarrow> session \<Rightarrow> (bytes \<times> bytes result) list \<Rightarrow> session \<Rightarrow> bool" where
  send: "Encrypt P rnd x pt = (x', Inr msg) \<Longrightarrow> act P (x, y, qx, qy) [] (x', y, qx @ [(pt, msg)], qy)"
| deliver: "admissible x y (headerOf msg) \<Longrightarrow> freshKey P f y qy
    \<Longrightarrow> Decrypt P (RandOk f) y msg = (y', r)
    \<Longrightarrow> act P (x, y, q1 @ (pt, msg) # q2, qy) [(pt, r)] (x, y', q1 @ q2, qy)"
| swap: "act P (y, x, qy, qx) l (y', x', qy', qx') \<Longrightarrow> act P (x, y, qx, qy) l (x', y', qx', qy')"

inductive talk :: "prims \<Rightarrow> session \<Rightarrow> (bytes \<times> bytes result) list \<Rightarrow> session \<Rightarrow> bool" where
  start: "talk P s [] s"
| more: "talk P s l s' \<Longrightarrow> act P s' l' s'' \<Longrightarrow> talk P s (l @ l') s''"

fun synced :: "prims \<Rightarrow> session \<Rightarrow> bool" where
  "synced P (x, y, qx, qy) \<longleftrightarrow> (created P x y \<or> created P y x) \<and> qx = [] \<and> qy = []
     \<or> paired P x y qx qy \<or> paired P y x qy qx"

definition honest :: "(bytes \<times> bytes result) list \<Rightarrow> bool" where
  "honest l \<longleftrightarrow> (\<forall>(pt, r) \<in> set l. r = Inr pt)"

lemma synced_swap: "synced P (y, x, qy, qx) \<longleftrightarrow> synced P (x, y, qx, qy)"
  by auto

lemma passive_cannot_send:
  "created P y x \<Longrightarrow> \<exists>x' e. Encrypt P rnd x pt = (x', Inl e)"
  by (auto simp: created_def CreatePassive_def dhRatchetPassive_def regular_def intro!: Encrypt_no_peer)

lemma send_synced:
  assumes "aesLaw P" and "hmacLaw P" and "dhLaw P" and "synced P (x, y, qx, qy)"
    and "Encrypt P rnd x pt = (x', Inr msg)"
  shows "synced P (x', y, qx @ [(pt, msg)], qy)"
proof -
  note laws = assms(1-3)
  from assms(4) consider "created P x y" "qx = []" "qy = []" | "created P y x"
    | "paired P x y qx qy" | "paired P y x qy qx" by auto
  then show ?thesis
  proof cases
    case 1
    from laws(3) 1(1) obtain x1 where "dhStep P rnd x = (x1, None)" "paired P x1 y [] []"
      "dr_chainKeySend x = None" "dr_chainKeySend x1 \<noteq> None"
      by (rule created_step)
    with assms(5) have "Encrypt P rnd x1 pt = (x', Inr msg)" using Encrypt_lazy by simp
    with paired_left_send [OF laws \<open>paired P x1 y [] []\<close>] 1 show ?thesis by simp
  next
    case 2
    with passive_cannot_send [of P y x rnd pt] assms(5) show ?thesis by auto
  next
    case 3
    with paired_left_send [OF laws] assms(5) show ?thesis by simp
  next
    case 4
    with paired_right_send [OF laws] assms(5) show ?thesis by simp
  qed
qed

lemma deliver_paired:
  assumes "aesLaw P" and "hmacLaw P" and "dhLaw P"
    and "paired P x y (q1 @ (pt, msg) # q2) qy \<or> paired P y x qy (q1 @ (pt, msg) # q2)"
    and "admissible x y (headerOf msg)" and "freshKey P f y qy"
  shows "\<exists>y'. Decrypt P (RandOk f) y msg = (y', Inr pt)
    \<and> (paired P x y' (q1 @ q2) qy \<or> paired P y' x qy (q1 @ q2))"
  using assms(4)
proof
  note laws = assms(1-3)
  assume p: "paired P x y (q1 @ (pt, msg) # q2) qy"
  show ?thesis
  proof (cases "h_dhPub (headerOf msg) = dr_peerDhPub y")
    case True
    with paired_left_old [OF laws(1,2) p] assms(5) show ?thesis by (fastforce simp: admissible_def)
  next
    case False
    with paired_left_new [OF laws p] assms(5,6) show ?thesis
      by (fastforce simp: admissible_def freshKey_def Let_def)
  qed
next
  assume p: "paired P y x qy (q1 @ (pt, msg) # q2)"
  then have "dr_peerDhPub y = r_dhPub (dr_dhr x)" by (simp add: paired_def)
  with paired_right [OF assms(1,2) p] assms(5) show ?thesis
    by (fastforce simp: admissible_def split: if_splits)
qed

lemma deliver_synced:
  assumes "aesLaw P" and "hmacLaw P" and "dhLaw P" and "synced P (x, y, q1 @ (pt, msg) # q2, qy)"
    and "admissible x y (headerOf msg)" and "freshKey P f y qy"
  shows "\<exists>y'. Decrypt P (RandOk f) y msg = (y', Inr pt) \<and> synced P (x, y', q1 @ q2, qy)"
proof -
  from assms(4) have "paired P x y (q1 @ (pt, msg) # q2) qy \<or> paired P y x qy (q1 @ (pt, msg) # q2)" by auto
  from deliver_paired [OF assms(1-3) this assms(5,6)] show ?thesis by auto
qed

lemma act_synced:
  assumes "aesLaw P" and "hmacLaw P" and "dhLaw P" and "act P s l s'" and "synced P s"
  shows "synced P s' \<and> honest l"
  using assms(4,5,1-3)
proof (induction rule: act.induct)
  case (send P rnd x pt x' msg y qx qy)
  then have "synced P (x', y, qx @ [(pt, msg)], qy)" by (intro send_synced)
  then show ?case by (simp add: honest_def)
next
  case (deliver x y msg P f qy y' r q1 pt q2)
  then have "\<exists>y'. Decrypt P (RandOk f) y msg = (y', Inr pt) \<and> synced P (x, y', q1 @ q2, qy)"
    by (intro deliver_synced)
  with deliver show ?case by (auto simp: honest_def)
next
  case (swap P y x qy qx l y' x' qy' qx')
  then show ?case using synced_swap by metis
qed

lemma talk_synced:
  assumes "aesLaw P" and "hmacLaw P" and "dhLaw P" and "talk P s l s'" and "synced P s"
  shows "synced P s' \<and> honest l"
  using assms(4,5,1-3)
proof (induction rule: talk.induct)
  case (start P s)
  then show ?case by (simp add: honest_def)
next
  case (more P s l s' l' s'')
  then have "synced P s'" "honest l" by blast+
  moreover from more this have "synced P s'' \<and> honest l'" by (intro act_synced)
  ultimately show ?case by (auto simp: honest_def)
qed

section \<open>Correctness\<close>

text \<open>
  C6: in every conversation of a freshly created active and passive ratchet (any number of messages in both directions, sent at any time, delivered in any order or lost, within the window of skipped messages, with stale chains excluded) each delivered message decrypts to exactly the plaintext that was encrypted.
\<close>

theorem conversation_correct:
  assumes "aesLaw P" and "hmacLaw P" and "dhLaw P"
    and "length sessKey = 32" and "length priv = 32"
    and "CreateActive P (RandOk f) sessKey ad (x25519_base P priv) = Inr alice"
    and "talk P (alice, CreatePassive sessKey ad (x25519_base P priv) priv, [], []) l s"
    and "(pt, r) \<in> set l"
  shows "r = Inr pt"
proof -
  have "created P alice (CreatePassive sessKey ad (x25519_base P priv) priv)"
    using assms(4-6) by (rule createdI)
  then have "synced P (alice, CreatePassive sessKey ad (x25519_base P priv) priv, [], [])" by simp
  with talk_synced [OF assms(1-3,7)] assms(8) show ?thesis by (auto simp: honest_def)
qed

text \<open>
  Delivery is never stuck: whatever has happened before, an admissible message can be delivered, and a
  ratchet that has room in its counters and a chain or a key of its peer can send.
\<close>

lemma paired_can_send:
  assumes "aesLaw P" and "hmacLaw P" and "dhLaw P" and "paired P x y qx qy"
    and "dr_sendNo x < 65536" and "dr_prevSendNo x < 65536"
  shows "\<exists>x' msg. Encrypt P rnd x pt = (x', Inr msg)"
proof -
  from assms(4) obtain ck where a: "dhAhead P (dr_dhr x) (dr_dhr y) ck" and s: "source P ck x qx"
    by (auto simp: paired_def leads_def)
  have "headerValid (sendHeader x)"
    using assms(3) dhAheadD(1) [OF a] by (rule sendHeader_valid)
      (use assms(4-6) s in \<open>auto simp: paired_def source_def sends_def\<close>)
  with assms(1,2) s show ?thesis by (metis source_send)
qed

lemma answers_can_send:
  assumes "aesLaw P" and "hmacLaw P" and "dhLaw P" and "paired P x y qx qy" and "dr_peerDhPub y \<noteq> []"
    and "dr_sendNo y < 65536" and "dr_prevSendNo y < 65536"
  shows "\<exists>y' msg. Encrypt P rnd y pt = (y', Inr msg)"
proof -
  from assms(4) obtain ck where a: "dhAhead P (dr_dhr x) (dr_dhr y) ck"
    by (auto simp: paired_def leads_def)
  from assms(4,5) obtain c where s: "source P c y qy" by (auto simp: paired_def answers_def silent_def)
  have "headerValid (sendHeader y)"
    using assms(3) dhAheadD(2) [OF a] by (rule sendHeader_valid)
      (use assms(4-7) s in \<open>auto simp: paired_def source_def sends_def\<close>)
  with assms(1,2) s show ?thesis by (metis source_send)
qed

lemma synced_can_send:
  assumes "aesLaw P" and "hmacLaw P" and "dhLaw P" and "synced P (x, y, qx, qy)"
    and "dr_peerDhPub x \<noteq> []" and "dr_sendNo x < 65536" and "dr_prevSendNo x < 65536"
  shows "\<exists>x' msg. Encrypt P rnd x pt = (x', Inr msg)"
proof -
  note laws = assms(1-3)
  from assms(4) consider "created P x y" | "created P y x"
    | "paired P x y qx qy" | "paired P y x qy qx" by auto
  then show ?thesis
  proof cases
    case 1
    with laws(3) obtain x1 where "dhStep P rnd x = (x1, None)" "paired P x1 y [] []"
      "dr_chainKeySend x = None" "dr_chainKeySend x1 \<noteq> None" "dr_sendNo x1 = 0" "dr_prevSendNo x1 = 0"
      by (rule created_step)
    with paired_can_send [OF laws, of x1 y "[]" "[]"] Encrypt_lazy show ?thesis by simp
  next
    case 2
    with assms(5) show ?thesis by (auto simp: created_def CreatePassive_def)
  qed (use paired_can_send [OF laws] answers_can_send [OF laws] assms(5-7) in blast)+
qed

text \<open>
  After any conversation a peer can still send: encryption of any plaintext succeeds for a ratchet that knows a key of its peer, as long as the numbers of its current and its previous chain fit the header.
\<close>

theorem conversation_can_send:
  assumes "aesLaw P" and "hmacLaw P" and "dhLaw P"
    and "length sessKey = 32" and "length priv = 32"
    and "CreateActive P (RandOk f) sessKey ad (x25519_base P priv) = Inr alice"
    and "talk P (alice, CreatePassive sessKey ad (x25519_base P priv) priv, [], []) l (x, y, qx, qy)"
    and "z = x \<or> z = y" and "dr_peerDhPub z \<noteq> []"
    and "dr_sendNo z < 65536" and "dr_prevSendNo z < 65536"
  shows "\<exists>z' msg. Encrypt P rnd z pt = (z', Inr msg)"
proof -
  have "created P alice (CreatePassive sessKey ad (x25519_base P priv) priv)"
    using assms(4-6) by (rule createdI)
  then have "synced P (alice, CreatePassive sessKey ad (x25519_base P priv) priv, [], [])" by simp
  with talk_synced [OF assms(1-3,7)] have s: "synced P (x, y, qx, qy)" by simp
  then have "synced P (y, x, qy, qx)" by (subst synced_swap)
  with s synced_can_send [OF assms(1-3)] assms(8-11) show ?thesis by blast
qed

text \<open>The first message of a session.\<close>

lemma first_send:
  assumes "aesLaw P" and "hmacLaw P" and "dhLaw P" and "created P a b"
  obtains a' msg where "Encrypt P rnd a pt = (a', Inr msg)" and "admissible a' b (headerOf msg)"
    and "paired P a' b [(pt, msg)] []" and "headerOf msg = sendHeader (a'\<lparr>dr_sendNo := 0\<rparr>)"
    and "dr_sendNo a' = 1" and "dr_prevSendNo a' = 0"
proof -
  from assms(3,4) obtain a1 where st: "dhStep P rnd a = (a1, None)" and p: "paired P a1 b [] []"
    and ck: "dr_chainKeySend a = None" "dr_chainKeySend a1 \<noteq> None"
    and z: "dr_sendNo a1 = 0" "dr_prevSendNo a1 = 0"
    by (rule created_step)
  from p obtain c where a: "dhAhead P (dr_dhr a1) (dr_dhr b) c" and so: "source P c a1 []"
    by (auto simp: paired_def leads_def)
  have "headerValid (sendHeader a1)"
    using assms(3) dhAheadD(1) [OF a] by (rule sendHeader_valid) (simp_all add: z)
  with assms(1,2) so obtain k msg where
    e: "Encrypt P rnd a1 pt = (a1\<lparr>dr_chainKeySend := k, dr_sendNo := dr_sendNo a1 + 1\<rparr>, Inr msg)"
    and h: "headerOf msg = sendHeader a1"
    by (rule source_send)
  let ?a = "a1\<lparr>dr_chainKeySend := k, dr_sendNo := dr_sendNo a1 + 1\<rparr>"
  have "0 \<le> dr_recvNo b" using p by (simp add: paired_def hears_def)
  then have ad: "admissible ?a b (headerOf msg)"
    using p z h by (simp add: admissible_def paired_def sendHeader_def maxSkipElements_def)
  have en: "Encrypt P rnd a pt = (?a, Inr msg)" using Encrypt_lazy [OF ck(1) st ck(2)] e by simp
  have pa: "paired P ?a b [(pt, msg)] []" using paired_left_send [OF assms(1-3) p e] by simp
  have "headerOf msg = sendHeader (?a\<lparr>dr_sendNo := 0\<rparr>)" by (simp add: h sendHeader_def z)
  with en ad pa show thesis by (rule that) (simp_all add: z)
qed

lemma first_message:
  assumes "aesLaw P" and "hmacLaw P" and "dhLaw P" and "created P a b" and "freshKey P f b []"
  shows "\<exists>r s. talk P (a, b, [], []) [(pt, r)] s"
proof -
  from assms(1-4) obtain a' msg where e: "Encrypt P rnd a pt = (a', Inr msg)"
    and ad: "admissible a' b (headerOf msg)"
    by (rule first_send)
  obtain b' r where d: "Decrypt P (RandOk f) b msg = (b', r)" by fastforce
  have "act P (a, b, [], []) [] (a', b, [] @ [(pt, msg)], [])" using e by (rule act.send)
  with talk.start have "talk P (a, b, [], []) ([] @ []) (a', b, [] @ [(pt, msg)], [])"
    by (rule talk.more)
  moreover have "act P (a', b, [] @ (pt, msg) # [], []) [(pt, r)] (a', b', [] @ [], [])"
    using ad assms(5) d by (rule act.deliver)
  ultimately have "talk P (a, b, [], []) (([] @ []) @ [(pt, r)]) (a', b', [] @ [], [])"
    using talk.more by fastforce
  then show ?thesis unfolding append_Nil by blast
qed

text \<open>The counters after the next message of a chain, and after the first message of a new chain.\<close>

lemma decryptMsgKey_next:
  assumes "decryptMsgKey P y h = (y', Inr k)" and "h_msgNo h = dr_recvNo y"
  shows "\<exists>ck. y' = y\<lparr>dr_chainKeyRecv := ck, dr_recvNo := dr_recvNo y + 1\<rparr>"
  using assms by (auto simp: decryptMsgKey_def nextMsgKey_def split: sum.splits)

lemma Decrypt_parts:
  assumes "Decrypt P rnd y msg = (y', Inr pt)"
  obtains y1 k where "decryptRatchet P rnd y (headerOf msg) = (y1, None)"
    and "decryptMsgKey P y1 (headerOf msg) = (y', Inr k)"
  using assms that by (auto simp: Decrypt_eq headerOf_def split: if_splits sum.splits prod.splits option.splits)

lemma Decrypt_next:
  assumes "Decrypt P rnd y msg = (y', Inr pt)" and "h_dhPub (headerOf msg) = dr_peerDhPub y"
    and "h_msgNo (headerOf msg) = dr_recvNo y"
  shows "\<exists>ck. y' = y\<lparr>dr_chainKeyRecv := ck, dr_recvNo := dr_recvNo y + 1\<rparr>"
proof -
  obtain y1 k where r: "decryptRatchet P rnd y (headerOf msg) = (y1, None)"
    and d: "decryptMsgKey P y1 (headerOf msg) = (y', Inr k)"
    using assms(1) by (rule Decrypt_parts)
  from r assms(2) have "y1 = y" by (simp add: decryptRatchet_def)
  with decryptMsgKey_next [OF d] assms(3) show ?thesis by simp
qed

lemma Decrypt_first:
  assumes "Decrypt P rnd y msg = (y', Inr pt)" and "h_dhPub (headerOf msg) \<noteq> dr_peerDhPub y"
    and "h_msgNo (headerOf msg) = 0"
  shows "dr_recvNo y' = 1 \<and> dr_sendNo y' = 0 \<and> dr_peerDhPub y' = h_dhPub (headerOf msg)"
proof -
  obtain y1 k where r: "decryptRatchet P rnd y (headerOf msg) = (y1, None)"
    and d: "decryptMsgKey P y1 (headerOf msg) = (y', Inr k)"
    using assms(1) by (rule Decrypt_parts)
  from r assms(2) have "dr_recvNo y1 = 0 \<and> dr_sendNo y1 = 0 \<and> dr_peerDhPub y1 = h_dhPub (headerOf msg)"
    by (auto simp: decryptRatchet_def dhStep_def Let_def split: prod.splits option.splits)
  with decryptMsgKey_next [OF d] assms(3) show ?thesis by auto
qed

lemma first_exchange:
  assumes "aesLaw P" and "hmacLaw P" and "dhLaw P" and "created P a b" and "freshKey P f b []"
  obtains a' msg b' where "Encrypt P rnd a pt = (a', Inr msg)"
    and "Decrypt P (RandOk f) b msg = (b', Inr pt)" and "paired P b' a' [] []"
    and "dr_sendNo a' = 1" and "dr_prevSendNo a' = 0" and "dr_recvNo b' = 1" and "dr_sendNo b' = 0"
proof -
  from assms(1-4) obtain a' msg where e: "Encrypt P rnd a pt = (a', Inr msg)"
    and p: "paired P a' b [(pt, msg)] []" and h: "headerOf msg = sendHeader (a'\<lparr>dr_sendNo := 0\<rparr>)"
    and z: "dr_sendNo a' = 1" "dr_prevSendNo a' = 0"
    by (rule first_send)
  have "0 \<le> dr_recvNo b" using p by (simp add: paired_def hears_def)
  with h z have n: "h_dhPub (headerOf msg) = r_dhPub (dr_dhr a')"
    "h_prevNo (headerOf msg) \<le> dr_recvNo b + maxSkipElements" "h_msgNo (headerOf msg) \<le> maxSkipElements"
    by (simp_all add: sendHeader_def maxSkipElements_def)
  have f: "x25519_base P (map f [0..<32]) \<noteq> r_dhPub (dr_dhr b)"
    "ofChain (x25519_base P (map f [0..<32])) [] = []"
    using assms(5) by (simp_all add: freshKey_def Let_def)
  have "paired P a' b ([] @ (pt, msg) # []) []" using p by simp
  from paired_left_new [OF assms(1-3) this n f] obtain b' where
    d: "Decrypt P (RandOk f) b msg = (b', Inr pt)" and b': "paired P b' a' [] []" by auto
  have "h_dhPub (headerOf msg) \<noteq> dr_peerDhPub b" using p n(1) by (simp add: paired_def)
  with Decrypt_first [OF d] h have "dr_recvNo b' = 1" "dr_sendNo b' = 0" by (simp_all add: sendHeader_def)
  with e d b' z show thesis by (rule that)
qed

text \<open>The peer that was answered can go on sending, and what it sends is admissible.\<close>

lemma answered_send:
  assumes "aesLaw P" and "hmacLaw P" and "dhLaw P" and "paired P y x [] []"
    and "dr_sendNo x \<noteq> 0" and "dr_sendNo x \<le> 32" and "dr_prevSendNo x < 65536"
  obtains x' msg where "Encrypt P rnd x pt = (x', Inr msg)" and "admissible x' y (headerOf msg)"
proof -
  from assms(4) obtain ck where a: "dhAhead P (dr_dhr y) (dr_dhr x) ck"
    by (auto simp: paired_def leads_def)
  from assms(4,5) obtain c where s: "source P c x []" and r: "sink P c y []"
    by (auto simp: paired_def answers_def silent_def)
  have "headerValid (sendHeader x)"
    using assms(3) dhAheadD(2) [OF a] by (rule sendHeader_valid)
      (use assms(4-7) s in \<open>auto simp: paired_def source_def sends_def\<close>)
  with assms(1,2) s obtain k msg where
    e: "Encrypt P rnd x pt = (x\<lparr>dr_chainKeySend := k, dr_sendNo := dr_sendNo x + 1\<rparr>, Inr msg)"
    and h: "headerOf msg = sendHeader x"
    by (rule source_send)
  have "0 \<le> dr_recvNo y" using r by (auto simp: sink_def receives_def)
  then have "admissible (x\<lparr>dr_chainKeySend := k, dr_sendNo := dr_sendNo x + 1\<rparr>) y (headerOf msg)"
    using assms(4,6) h by (simp add: admissible_def paired_def sendHeader_def maxSkipElements_def)
  with e show thesis by (rule that)
qed

text \<open>Concrete peers for the witnesses.\<close>

definition demoBob :: doubleRatchet where
  "demoBob = CreatePassive (replicate 32 1) [9] (x25519_base demo (replicate 32 2)) (replicate 32 2)"

lemma demo_alice:
  obtains alice where
    "CreateActive demo (RandOk (\<lambda>_. 3)) (replicate 32 1) [9] (x25519_base demo (replicate 32 2)) = Inr alice"
    and "created demo alice demoBob" and "dr_peerDhPub alice \<noteq> []"
    and "dr_sendNo alice = 0" and "dr_prevSendNo alice = 0"
proof -
  obtain alice where a: "CreateActive demo (RandOk (\<lambda>_. 3)) (replicate 32 1) [9]
      (x25519_base demo (replicate 32 2)) = Inr alice"
    by (simp add: CreateActive_def dhRatchetActive_def dhKeyPair_ok)
  moreover from a have "created demo alice demoBob" unfolding demoBob_def by (intro createdI) simp_all
  moreover from a have "dr_peerDhPub alice \<noteq> []" "dr_sendNo alice = 0" "dr_prevSendNo alice = 0"
    by (auto simp: CreateActive_def dhRatchetActive_def dhKeyPair_ok demo_def)
  ultimately show thesis by (rule that)
qed

lemma demo_fresh: "freshKey demo (\<lambda>_. 4) demoBob []"
  by (simp add: freshKey_def demoBob_def CreatePassive_def dhRatchetPassive_def demo_def
      map_replicate_const)

theorem conversation_correct_witness:
  "\<exists>alice r s.
    CreateActive demo (RandOk (\<lambda>_. 3)) (replicate 32 1) [9] (x25519_base demo (replicate 32 2)) = Inr alice
    \<and> talk demo (alice, CreatePassive (replicate 32 1) [9] (x25519_base demo (replicate 32 2))
        (replicate 32 2), [], []) [([72, 105], r)] s
    \<and> r = Inr [72, 105]"
proof -
  obtain alice where a: "CreateActive demo (RandOk (\<lambda>_. 3)) (replicate 32 1) [9]
      (x25519_base demo (replicate 32 2)) = Inr alice" and c: "created demo alice demoBob"
    by (rule demo_alice)
  obtain r s where t: "talk demo (alice, demoBob, [], []) [([72, 105], r)] s"
    using first_message [OF demo_laws(3,2,1) c demo_fresh] by blast
  have l: "length (replicate 32 1 :: bytes) = 32" "length (replicate 32 2 :: bytes) = 32" by simp_all
  have "r = Inr [72, 105]"
    by (rule conversation_correct [OF demo_laws(3,2,1) l a t [unfolded demoBob_def]]) simp
  with a t show ?thesis unfolding demoBob_def by blast
qed

theorem conversation_can_send_witness:
  "\<exists>alice alice' msg.
    CreateActive demo (RandOk (\<lambda>_. 3)) (replicate 32 1) [9] (x25519_base demo (replicate 32 2)) = Inr alice
    \<and> dr_peerDhPub alice \<noteq> [] \<and> Encrypt demo (RandOk (\<lambda>_. 0)) alice [72, 105] = (alice', Inr msg)"
proof -
  obtain alice where a: "CreateActive demo (RandOk (\<lambda>_. 3)) (replicate 32 1) [9]
      (x25519_base demo (replicate 32 2)) = Inr alice"
    and p: "dr_peerDhPub alice \<noteq> []" "dr_sendNo alice = 0" "dr_prevSendNo alice = 0"
    by (rule demo_alice)
  have l: "length (replicate 32 1 :: bytes) = 32" "length (replicate 32 2 :: bytes) = 32" by simp_all
  have "\<exists>z' msg. Encrypt demo (RandOk (\<lambda>_. 0)) alice [72, 105] = (z', Inr msg)"
    by (rule conversation_can_send [OF demo_laws(3,2,1) l a talk.start]) (simp_all add: p)
  with a p show ?thesis by blast
qed

end
