(* ===== verification/RatchetSafety.thy ===== *)
theory RatchetSafety
  imports Conversation
begin

text \<open>
  What holds of a double ratchet whatever its peer or an attacker sends: the invariant of every
  reachable state, the absence of panics, the limits on skipping and on message numbers, and the
  treatment of replayed and of delayed messages.
\<close>

section \<open>Reachable states\<close>

text \<open>The states of a ratchet after any calls, \<open>n\<close> of them calls of \<open>Encrypt\<close>.\<close>

inductive reachable :: "prims \<Rightarrow> nat \<Rightarrow> doubleRatchet \<Rightarrow> bool" for P where
  create_active: "CreateActive P rnd sessKey ad peerDhPub = Inr dr \<Longrightarrow> reachable P 0 dr"
| create_passive: "reachable P 0 (CreatePassive sessKey ad dhPub dhPriv)"
| encrypts: "reachable P n dr \<Longrightarrow> Encrypt P rnd dr pt = (dr', r) \<Longrightarrow> reachable P (Suc n) dr'"
| decrypts: "reachable P n dr \<Longrightarrow> Decrypt P rnd dr msg = (dr', r) \<Longrightarrow> reachable P n dr'"

text \<open>
  Counters are never negative, the receiving counter fits the header, and the key buffer is
  well formed.
\<close>

definition drInv :: "doubleRatchet \<Rightarrow> bool" where
  "drInv dr \<longleftrightarrow> kbInv (dr_msgKeyBuffer dr) \<and> 0 \<le> dr_sendNo dr \<and> 0 \<le> dr_prevSendNo dr
     \<and> 0 \<le> dr_recvNo dr \<and> dr_recvNo dr \<le> 65536"

lemma dhStep_inv: "drInv dr \<Longrightarrow> dhStep P rnd dr = (dr', e) \<Longrightarrow> drInv dr'"
  by (auto simp: dhStep_def drInv_def Let_def split: prod.splits)

lemma skipLoop_inv:
  "drInv dr \<Longrightarrow> until \<le> 65536 \<Longrightarrow> skipLoop P dr until = (dr', e) \<Longrightarrow> drInv dr'"
proof (induction P dr until rule: skipLoop.induct)
  case (1 P dr until)
  show ?case
  proof (cases "dr_recvNo dr < until")
    case False
    with "1.prems" show ?thesis by (simp add: skipLoop_stop)
  next
    case True
    show ?thesis
    proof (cases "chainKdf P (deref (dr_chainKeyRecv dr))")
      case (Inl x)
      with True "1.prems" show ?thesis by (auto simp: skipLoop.simps [of P dr] drInv_def)
    next
      case (Inr km)
      obtain ck mk where km: "km = (ck, mk)" by fastforce
      let ?dr = "dr\<lparr>dr_chainKeyRecv := Some ck, dr_msgKeyBuffer :=
          insertKey (dr_msgKeyBuffer dr) (dr_peerDhPub dr) (dr_recvNo dr) mk, dr_recvNo := dr_recvNo dr + 1\<rparr>"
      have "skipLoop P ?dr until = (dr', e)"
        using True Inr km "1.prems"(3) by (simp add: skipLoop.simps [of P dr])
      moreover have "drInv ?dr" using "1.prems" True by (simp add: drInv_def insertKey_inv)
      ultimately show ?thesis using "1.IH" [OF True Inr km [symmetric]] "1.prems"(2) by blast
    qed
  qed
qed

lemma skipMsgKeys_inv:
  "drInv dr \<Longrightarrow> until \<le> 65536 \<Longrightarrow> skipMsgKeys P dr until = (dr', e) \<Longrightarrow> drInv dr'"
  by (auto simp: skipMsgKeys_def skipLoop_inv split: if_splits)

lemma decryptRatchet_inv:
  assumes "drInv dr" and "headerValid h" and "decryptRatchet P rnd dr h = (dr', e)"
  shows "drInv dr'"
proof -
  have "h_prevNo h \<le> 65536" using assms(2) by (simp add: headerValid_def)
  then have "drInv d" if "skipMsgKeys P dr (h_prevNo h) = (d, x)" for d x
    using skipMsgKeys_inv assms(1) that by blast
  moreover have "drInv (d\<lparr>dr_peerDhPub := p\<rparr>) = drInv d" for d p by (simp add: drInv_def)
  ultimately show ?thesis
    using assms(1,3) by (auto simp: decryptRatchet_def split: if_splits prod.splits option.splits dest: dhStep_inv)
qed

text \<open>The receiving counter after \<open>skipMsgKeys\<close> that succeeds on a chain.\<close>

lemma skipLoop_recvNo:
  "skipLoop P dr until = (dr', None) \<Longrightarrow> dr_recvNo dr' = max (dr_recvNo dr) until"
proof (induction P dr until rule: skipLoop.induct)
  case (1 P dr until)
  then show ?case
    by (cases "dr_recvNo dr < until")
      (auto simp: skipLoop_stop skipLoop.simps [of P dr] split: sum.splits)
qed

lemma nextMsgKey_inv:
  "drInv dr \<Longrightarrow> dr_recvNo dr < 65536 \<Longrightarrow> nextMsgKey P dr = (dr', r) \<Longrightarrow> drInv dr'"
  by (auto simp: nextMsgKey_def drInv_def split: sum.splits)

lemma decryptMsgKey_inv:
  assumes "drInv dr" and "headerValid h" and "decryptMsgKey P dr h = (dr', r)"
  shows "drInv dr'"
proof -
  let ?n = "h_msgNo h"
  have n: "?n < 65536" using assms(2) by (simp add: headerValid_def)
  consider "?n < dr_recvNo dr" | "?n = dr_recvNo dr" | "?n > dr_recvNo dr" by linarith
  then show ?thesis
  proof cases
    case 1
    with assms show ?thesis by (simp add: decryptMsgKey_def)
  next
    case 2
    with assms n nextMsgKey_inv show ?thesis by (simp add: decryptMsgKey_def)
  next
    case 3
    obtain d x where s: "skipMsgKeys P dr ?n = (d, x)" by fastforce
    have d: "drInv d" using assms(1) _ s by (rule skipMsgKeys_inv) (use n in simp)
    show ?thesis
    proof (cases x)
      case None
      with s n 3 have "dr_recvNo d < 65536"
        by (auto simp: skipMsgKeys_def split: if_splits dest: skipLoop_recvNo)
      with d None s 3 assms(3) nextMsgKey_inv show ?thesis by (simp add: decryptMsgKey_def)
    next
      case (Some e)
      with d s 3 assms(3) show ?thesis by (simp add: decryptMsgKey_def)
    qed
  qed
qed

lemma CreateActive_inv: "CreateActive P rnd sk ad p = Inr dr \<Longrightarrow> drInv dr"
  by (auto simp: CreateActive_def drInv_def kbInv_new split: prod.splits option.splits)

lemma CreatePassive_inv: "drInv (CreatePassive sk ad pub priv)"
  by (simp add: CreatePassive_def drInv_def kbInv_new)

lemma drInv_sent: "drInv dr \<Longrightarrow> drInv (dr\<lparr>dr_chainKeySend := ck, dr_sendNo := dr_sendNo dr + 1\<rparr>)"
  by (simp add: drInv_def)

lemma drInv_chainKeySend: "drInv (dr\<lparr>dr_chainKeySend := ck\<rparr>) = drInv dr"
  by (simp add: drInv_def)

lemma Encrypt_inv:
  assumes "drInv dr" and "Encrypt P rnd dr pt = (dr', r)"
  shows "drInv dr'"
proof -
  obtain d e where st: "(if dr_chainKeySend dr = None then dhStep P rnd dr else (dr, None)) = (d, e)"
    by fastforce
  then have "drInv d" using assms(1) dhStep_inv by (auto split: if_splits)
  with assms(2) st show ?thesis
    by (auto simp: Encrypt_def Let_def drInv_sent drInv_chainKeySend
        split: option.splits sum.splits prod.splits)
qed

lemma Decrypt_inv:
  assumes "drInv dr" and "Decrypt P rnd dr msg = (dr', r)"
  shows "drInv dr'"
proof (cases "length msg \<le> headerLen")
  case True
  with assms show ?thesis by (simp add: Decrypt_eq)
next
  case False
  then obtain h where h: "parseHeader (take headerLen msg) = Inr h"
    using parseHeader_total [of "take headerLen msg"] by auto
  then have v: "headerValid h" by (rule parseHeader_valid)
  from False h assms(2) show ?thesis
    using decryptRatchet_inv [OF assms(1) v] decryptMsgKey_inv [OF _ v] assms(1)
    by (fastforce simp: Decrypt_eq split: prod.splits option.splits sum.splits)
qed

lemma reachable_inv: "reachable P n dr \<Longrightarrow> drInv dr"
  by (induction rule: reachable.induct)
    (blast intro: CreateActive_inv CreatePassive_inv Encrypt_inv Decrypt_inv)+

section \<open>The sending counters\<close>

text \<open>A sending counter counts calls: every call of \<open>Encrypt\<close> adds at most one to it, nothing else raises it.\<close>

definition sendBound :: "int \<Rightarrow> doubleRatchet \<Rightarrow> bool" where
  "sendBound n dr \<longleftrightarrow> 0 \<le> n \<and> dr_sendNo dr \<le> n \<and> dr_prevSendNo dr \<le> n"

lemma dhStep_sendBound: "sendBound n dr \<Longrightarrow> dhStep P rnd dr = (dr', e) \<Longrightarrow> sendBound n dr'"
  by (auto simp: dhStep_def sendBound_def Let_def split: prod.splits)

lemma skipLoop_sendBound: "sendBound n dr \<Longrightarrow> sendBound n (fst (skipLoop P dr until))"
proof (induction P dr until rule: skipLoop.induct)
  case (1 P dr until)
  then show ?case
    by (cases "dr_recvNo dr < until")
      (auto simp: skipLoop_stop skipLoop.simps [of P dr] sendBound_def split: sum.split)
qed

lemma skipMsgKeys_sendBound: "sendBound n dr \<Longrightarrow> skipMsgKeys P dr until = (dr', e) \<Longrightarrow> sendBound n dr'"
  using skipLoop_sendBound [of n dr P until] by (auto simp: skipMsgKeys_def split: if_splits)

lemma decryptRatchet_sendBound: "sendBound n dr \<Longrightarrow> decryptRatchet P rnd dr h = (dr', e) \<Longrightarrow> sendBound n dr'"
proof -
  have "sendBound n (d\<lparr>dr_peerDhPub := p\<rparr>) = sendBound n d" for d p by (simp add: sendBound_def)
  then show "sendBound n dr \<Longrightarrow> decryptRatchet P rnd dr h = (dr', e) \<Longrightarrow> sendBound n dr'"
    by (auto simp: decryptRatchet_def split: if_splits prod.splits option.splits
        dest: skipMsgKeys_sendBound dhStep_sendBound)
qed

lemma nextMsgKey_sendBound: "sendBound n dr \<Longrightarrow> nextMsgKey P dr = (dr', r) \<Longrightarrow> sendBound n dr'"
  by (auto simp: nextMsgKey_def sendBound_def split: sum.splits)

lemma decryptMsgKey_sendBound: "sendBound n dr \<Longrightarrow> decryptMsgKey P dr h = (dr', r) \<Longrightarrow> sendBound n dr'"
  by (auto simp: decryptMsgKey_def split: if_splits prod.splits option.splits
      dest: skipMsgKeys_sendBound nextMsgKey_sendBound)

lemma Decrypt_sendBound: "sendBound n dr \<Longrightarrow> Decrypt P rnd dr msg = (dr', r) \<Longrightarrow> sendBound n dr'"
  by (auto simp: Decrypt_eq split: if_splits sum.splits prod.splits option.splits
      dest: decryptRatchet_sendBound decryptMsgKey_sendBound)

lemma Encrypt_sendBound:
  assumes "sendBound n dr" and "Encrypt P rnd dr pt = (dr', r)"
  shows "sendBound (n + 1) dr'"
proof -
  obtain d e where st: "(if dr_chainKeySend dr = None then dhStep P rnd dr else (dr, None)) = (d, e)"
    by fastforce
  then have "sendBound n d" using assms(1) dhStep_sendBound by (auto split: if_splits)
  then have "sendBound (n + 1) d" "sendBound (n + 1) (d\<lparr>dr_chainKeySend := ck\<rparr>)"
    "sendBound (n + 1) (d\<lparr>dr_chainKeySend := ck, dr_sendNo := dr_sendNo d + 1\<rparr>)" for ck
    by (auto simp: sendBound_def)
  with assms(2) st show ?thesis
    by (auto simp: Encrypt_def Let_def split: option.splits sum.splits prod.splits)
qed

lemma reachable_sendBound: "reachable P n dr \<Longrightarrow> sendBound (int n) dr"
proof (induction rule: reachable.induct)
  case (create_active rnd sessKey ad peerDhPub dr)
  then show ?case by (auto simp: CreateActive_def sendBound_def split: prod.splits option.splits)
next
  case (create_passive sessKey ad dhPub dhPriv)
  show ?case by (simp add: CreatePassive_def sendBound_def)
next
  case (encrypts n dr rnd pt dr' r)
  then show ?case using Encrypt_sendBound [of "int n" dr] by (simp add: add.commute)
next
  case (decrypts n dr rnd msg dr' r)
  then show ?case using Decrypt_sendBound by blast
qed

section \<open>No panics\<close>

abbreviation panics :: "err option \<Rightarrow> bool" where
  "panics e \<equiv> (\<exists>s. e = Some (Panic s))"

lemma dh_no_panic: "dh P a b \<noteq> Inl (Panic s)"
  by (auto simp: dh_def split: option.splits)

lemma rootKdf_no_panic: "rootKdf P a b \<noteq> Inl (Panic s)"
  by (auto simp: rootKdf_def readFull_def Let_def)

lemma chainKdf_no_panic: "chainKdf P a \<noteq> Inl (Panic s)"
  by (simp add: chainKdf_def)

lemma dhKeyPair_no_panic: "dhKeyPair P rnd = (a, b, e) \<Longrightarrow> \<not> panics e"
  by (cases rnd) (auto simp: dhKeyPair_def)

lemma step_no_panic: "step P rnd r p = (r', (a, b, c, e)) \<Longrightarrow> \<not> panics e"
  by (auto simp: step_def stepInitial_def stepProceed_def Let_def dh_no_panic rootKdf_no_panic
      split: if_splits sum.splits prod.splits option.splits dest: dhKeyPair_no_panic)

lemma dhStep_no_panic: "dhStep P rnd dr = (dr', e) \<Longrightarrow> \<not> panics e"
  by (auto simp: dhStep_def Let_def split: prod.splits dest: step_no_panic)

lemma skipLoop_no_panic: "skipLoop P dr until \<noteq> (dr', Some (Panic s))"
proof (induction P dr until rule: skipLoop.induct)
  case (1 P dr until)
  then show ?case
    by (cases "dr_recvNo dr < until")
      (auto simp: skipLoop_stop skipLoop.simps [of P dr] chainKdf_no_panic split: sum.splits)
qed

lemma skipMsgKeys_no_panic: "skipMsgKeys P dr until = (dr', e) \<Longrightarrow> \<not> panics e"
  by (auto simp: skipMsgKeys_def skipLoop_no_panic split: if_splits)

lemma decryptRatchet_no_panic: "decryptRatchet P rnd dr h = (dr', e) \<Longrightarrow> \<not> panics e"
  by (auto simp: decryptRatchet_def split: if_splits prod.splits option.splits
      dest: skipMsgKeys_no_panic dhStep_no_panic)

lemma decryptMsgKey_no_panic: "decryptMsgKey P dr h = (dr', r) \<Longrightarrow> r \<noteq> Inl (Panic s)"
  by (auto simp: decryptMsgKey_def nextMsgKey_def KeyBuff.find_def chainKdf_no_panic
      split: if_splits prod.splits option.splits sum.splits dest: skipMsgKeys_no_panic)

lemma Encrypt_no_panic: "\<not> isPanic (snd (Encrypt P rnd dr pt))"
proof -
  obtain d e where st: "(if dr_chainKeySend dr = None then dhStep P rnd dr else (dr, None)) = (d, e)"
    by fastforce
  then have "\<not> panics e" by (auto split: if_splits dest: dhStep_no_panic)
  moreover have "\<not> isPanic (encrypt P mk pt ad)" for mk ad by (rule encrypt_never_panics)
  ultimately show ?thesis
    using st by (auto simp: Encrypt_def Let_def isPanic_iff chainKdf_no_panic marshal_def
        split: option.splits sum.splits prod.splits if_splits)
qed

lemma Decrypt_no_panic: "\<not> isPanic (snd (Decrypt P rnd dr msg))"
proof -
  have "\<not> isPanic (decrypt P mk c ad)" for mk c ad by (rule decrypt_never_panics)
  then show ?thesis
    by (auto simp: Decrypt_eq isPanic_iff parseHeader_eq
        split: prod.splits option.splits sum.splits
        dest: decryptRatchet_no_panic decryptMsgKey_no_panic)
qed

section \<open>Exhausted chains\<close>

text \<open>The results of a sequence of encryptions, with the random input of each call.\<close>

fun encryptAll :: "prims \<Rightarrow> doubleRatchet \<Rightarrow> (entropy \<times> bytes) list \<Rightarrow> bytes result list" where
  "encryptAll P dr [] = []"
| "encryptAll P dr ((rnd, pt) # ps) = (case Encrypt P rnd dr pt of (dr', r) \<Rightarrow> r # encryptAll P dr' ps)"

definition exhausted :: "doubleRatchet \<Rightarrow> bool" where
  "exhausted dr \<longleftrightarrow> (\<exists>ck. dr_chainKeySend dr = Some ck \<and> length ck = 32)
     \<and> (65536 \<le> dr_sendNo dr \<or> 65536 \<le> dr_prevSendNo dr)"

lemma Encrypt_exhausted:
  assumes "hmacLaw P" and "exhausted dr"
  shows "\<exists>dr'. Encrypt P rnd dr pt = (dr', Inl ErrHeaderNumbers) \<and> exhausted dr'"
  using assms
  by (auto simp: exhausted_def Encrypt_def chainKdf_ok marshal_def hmac_length Let_def)

lemma encryptAll_exhausted:
  assumes "hmacLaw P"
  shows "exhausted dr \<Longrightarrow> encryptAll P dr ps = replicate (length ps) (Inl ErrHeaderNumbers)"
proof (induction ps arbitrary: dr)
  case Nil
  then show ?case by simp
next
  case (Cons p ps)
  obtain rnd pt where p: "p = (rnd, pt)" by fastforce
  obtain dr' where "Encrypt P rnd dr pt = (dr', Inl ErrHeaderNumbers)" "exhausted dr'"
    using Encrypt_exhausted [OF assms Cons.prems] by blast
  with Cons.IH show ?case by (simp add: p)
qed

section \<open>Cached keys of earlier chains\<close>

text \<open>Two ratchets that differ at most in their key buffers.\<close>

definition sameBut :: "doubleRatchet \<Rightarrow> doubleRatchet \<Rightarrow> bool" where
  "sameBut d d' \<longleftrightarrow> d\<lparr>dr_msgKeyBuffer := newKeyBuffer\<rparr> = d'\<lparr>dr_msgKeyBuffer := newKeyBuffer\<rparr>"

lemma sameBut_fields:
  assumes "sameBut d d'"
  shows "dr_associatedData d = dr_associatedData d'" "dr_dhr d = dr_dhr d'"
    "dr_peerDhPub d = dr_peerDhPub d'" "dr_chainKeySend d = dr_chainKeySend d'"
    "dr_chainKeyRecv d = dr_chainKeyRecv d'" "dr_sendNo d = dr_sendNo d'"
    "dr_recvNo d = dr_recvNo d'" "dr_prevSendNo d = dr_prevSendNo d'"
  using assms by (cases d; cases d'; simp add: sameBut_def)+

lemma sameButI:
  "dr_associatedData d = dr_associatedData d' \<Longrightarrow> dr_dhr d = dr_dhr d'
    \<Longrightarrow> dr_peerDhPub d = dr_peerDhPub d' \<Longrightarrow> dr_chainKeySend d = dr_chainKeySend d'
    \<Longrightarrow> dr_chainKeyRecv d = dr_chainKeyRecv d' \<Longrightarrow> dr_sendNo d = dr_sendNo d'
    \<Longrightarrow> dr_recvNo d = dr_recvNo d' \<Longrightarrow> dr_prevSendNo d = dr_prevSendNo d' \<Longrightarrow> sameBut d d'"
  by (cases d; cases d'; simp add: sameBut_def)

definition alike :: "doubleRatchet \<times> 'e \<Rightarrow> doubleRatchet \<times> 'e \<Rightarrow> bool" where
  "alike p q \<longleftrightarrow> sameBut (fst p) (fst q) \<and> snd p = snd q"

lemma skipLoop_alike: "sameBut d d' \<Longrightarrow> alike (skipLoop P d until) (skipLoop P d' until)"
proof (induction P d until arbitrary: d' rule: skipLoop.induct)
  case (1 P d until)
  note f = sameBut_fields [OF "1.prems"]
  show ?case
  proof (cases "dr_recvNo d < until \<and> (\<exists>km. chainKdf P (deref (dr_chainKeyRecv d)) = Inr km)")
    case True
    then obtain ck mk where k: "chainKdf P (deref (dr_chainKeyRecv d)) = Inr (ck, mk)" by fastforce
    have "sameBut (d\<lparr>dr_chainKeyRecv := Some ck, dr_msgKeyBuffer := insertKey (dr_msgKeyBuffer d)
        (dr_peerDhPub d) (dr_recvNo d) mk, dr_recvNo := dr_recvNo d + 1\<rparr>)
      (d'\<lparr>dr_chainKeyRecv := Some ck, dr_msgKeyBuffer := insertKey (dr_msgKeyBuffer d')
        (dr_peerDhPub d') (dr_recvNo d') mk, dr_recvNo := dr_recvNo d' + 1\<rparr>)"
      by (rule sameButI) (simp_all add: f)
    from "1.IH" [OF _ k refl this] True k f show ?thesis
      by (simp add: skipLoop.simps [of P d] skipLoop.simps [of P d'])
  next
    case False
    then show ?thesis
      using f by (auto simp: skipLoop.simps [of P d] skipLoop.simps [of P d'] alike_def
          intro!: sameButI split: sum.splits)
  qed
qed

lemma skipMsgKeys_alike: "sameBut d d' \<Longrightarrow> alike (skipMsgKeys P d until) (skipMsgKeys P d' until)"
  by (simp add: skipMsgKeys_def sameBut_fields skipLoop_alike) (simp add: alike_def sameBut_fields)

lemma skipMsgKeys_alikeE:
  assumes "sameBut d d'"
  obtains d1 d1' e where "skipMsgKeys P d until = (d1, e)" and "skipMsgKeys P d' until = (d1', e)"
    and "sameBut d1 d1'"
  using skipMsgKeys_alike [OF assms, of P until] that
  by (cases "skipMsgKeys P d until"; cases "skipMsgKeys P d' until") (simp add: alike_def)

lemma dhStep_alike: "sameBut d d' \<Longrightarrow> alike (dhStep P rnd d) (dhStep P rnd d')"
  by (auto simp: dhStep_def Let_def alike_def sameBut_fields split: prod.splits intro!: sameButI)

lemma nextMsgKey_alike: "sameBut d d' \<Longrightarrow> alike (nextMsgKey P d) (nextMsgKey P d')"
  by (auto simp: nextMsgKey_def alike_def sameBut_fields split: sum.splits prod.splits intro!: sameButI)

lemma dhStep_recvNo: "dhStep P rnd dr = (dr', e) \<Longrightarrow> dr_recvNo dr' = 0"
  by (auto simp: dhStep_def Let_def split: prod.splits)

lemma decryptRatchet_alike:
  assumes "sameBut d d'" and "h_dhPub h \<noteq> dr_peerDhPub d"
  shows "alike (decryptRatchet P rnd d h) (decryptRatchet P rnd d' h)"
proof -
  obtain d1 d1' e where s: "skipMsgKeys P d (h_prevNo h) = (d1, e)" "skipMsgKeys P d' (h_prevNo h) = (d1', e)"
    and a: "sameBut d1 d1'"
    using assms(1) by (rule skipMsgKeys_alikeE)
  from a have "sameBut (d1\<lparr>dr_peerDhPub := h_dhPub h\<rparr>) (d1'\<lparr>dr_peerDhPub := h_dhPub h\<rparr>)"
    by (intro sameButI) (simp_all add: sameBut_fields)
  then have "alike (dhStep P rnd (d1\<lparr>dr_peerDhPub := h_dhPub h\<rparr>)) (dhStep P rnd (d1'\<lparr>dr_peerDhPub := h_dhPub h\<rparr>))"
    by (rule dhStep_alike)
  with a s assms show ?thesis
    by (cases e) (simp_all add: decryptRatchet_def sameBut_fields alike_def)
qed

lemma decryptRatchet_recvNo:
  "decryptRatchet P rnd d h = (d', None) \<Longrightarrow> h_dhPub h \<noteq> dr_peerDhPub d \<Longrightarrow> dr_recvNo d' = 0"
  by (auto simp: decryptRatchet_def split: prod.splits option.splits dest: dhStep_recvNo)

lemma decryptMsgKey_alike:
  assumes "sameBut d d'" and "dr_recvNo d \<le> h_msgNo h"
  shows "alike (decryptMsgKey P d h) (decryptMsgKey P d' h)"
proof -
  obtain d1 d1' e where s: "skipMsgKeys P d (h_msgNo h) = (d1, e)" "skipMsgKeys P d' (h_msgNo h) = (d1', e)"
    and a: "sameBut d1 d1'"
    using assms(1) by (rule skipMsgKeys_alikeE)
  from a s assms show ?thesis
    by (cases e) (simp_all add: decryptMsgKey_def sameBut_fields nextMsgKey_alike alike_def [of "(_, _)"])
qed

section \<open>Correctness\<close>

text \<open>
  C15: in every state that any sequence of encryptions and decryptions of arbitrary input can reach, whatever the cryptographic primitives do, no counter is negative, the receiving counter is at most 65536 and the sending counters are at most the number of encryptions so far, the key buffer is well formed, and neither Encrypt nor Decrypt panics on any input: every index and slice expression of the header, the ciphertext and the padding is in range.
\<close>

theorem ratchet_safe:
  assumes "reachable P n dr"
  shows "drInv dr \<and> dr_sendNo dr \<le> int n \<and> dr_prevSendNo dr \<le> int n
    \<and> \<not> isPanic (snd (Encrypt P rnd dr pt)) \<and> \<not> isPanic (snd (Decrypt P rnd dr msg))"
  using reachable_inv [OF assms] reachable_sendBound [OF assms] Encrypt_no_panic Decrypt_no_panic
  unfolding sendBound_def by blast

theorem ratchet_safe_witness:
  "drInv demoBob \<and> dr_sendNo demoBob \<le> int 0 \<and> dr_prevSendNo demoBob \<le> int 0
    \<and> \<not> isPanic (snd (Encrypt demo (RandOk (\<lambda>_. 0)) demoBob [1]))
    \<and> \<not> isPanic (snd (Decrypt demo (RandOk (\<lambda>_. 0)) demoBob (replicate 68 0)))"
  by (rule ratchet_safe) (unfold demoBob_def, rule reachable.create_passive)

text \<open>
  A message that would skip more than 32 messages, in the current chain or in the chain before a new one, is refused with the error that names the limit, and the ratchet is left exactly as it was.
\<close>

theorem skip_limit:
  assumes "headerLen < length msg" and "parseHeader (take headerLen msg) = Inr h"
    and "until = (if h_dhPub h = dr_peerDhPub dr then h_msgNo h else h_prevNo h)"
    and "dr_recvNo dr + maxSkipElements < until"
  shows "Decrypt P rnd dr msg = (dr, Inl (ErrSkip until (dr_recvNo dr + maxSkipElements)))"
proof -
  have "skipMsgKeys P dr until = (dr, Some (ErrSkip until (dr_recvNo dr + maxSkipElements)))"
    using assms(4) by (simp add: skipMsgKeys_def)
  with assms show ?thesis
    by (auto simp: Decrypt_eq decryptRatchet_def decryptMsgKey_def maxSkipElements_def split: if_splits)
qed

theorem skip_limit_witness:
  "Decrypt demo (RandOk (\<lambda>_. 0)) demoBob (replicate 32 7 @ [0, 40, 0, 0, 1]) =
    (demoBob, Inl (ErrSkip 40 (dr_recvNo demoBob + maxSkipElements)))"
proof -
  have h: "parseHeader (take headerLen (replicate 32 7 @ [0, 40, 0, 0, 1])) =
      Inr \<lparr>h_dhPub = replicate 32 7, h_prevNo = 40, h_msgNo = 0\<rparr>"
    by (simp add: parseHeader_eq headerLen_def nth_append bytesUint16_eq)
  show ?thesis
    by (rule skip_limit [OF _ h])
      (simp_all add: headerLen_def demoBob_def CreatePassive_def maxSkipElements_def)
qed

text \<open>
  Once the number of the current or of the previous sending chain no longer fits 16 bits, every further encryption on that chain fails with the header error, however often it is tried.
\<close>

theorem exhausted_chain_stays:
  assumes "hmacLaw P" and "exhausted dr"
  shows "encryptAll P dr ps = replicate (length ps) (Inl ErrHeaderNumbers)"
  using assms by (rule encryptAll_exhausted)

definition demoFull :: doubleRatchet where
  "demoFull = demoBob\<lparr>dr_chainKeySend := Some (replicate 32 5), dr_sendNo := 65536\<rparr>"

theorem exhausted_chain_stays_witness:
  "encryptAll demo demoFull [(RandOk (\<lambda>_. 0), [1]), (RandOk (\<lambda>_. 1), [2])] =
    replicate (length [(RandOk (\<lambda>_. 0), [1]), (RandOk (\<lambda>_. 1), [2 :: byte])]) (Inl ErrHeaderNumbers)"
  by (rule exhausted_chain_stays) (simp_all add: demo_laws exhausted_def demoFull_def)

lemma step_sendKey:
  "step P rnd r p = (r', (a, b, c, None)) \<Longrightarrow> \<exists>sk. b = Some sk \<and> length sk = 32"
  by (auto simp: step_def stepInitial_def stepProceed_def Let_def
      split: if_splits sum.splits prod.splits option.splits dest: rootKdf_lengths)

lemma dhStep_exhausted:
  "dhStep P rnd dr = (dr', None) \<Longrightarrow> 65536 \<le> dr_sendNo dr \<Longrightarrow> exhausted dr'"
  by (auto simp: dhStep_def Let_def exhausted_def split: prod.splits dest: step_sendKey)

lemma skipLoop_sendNo: "skipLoop P dr until = (dr', e) \<Longrightarrow> dr_sendNo dr' = dr_sendNo dr"
proof (induction P dr until rule: skipLoop.induct)
  case (1 P dr until)
  then show ?case
    by (cases "dr_recvNo dr < until")
      (auto simp: skipLoop_stop skipLoop.simps [of P dr] split: sum.splits)
qed

lemma skipMsgKeys_sendNo: "skipMsgKeys P dr until = (dr', e) \<Longrightarrow> dr_sendNo dr' = dr_sendNo dr"
  by (auto simp: skipMsgKeys_def split: if_splits dest: skipLoop_sendNo)

text \<open>
  C36: a sending chain that ran out of numbers also makes the next chain unusable: after the peer's next Diffie-Hellman step was followed successfully, every encryption still fails with the header error, because the length of the previous chain does not fit the header.
\<close>

theorem exhaustion_spreads:
  assumes "hmacLaw P" and "65536 \<le> dr_sendNo dr" and "h_dhPub h \<noteq> dr_peerDhPub dr"
    and "decryptRatchet P rnd dr h = (dr', None)"
  shows "encryptAll P dr' ps = replicate (length ps) (Inl ErrHeaderNumbers)"
proof -
  obtain d where s: "skipMsgKeys P dr (h_prevNo h) = (d, None)"
    and st: "dhStep P rnd (d\<lparr>dr_peerDhPub := h_dhPub h\<rparr>) = (dr', None)"
    using assms(3,4) by (auto simp: decryptRatchet_def split: prod.splits option.splits)
  have "65536 \<le> dr_sendNo (d\<lparr>dr_peerDhPub := h_dhPub h\<rparr>)"
    using skipMsgKeys_sendNo [OF s] assms(2) by simp
  with st have "exhausted dr'" by (rule dhStep_exhausted)
  with assms(1) show ?thesis by (rule encryptAll_exhausted)
qed

lemma demo_step:
  assumes "length (r_dhPriv r) = 32" and "length p = 32" and "length (r_rootKey r) = 32" and "regular r"
  shows "\<exists>r' a b c. step demo (RandOk f) r p = (r', (a, b, c, None))"
proof -
  have dh: "\<exists>s. dh demo x p = Inr s" if "length x = 32" for x
    using assms(2) that by (simp add: dh_def demo_def)
  obtain s where s: "dh demo (r_dhPriv r) p = Inr s" using dh assms(1) by blast
  obtain rk ck where k: "rootKdf demo (r_rootKey r) s = Inr (rk, ck)" "length rk = 32"
    using assms(3) by (rule rootKdf_ok)
  obtain t where t: "dh demo (map f [0..<32]) p = Inr t" using dh [of "map f [0..<32]"] by auto
  obtain rk' sk where "rootKdf demo rk t = Inr (rk', sk)" using k(2) by (rule rootKdf_ok)
  with s k t assms(4) show ?thesis
    by (auto simp: step_def regular_def stepProceed_def dhKeyPair_ok)
qed

theorem exhaustion_spreads_witness:
  "\<exists>dr'. decryptRatchet demo (RandOk (\<lambda>_. 4)) demoFull
      \<lparr>h_dhPub = replicate 32 7, h_prevNo = 0, h_msgNo = 0\<rparr> = (dr', None)
    \<and> encryptAll demo dr' [(RandOk (\<lambda>_. 0), [1])] =
      replicate (length [(RandOk (\<lambda>_. 0), [1 :: byte])]) (Inl ErrHeaderNumbers)"
proof -
  let ?h = "\<lparr>h_dhPub = replicate 32 7, h_prevNo = 0, h_msgNo = 0\<rparr>"
  have "\<exists>r' a b c. step demo (RandOk (\<lambda>_. 4)) (dr_dhr demoFull) (replicate 32 7) = (r', (a, b, c, None))"
    by (rule demo_step)
      (simp_all add: demoFull_def demoBob_def CreatePassive_def dhRatchetPassive_def regular_def)
  then obtain r' a b c where
    "step demo (RandOk (\<lambda>_. 4)) (dr_dhr demoFull) (replicate 32 7) = (r', (a, b, c, None))" by blast
  moreover have "skipMsgKeys demo demoFull 0 = (demoFull, None)"
    by (simp add: skipMsgKeys_def demoFull_def demoBob_def CreatePassive_def maxSkipElements_def)
  moreover have "dr_peerDhPub demoFull = []"
    by (simp add: demoFull_def demoBob_def CreatePassive_def)
  ultimately have "snd (decryptRatchet demo (RandOk (\<lambda>_. 4)) demoFull ?h) = None"
    by (simp add: decryptRatchet_def dhStep_def)
  then obtain dr' where d: "decryptRatchet demo (RandOk (\<lambda>_. 4)) demoFull ?h = (dr', None)"
    by (metis prod.collapse)
  have "encryptAll demo dr' [(RandOk (\<lambda>_. 0), [1])] =
      replicate (length [(RandOk (\<lambda>_. 0), [1 :: byte])]) (Inl ErrHeaderNumbers)"
    by (rule exhaustion_spreads [OF demo_laws(2) _ _ d])
      (simp_all add: demoFull_def demoBob_def CreatePassive_def)
  with d show ?thesis by blast
qed

text \<open>
  C35: cached keys of earlier chains are never used: the result of decrypting a message whose key differs from the peer's current one does not depend on the content of the key buffer, so a message of an earlier chain that was skipped cannot be decrypted from its cached key.
\<close>

theorem old_chain_cache_unused:
  assumes "parseHeader (take headerLen msg) = Inr h" and "h_dhPub h \<noteq> dr_peerDhPub dr"
  shows "snd (Decrypt P rnd (dr\<lparr>dr_msgKeyBuffer := kb\<rparr>) msg) = snd (Decrypt P rnd dr msg)"
proof -
  let ?d = "dr\<lparr>dr_msgKeyBuffer := kb\<rparr>"
  have "sameBut ?d dr" by (simp add: sameBut_def)
  obtain d1 e1 d2 e2 where r: "decryptRatchet P rnd ?d h = (d1, e1)" "decryptRatchet P rnd dr h = (d2, e2)"
    by fastforce
  with decryptRatchet_alike [OF \<open>sameBut ?d dr\<close>, of h P rnd] assms(2)
  have a: "sameBut d1 d2" "e1 = e2" by (simp_all add: alike_def)
  show ?thesis
  proof (cases e1)
    case None
    have "dr_recvNo d1 = 0" using decryptRatchet_recvNo r(1) None assms(2) by fastforce
    moreover have "0 \<le> h_msgNo h" using parseHeader_valid [OF assms(1)] by (simp add: headerValid_def)
    ultimately have "alike (decryptMsgKey P d1 h) (decryptMsgKey P d2 h)"
      using a(1) by (intro decryptMsgKey_alike) simp_all
    then show ?thesis
      using r a None assms(1)
      by (auto simp: Decrypt_eq alike_def sameBut_fields split: prod.splits sum.splits)
  next
    case (Some e)
    with a have "e2 = Some e" by simp
    with r Some assms(1) show ?thesis by (simp add: Decrypt_eq)
  qed
qed

theorem old_chain_cache_unused_witness:
  "snd (Decrypt demo (RandOk (\<lambda>_. 0)) (demoBob\<lparr>dr_msgKeyBuffer := insertKey newKeyBuffer (replicate 32 7) 0 [1]\<rparr>)
      (replicate 32 7 @ [0, 40, 0, 0, 1])) =
   snd (Decrypt demo (RandOk (\<lambda>_. 0)) demoBob (replicate 32 7 @ [0, 40, 0, 0, 1]))"
proof -
  have h: "parseHeader (take headerLen (replicate 32 7 @ [0, 40, 0, 0, 1])) =
      Inr \<lparr>h_dhPub = replicate 32 7, h_prevNo = 40, h_msgNo = 0\<rparr>"
    by (simp add: parseHeader_eq headerLen_def nth_append bytesUint16_eq)
  show ?thesis
    by (rule old_chain_cache_unused [OF h]) (simp add: demoBob_def CreatePassive_def)
qed

text \<open>
  C34: messages of the current chain may arrive out of order: after a message that is ahead by up to 32, every message in between still decrypts to its plaintext. The state does not change when that happens, so the cached key is kept and the same message is accepted again each time it is replayed.
\<close>

theorem skipped_message_accepted_again:
  assumes "aesLaw P" and "hmacLaw P" and "receives P c S dr"
    and "wire P c (dr_associatedData dr) h pt msg" and "h_dhPub h = dr_peerDhPub dr"
    and "dr_recvNo dr < h_msgNo h" and "h_msgNo h \<le> dr_recvNo dr + maxSkipElements"
    and "wire P c (dr_associatedData dr) h' pt' msg'" and "h_dhPub h' = dr_peerDhPub dr"
    and "dr_recvNo dr \<le> h_msgNo h'" and "h_msgNo h' < h_msgNo h"
  shows "\<exists>dr'. Decrypt P rnd dr msg = (dr', Inr pt) \<and> Decrypt P rnd' dr' msg' = (dr', Inr pt')"
proof -
  have n: "h_msgNo h \<notin> S" using assms(3,6) by (auto simp: receives_def)
  then have "deliverable S dr (h_msgNo h)" using assms(6,7) by (simp add: deliverable_def)
  with assms(1-5) obtain ck kb where
    d: "Decrypt P rnd dr msg = (dr\<lparr>dr_chainKeyRecv := ck, dr_msgKeyBuffer := kb,
        dr_recvNo := recvNoAfter S (dr_recvNo dr) (h_msgNo h)\<rparr>, Inr pt)"
    and r: "receives P c (skippedAfter S (dr_recvNo dr) (h_msgNo h))
      (dr\<lparr>dr_chainKeyRecv := ck, dr_msgKeyBuffer := kb,
        dr_recvNo := recvNoAfter S (dr_recvNo dr) (h_msgNo h)\<rparr>)"
    by (rule Decrypt_same_chain)
  define dr' where "dr' = dr\<lparr>dr_chainKeyRecv := ck, dr_msgKeyBuffer := kb,
        dr_recvNo := recvNoAfter S (dr_recvNo dr) (h_msgNo h)\<rparr>"
  have f: "dr_peerDhPub dr' = dr_peerDhPub dr" "dr_associatedData dr' = dr_associatedData dr"
    by (simp_all add: dr'_def)
  have "h_msgNo h' \<in> skippedAfter S (dr_recvNo dr) (h_msgNo h)"
    using n assms(10,11) by (simp add: skippedAfter_def)
  with r have k: "h_msgNo h' < dr_recvNo dr'"
    "find (dr_msgKeyBuffer dr') (dr_peerDhPub dr') (h_msgNo h') = Inr (mkAt P c (nat (h_msgNo h')))"
    unfolding receives_def dr'_def by blast+
  then have "decryptMsgKey P dr' h' = (dr', Inr (mkAt P c (nat (h_msgNo h'))))"
    using f assms(9) by (simp add: decryptMsgKey_def)
  moreover have "decryptRatchet P rnd' dr' h' = (dr', None)"
    using f assms(9) by (simp add: decryptRatchet_def)
  ultimately have "Decrypt P rnd' dr' msg' = (dr', Inr pt')"
    using Decrypt_of_wire [OF assms(1,2,8)] f by blast
  with d show ?thesis unfolding dr'_def by blast
qed

definition demoRecv :: doubleRatchet where
  "demoRecv = demoBob\<lparr>dr_peerDhPub := replicate 32 7, dr_chainKeyRecv := Some (replicate 32 5)\<rparr>"

lemma demo_wire:
  assumes "0 \<le> n" and "n < 65536"
  obtains msg where "wire demo (replicate 32 5) [9] \<lparr>h_dhPub = replicate 32 7, h_prevNo = 0, h_msgNo = n\<rparr> pt msg"
proof -
  let ?h = "\<lparr>h_dhPub = replicate 32 7, h_prevNo = 0, h_msgNo = n\<rparr>"
  have v: "headerValid ?h" using assms by (simp add: headerValid_def)
  then obtain hData where "marshal ?h = Inr hData" using marshal_ok by blast
  moreover obtain ct where "encrypt demo (mkAt demo (replicate 32 5) (nat n)) pt [9] = Inr ct"
    using demo_laws(3,2) mkAt_length [OF demo_laws(2)] by (rule decrypt_encrypt)
  ultimately show thesis using that v by (auto simp: wire_def)
qed

theorem skipped_message_accepted_again_witness:
  "\<exists>msg msg' dr'.
    wire demo (replicate 32 5) [9] \<lparr>h_dhPub = replicate 32 7, h_prevNo = 0, h_msgNo = 3\<rparr> [65] msg
    \<and> wire demo (replicate 32 5) [9] \<lparr>h_dhPub = replicate 32 7, h_prevNo = 0, h_msgNo = 1\<rparr> [66] msg'
    \<and> Decrypt demo (RandOk (\<lambda>_. 0)) demoRecv msg = (dr', Inr [65])
    \<and> Decrypt demo (RandOk (\<lambda>_. 0)) dr' msg' = (dr', Inr [66])"
proof -
  let ?h = "\<lparr>h_dhPub = replicate 32 7, h_prevNo = 0, h_msgNo = 3\<rparr>"
  let ?h' = "\<lparr>h_dhPub = replicate 32 7, h_prevNo = 0, h_msgNo = 1\<rparr>"
  have ad: "dr_associatedData demoRecv = [9]" by (simp add: demoRecv_def demoBob_def CreatePassive_def)
  obtain msg where m: "wire demo (replicate 32 5) (dr_associatedData demoRecv) ?h [65] msg"
    unfolding ad by (rule demo_wire [of 3]) simp_all
  obtain msg' where m': "wire demo (replicate 32 5) (dr_associatedData demoRecv) ?h' [66] msg'"
    unfolding ad by (rule demo_wire [of 1]) simp_all
  have r: "receives demo (replicate 32 5) {} demoRecv"
    by (simp add: receives_def demoRecv_def demoBob_def CreatePassive_def kbInv_new)
  have "\<exists>dr'. Decrypt demo (RandOk (\<lambda>_. 0)) demoRecv msg = (dr', Inr [65])
      \<and> Decrypt demo (RandOk (\<lambda>_. 0)) dr' msg' = (dr', Inr [66])"
    by (rule skipped_message_accepted_again [OF demo_laws(3,2) r m _ _ _ m'])
      (simp_all add: demoRecv_def demoBob_def CreatePassive_def maxSkipElements_def)
  with m m' show ?thesis unfolding ad by blast
qed

section \<open>Messages of an attacker\<close>

lemma dhStep_peer: "dhStep P rnd dr = (dr', e) \<Longrightarrow> dr_peerDhPub dr' = dr_peerDhPub dr"
  by (auto simp: dhStep_def Let_def split: prod.splits)

lemma skipLoop_peer: "skipLoop P dr until = (dr', e) \<Longrightarrow> dr_peerDhPub dr' = dr_peerDhPub dr"
proof (induction P dr until rule: skipLoop.induct)
  case (1 P dr until)
  show ?case using 1(2) 1(1) by (subst (asm) skipLoop.simps) (auto split: if_splits sum.splits)
qed

lemma skipMsgKeys_peer: "skipMsgKeys P dr until = (dr', e) \<Longrightarrow> dr_peerDhPub dr' = dr_peerDhPub dr"
  by (auto simp: skipMsgKeys_def split: if_splits dest: skipLoop_peer)

lemma decryptMsgKey_peer: "decryptMsgKey P dr h = (dr', r) \<Longrightarrow> dr_peerDhPub dr' = dr_peerDhPub dr"
  by (auto simp: decryptMsgKey_def nextMsgKey_def split: if_splits prod.splits option.splits sum.splits
      dest!: skipMsgKeys_peer)

lemma skipMsgKeys_none: "until \<le> dr_recvNo dr \<Longrightarrow> skipMsgKeys P dr until = (dr, None)"
  by (simp add: skipMsgKeys_def maxSkipElements_def skipLoop.simps)

lemma decryptRatchet_moves:
  assumes "h_dhPub h \<noteq> dr_peerDhPub dr" and "h_prevNo h \<le> dr_recvNo dr" and "decryptRatchet P rnd dr h = (dr', e)"
  shows "dr_peerDhPub dr' = h_dhPub h"
  using assms by (auto simp: decryptRatchet_def skipMsgKeys_none split: if_splits dest: dhStep_peer)

text \<open>
  C27: what a message does to the ratchet depends on its header alone: every non-empty body, authentic or not, leaves the same state behind, and a header with a new public key and no skipped messages replaces the public key of the peer even when the message is then refused. Anybody can break a conversation that keeps the state after a refused message.
\<close>

theorem forged_header_moves_ratchet:
  assumes "length hData = headerLen" and "parseHeader hData = Inr h" and "body \<noteq> []" and "body' \<noteq> []"
  shows "fst (Decrypt P rnd dr (hData @ body)) = fst (Decrypt P rnd dr (hData @ body'))
    \<and> (h_dhPub h \<noteq> dr_peerDhPub dr \<and> h_prevNo h \<le> dr_recvNo dr \<longrightarrow>
        dr_peerDhPub (fst (Decrypt P rnd dr (hData @ body))) = h_dhPub h)"
proof -
  obtain d1 e1 where r: "decryptRatchet P rnd dr h = (d1, e1)" by fastforce
  obtain d2 k where m: "decryptMsgKey P d1 h = (d2, k)" by fastforce
  have f: "fst (Decrypt P rnd dr (hData @ b)) = (if e1 = None then d2 else d1)" if "b \<noteq> []" for b
    using assms(1,2) r m that by (auto simp: Decrypt_eq split: option.splits sum.splits)
  show ?thesis using f [OF assms(3)] f [OF assms(4)] decryptRatchet_moves [OF _ _ r] decryptMsgKey_peer [OF m] by auto
qed

theorem forged_header_moves_ratchet_witness:
  "dr_peerDhPub (fst (Decrypt demo (RandOk (\<lambda>_. 0)) demoBob ((replicate 32 7 @ [0, 0, 0, 0]) @ [1]))) = replicate 32 7
   \<and> dr_peerDhPub demoBob \<noteq> replicate 32 7"
proof -
  have h: "length (replicate 32 7 @ [0, 0, 0, 0] :: bytes) = headerLen"
    "parseHeader (replicate 32 7 @ [0, 0, 0, 0]) = Inr \<lparr>h_dhPub = replicate 32 7, h_prevNo = 0, h_msgNo = 0\<rparr>"
    by (simp_all add: parseHeader_eq headerLen_def nth_append bytesUint16_eq)
  have b: "[1 :: byte] \<noteq> []" by simp
  have "dr_peerDhPub demoBob \<noteq> replicate 32 7" "dr_recvNo demoBob = 0" by (simp_all add: demoBob_def CreatePassive_def)
  with forged_header_moves_ratchet [OF h b b, of demo "RandOk (\<lambda>_. 0)" demoBob] show ?thesis by simp
qed

end
