(* ===== verification/Base64.thy ===== *)
theory Base64
  imports Prelude
begin

text \<open>
  \<open>base64.RawURLEncoding\<close> of the Go standard library, which the message container uses: the URL
  alphabet, no padding, and a decoder that skips line breaks and ignores the unused bits of the
  last character.
\<close>

section \<open>Encoding and decoding\<close>

definition b64char :: "nat \<Rightarrow> byte" where
  "b64char i = word_of_nat
     (if i < 26 then 65 + i else if i < 52 then 71 + i else if i < 62 then i - 4
      else if i = 62 then 45 else 95)"

definition b64val :: "byte \<Rightarrow> nat option" where
  "b64val c = (let n = unat c in
     if 65 \<le> n \<and> n \<le> 90 then Some (n - 65) else if 97 \<le> n \<and> n \<le> 122 then Some (n - 71)
     else if 48 \<le> n \<and> n \<le> 57 then Some (n + 4) else if n = 45 then Some 62
     else if n = 95 then Some 63 else None)"

text \<open>One quantum: three bytes as four characters.\<close>

definition encodeQuantum :: "byte \<Rightarrow> byte \<Rightarrow> byte \<Rightarrow> bytes" where
  "encodeQuantum a b c = (let n = unat a * 65536 + unat b * 256 + unat c in
     [b64char (n div 262144 mod 64), b64char (n div 4096 mod 64), b64char (n div 64 mod 64), b64char (n mod 64)])"

fun encodeString :: "bytes \<Rightarrow> bytes" where
  "encodeString [] = []"
| "encodeString [a] = take 2 (encodeQuantum a 0 0)"
| "encodeString [a, b] = take 3 (encodeQuantum a b 0)"
| "encodeString (a # b # c # r) = encodeQuantum a b c @ encodeString r"

definition decodeQuantum :: "nat \<Rightarrow> nat \<Rightarrow> nat \<Rightarrow> nat \<Rightarrow> bytes" where
  "decodeQuantum v w x y = (let n = v * 262144 + w * 4096 + x * 64 + y in
     [word_of_nat (n div 65536), word_of_nat (n div 256), word_of_nat n])"

fun decodeVals :: "nat list \<Rightarrow> bytes result" where
  "decodeVals [] = Inr []"
| "decodeVals [v] = Inl ErrBase64"
| "decodeVals [v, w] = Inr (take 1 (decodeQuantum v w 0 0))"
| "decodeVals [v, w, x] = Inr (take 2 (decodeQuantum v w x 0))"
| "decodeVals (v # w # x # y # r) =
     (case decodeVals r of Inl e \<Rightarrow> Inl e | Inr bs \<Rightarrow> Inr (decodeQuantum v w x y @ bs))"

definition isBreak :: "byte \<Rightarrow> bool" where
  "isBreak c \<longleftrightarrow> c = 10 \<or> c = 13"

definition decodeString :: "bytes \<Rightarrow> bytes result" where
  "decodeString s =
     (let cs = filter (\<lambda>c. \<not> isBreak c) s
      in if list_ex (\<lambda>c. b64val c = None) cs then Inl ErrBase64
         else decodeVals (map (\<lambda>c. the (b64val c)) cs))"

section \<open>Lemmas\<close>

lemma unat_b64char:
  assumes "i < 64"
  shows "unat (b64char i) = (if i < 26 then 65 + i else if i < 52 then 71 + i else if i < 62 then i - 4
      else if i = 62 then 45 else 95)"
  unfolding b64char_def by (rule byte_eq_word_of_nat) (use assms in auto)

lemma b64val_b64char [simp]: "i < 64 \<Longrightarrow> b64val (b64char i) = Some i"
  by (auto simp: b64val_def unat_b64char Let_def)

lemma isBreak_b64char [simp]: "i < 64 \<Longrightarrow> \<not> isBreak (b64char i)"
proof -
  assume "i < 64"
  then have "unat (b64char i) \<ge> 45" by (auto simp: unat_b64char)
  then show ?thesis by (auto simp: isBreak_def)
qed

text \<open>The characters of an encoding, and the values they stand for.\<close>

definition quantumVals :: "byte \<Rightarrow> byte \<Rightarrow> byte \<Rightarrow> nat list" where
  "quantumVals a b c = (let n = unat a * 65536 + unat b * 256 + unat c in
     [n div 262144 mod 64, n div 4096 mod 64, n div 64 mod 64, n mod 64])"

fun encodeVals :: "bytes \<Rightarrow> nat list" where
  "encodeVals [] = []"
| "encodeVals [a] = take 2 (quantumVals a 0 0)"
| "encodeVals [a, b] = take 3 (quantumVals a b 0)"
| "encodeVals (a # b # c # r) = quantumVals a b c @ encodeVals r"

lemma encodeQuantum_vals: "encodeQuantum a b c = map b64char (quantumVals a b c)"
  by (simp add: encodeQuantum_def quantumVals_def Let_def)

lemma encodeString_vals: "encodeString bs = map b64char (encodeVals bs)"
  by (induction bs rule: encodeString.induct) (simp_all add: encodeQuantum_vals take_map)

lemma quantumVals_less: "i \<in> set (quantumVals a b c) \<Longrightarrow> i < 64"
  by (auto simp: quantumVals_def Let_def)

lemma encodeVals_less: "i \<in> set (encodeVals bs) \<Longrightarrow> i < 64"
  by (induction bs rule: encodeString.induct) (auto dest: in_set_takeD quantumVals_less)

lemma decodeString_encoded:
  assumes "\<And>i. i \<in> set vs \<Longrightarrow> i < 64"
  shows "decodeString (map b64char vs) = decodeVals vs"
proof -
  have "filter (\<lambda>c. \<not> isBreak c) (map b64char vs) = map b64char vs"
    using assms by (auto simp: filter_id_conv)
  moreover have "\<not> list_ex (\<lambda>c. b64val c = None) (map b64char vs)"
    using assms by (auto simp: list_ex_iff)
  moreover have "map (\<lambda>c. the (b64val c)) (map b64char vs) = vs"
    using assms by (simp add: comp_def map_idI)
  ultimately show ?thesis by (simp add: decodeString_def Let_def)
qed

lemma digits64:
  assumes "n < 16777216"
  shows "n div 262144 mod 64 * 262144 + n div 4096 mod 64 * 4096 + n div 64 mod 64 * 64 + n mod 64 = (n::nat)"
proof -
  have "n div 4096 = n div 64 div 64" "n div 262144 = n div 64 div 64 div 64"
    by (simp_all add: div_mult2_eq [symmetric])
  moreover have "n div 262144 < 64" using assms by (simp add: less_mult_imp_div_less)
  moreover have "n = 64 * (n div 64) + n mod 64" "n div 64 = 64 * (n div 64 div 64) + n div 64 mod 64"
    "n div 64 div 64 = 64 * (n div 64 div 64 div 64) + n div 64 div 64 mod 64" by simp_all
  ultimately show ?thesis by (simp only: mod_less)
qed

lemma word_of_nat_unat_mod: "k mod 256 = unat a \<Longrightarrow> (word_of_nat k :: byte) = a"
  by (simp add: word_unat_eq_iff unsigned_of_nat take_bit_eq_mod)

lemma decode_quantumVals:
  assumes "quantumVals a b c = [v, w, x, y]"
  shows "decodeQuantum v w x y = [a, b, c]"
proof -
  let ?n = "unat a * 65536 + unat b * 256 + unat c"
  have l: "unat a < 256" "unat b < 256" "unat c < 256"
    by (rule byte_unat_less)+
  then have "?n < 16777216" by simp
  then have n: "v * 262144 + w * 4096 + x * 64 + y = ?n"
    using digits64 [of ?n] assms by (simp add: quantumVals_def Let_def)
  have e: "?n = unat c + (unat a * 256 + unat b) * 256" by simp
  have "?n mod 256 = unat c" using l(3) unfolding e by (simp only: mod_mult_self1 mod_less)
  moreover have "?n div 256 = unat a * 256 + unat b" using l by simp
  moreover have "?n div 65536 = unat a" using l by simp
  ultimately have "?n div 65536 mod 256 = unat a" "?n div 256 mod 256 = unat b" "?n mod 256 = unat c"
    using l by simp_all
  then have "word_of_nat (?n div 65536) = a" "word_of_nat (?n div 256) = b" "word_of_nat ?n = c"
    by (blast intro: word_of_nat_unat_mod)+
  then show ?thesis unfolding decodeQuantum_def n Let_def by (simp only:)
qed

lemma decodeVals_encodeVals: "decodeVals (encodeVals bs) = Inr bs"
proof (induction bs rule: encodeString.induct)
  case (2 a)
  obtain v w x y where q: "quantumVals a 0 0 = [v, w, x, y]" by (simp add: quantumVals_def Let_def)
  then have "x = 0" "y = 0" by (auto simp: quantumVals_def Let_def)
  with decode_quantumVals [OF q] q show ?case by simp
next
  case (3 a b)
  obtain v w x y where q: "quantumVals a b 0 = [v, w, x, y]" by (simp add: quantumVals_def Let_def)
  then have "y = 0" by (auto simp: quantumVals_def Let_def)
  with decode_quantumVals [OF q] q show ?case by (simp add: numeral_3_eq_3)
next
  case (4 a b c r)
  obtain v w x y where q: "quantumVals a b c = [v, w, x, y]" by (simp add: quantumVals_def Let_def)
  with decode_quantumVals [OF q] 4 show ?case by simp
qed simp

lemma decode_encode: "decodeString (encodeString bs) = Inr bs"
  unfolding encodeString_vals
  by (simp add: decodeString_encoded [OF encodeVals_less] decodeVals_encodeVals)

lemma encodeString_safe: "c \<in> set (encodeString bs) \<Longrightarrow> 45 \<le> unat c \<and> unat c \<le> 122"
  unfolding encodeString_vals by (auto simp: unat_b64char dest!: encodeVals_less)

interpretation b64: codec "\<lambda>_. True" "\<lambda>bs. Inr (encodeString bs)" decodeString
  by unfold_locales (simp add: decode_encode)

lemma decodeVals_no_panic: "\<not> isPanic (decodeVals vs)"
  by (induction vs rule: decodeVals.induct) (auto split: sum.splits)

lemma decodeString_no_panic: "\<not> isPanic (decodeString s)"
  by (simp add: decodeString_def Let_def decodeVals_no_panic)

end
