(* ===== verification/Message.thy ===== *)
theory Message
  imports Base64 Primitives
begin

text \<open>
  The messages of the session protocol and their container (\<open>src/xochimilco/message.go\<close>): a text
  with a prefix, a type digit, the payload in Base64 and a suffix, and the anonymous box that
  conceals an offer. Go strings are byte lists.
\<close>

section \<open>Data\<close>

type_synonym messageType = byte

definition sessOffer :: messageType where "sessOffer = 1"
definition sessAck :: messageType where "sessAck = 2"
definition sessData :: messageType where "sessData = 3"
definition sessClose :: messageType where "sessClose = 4"
definition sessSealed :: messageType where "sessSealed = 5"

lemmas messageType_defs = sessOffer_def sessAck_def sessData_def sessClose_def sessSealed_def

definition Prefix :: bytes where "Prefix = str ''!RAT!''"
definition Suffix :: bytes where "Suffix = str ''!CHT!''"

record offerMessage =
  o_idKey :: bytes
  o_spKey :: bytes
  o_spSig :: bytes
  o_uuid :: bytes
  o_nick :: bytes

record ackMessage =
  a_idKey :: bytes
  a_eKey :: bytes
  a_uuid :: bytes
  a_cipher :: bytes

record dataMessage =
  d_uuid :: bytes
  d_payload :: bytes

record closeMessage =
  c_uuid :: bytes
  c_payload :: bytes

text \<open>The dynamic types behind the interface \<open>Msg\<close>.\<close>

datatype Msg =
    OfferM offerMessage
  | AckM ackMessage
  | DataM dataMessage
  | CloseM closeMessage
  | SealedM bytes

section \<open>Binary forms\<close>

definition offerMarshal :: "offerMessage \<Rightarrow> bytes result" where
  "offerMarshal msg = Inr (goCopy 32 (o_idKey msg) @ goCopy 32 (o_spKey msg) @ goCopy 64 (o_spSig msg)
     @ goCopy 16 (o_uuid msg) @ o_nick msg)"

definition offerUnmarshal :: "bytes \<Rightarrow> offerMessage result" where
  "offerUnmarshal data =
     (if length data < 32 + 32 + 64 + 16 then Inl ErrPayloadLen
      else case goMake (int (length data) - (32 + 32 + 64 + 16)) of Inl e \<Rightarrow> Inl e
      | Inr nick \<Rightarrow> (case goSlice data 0 32 of Inl e \<Rightarrow> Inl e
      | Inr idKey \<Rightarrow> (case goSlice data 32 64 of Inl e \<Rightarrow> Inl e
      | Inr spKey \<Rightarrow> (case goSlice data 64 128 of Inl e \<Rightarrow> Inl e
      | Inr spSig \<Rightarrow> (case goSlice data 128 144 of Inl e \<Rightarrow> Inl e
      | Inr uuid \<Rightarrow> (case goSlice data 144 (int (length data)) of Inl e \<Rightarrow> Inl e
      | Inr rest \<Rightarrow> Inr \<lparr>o_idKey = goCopy 32 idKey, o_spKey = goCopy 32 spKey, o_spSig = goCopy 64 spSig,
          o_uuid = goCopy 16 uuid, o_nick = goCopy (length nick) rest\<rparr>))))))"

definition ackMarshal :: "ackMessage \<Rightarrow> bytes result" where
  "ackMarshal msg = Inr (goCopy 32 (a_idKey msg) @ goCopy 32 (a_eKey msg) @ goCopy 16 (a_uuid msg)
     @ a_cipher msg)"

definition ackUnmarshal :: "bytes \<Rightarrow> ackMessage result" where
  "ackUnmarshal data =
     (if length data \<le> 32 + 32 + 16 then Inl ErrPayloadLen
      else case goMake (int (length data) - 80) of Inl e \<Rightarrow> Inl e
      | Inr cipher \<Rightarrow> (case goSlice data 0 32 of Inl e \<Rightarrow> Inl e
      | Inr idKey \<Rightarrow> (case goSlice data 32 64 of Inl e \<Rightarrow> Inl e
      | Inr eKey \<Rightarrow> (case goSlice data 64 80 of Inl e \<Rightarrow> Inl e
      | Inr uuid \<Rightarrow> (case goSlice data 80 (int (length data)) of Inl e \<Rightarrow> Inl e
      | Inr rest \<Rightarrow> Inr \<lparr>a_idKey = goCopy 32 idKey, a_eKey = goCopy 32 eKey, a_uuid = goCopy 16 uuid,
          a_cipher = goCopy (length cipher) rest\<rparr>)))))"

definition dataMarshal :: "dataMessage \<Rightarrow> bytes result" where
  "dataMarshal msg = Inr (goCopy 16 (d_uuid msg) @ d_payload msg)"

definition dataUnmarshal :: "bytes \<Rightarrow> dataMessage result" where
  "dataUnmarshal data =
     (if length data \<le> 16 then Inl ErrPayloadLen
      else case goMake (int (length data) - 16) of Inl e \<Rightarrow> Inl e
      | Inr payload \<Rightarrow> (case goSlice data 0 16 of Inl e \<Rightarrow> Inl e
      | Inr uuid \<Rightarrow> (case goSlice data 16 (int (length data)) of Inl e \<Rightarrow> Inl e
      | Inr rest \<Rightarrow> Inr \<lparr>d_uuid = goCopy 16 uuid, d_payload = goCopy (length payload) rest\<rparr>)))"

definition closeMarshal :: "closeMessage \<Rightarrow> bytes result" where
  "closeMarshal msg = Inr (goCopy 16 (c_uuid msg) @ c_payload msg)"

definition closeUnmarshal :: "bytes \<Rightarrow> closeMessage result" where
  "closeUnmarshal data =
     (if length data \<le> 16 then Inl ErrPayloadLen
      else case goMake (int (length data) - 16) of Inl e \<Rightarrow> Inl e
      | Inr payload \<Rightarrow> (case goSlice data 0 16 of Inl e \<Rightarrow> Inl e
      | Inr uuid \<Rightarrow> (case goSlice data 16 (int (length data)) of Inl e \<Rightarrow> Inl e
      | Inr rest \<Rightarrow> (let payload = goCopy (length payload) rest
        in if constantTimeCompare payload [0xff] \<noteq> 1 then Inl ErrClosePayload
           else Inr \<lparr>c_uuid = goCopy 16 uuid, c_payload = payload\<rparr>))))"

definition sealedUnmarshal :: "bytes \<Rightarrow> bytes result" where
  "sealedUnmarshal data = (if length data \<le> 1 then Inl ErrPayloadLen else Inr data)"

text \<open>\<open>MarshalBinary\<close> of the dynamic type.\<close>

fun MarshalBinary :: "Msg \<Rightarrow> bytes result" where
  "MarshalBinary (OfferM m) = offerMarshal m"
| "MarshalBinary (AckM m) = ackMarshal m"
| "MarshalBinary (DataM m) = dataMarshal m"
| "MarshalBinary (CloseM m) = closeMarshal m"
| "MarshalBinary (SealedM s) = Inr s"

text \<open>
  \<open>container\<close> returns a new message of the type; the following \<open>UnmarshalBinary\<close> is a method of that
  type. The type is therefore represented by its decoder.
\<close>

definition container :: "messageType \<Rightarrow> (bytes \<Rightarrow> Msg result) result" where
  "container t =
     (if t = sessOffer then Inr (\<lambda>data. map_sum id OfferM (offerUnmarshal data))
      else if t = sessAck then Inr (\<lambda>data. map_sum id AckM (ackUnmarshal data))
      else if t = sessData then Inr (\<lambda>data. map_sum id DataM (dataUnmarshal data))
      else if t = sessClose then Inr (\<lambda>data. map_sum id CloseM (closeUnmarshal data))
      else if t = sessSealed then Inr (\<lambda>data. map_sum id SealedM (sealedUnmarshal data))
      else Inl (ErrMsgType (unat t)))"

section \<open>The container\<close>

text \<open>\<open>fmt.Fprint\<close> of an integer.\<close>

function decimal :: "nat \<Rightarrow> bytes" where
  "decimal n = (if n < 10 then [word_of_nat (48 + n)] else decimal (n div 10) @ [word_of_nat (48 + n mod 10)])"
  by pat_completeness auto
termination
  by (relation "measure id") auto

declare decimal.simps [simp del]

definition marshalMessage :: "messageType \<Rightarrow> Msg \<Rightarrow> bytes result" where
  "marshalMessage t m =
     (case MarshalBinary m of Inl e \<Rightarrow> Inl e
      | Inr data \<Rightarrow> Inr (Prefix @ decimal (unat t) @ encodeString data @ Suffix))"

definition hasPrefix :: "bytes \<Rightarrow> bytes \<Rightarrow> bool" where
  "hasPrefix s p \<longleftrightarrow> length p \<le> length s \<and> take (length p) s = p"

definition hasSuffix :: "bytes \<Rightarrow> bytes \<Rightarrow> bool" where
  "hasSuffix s p \<longleftrightarrow> length p \<le> length s \<and> drop (length s - length p) s = p"

definition unmarshalMessage :: "bytes \<Rightarrow> (messageType \<times> Msg) result" where
  "unmarshalMessage s =
     (if \<not> hasPrefix s Prefix \<or> \<not> hasSuffix s Suffix then Inl ErrPrefixSuffix
      else case goIndex s (int (length Prefix)) of Inl e \<Rightarrow> Inl e
      | Inr b \<Rightarrow> (let t = b - 48 in
        case container t of Inl e \<Rightarrow> Inl e
        | Inr unmarshal \<Rightarrow>
            (case goSlice s (int (length Prefix) + 1) (int (length s) - int (length Suffix)) of Inl e \<Rightarrow> Inl e
             | Inr text \<Rightarrow> (case decodeString text of Inl e \<Rightarrow> Inl e
               | Inr data \<Rightarrow> (case unmarshal data of Inl e \<Rightarrow> Inl e | Inr m \<Rightarrow> Inr (t, m))))))"

definition Parse :: "bytes \<Rightarrow> Msg result" where
  "Parse s = map_sum id snd (unmarshalMessage s)"

section \<open>Sealed messages\<close>

text \<open>
  \<open>box.SealAnonymous\<close> reads random bytes for the ephemeral key. The digits are the characters
  \<open>'1'\<close> to \<open>'4'\<close>.
\<close>

definition sealTag :: "Msg \<Rightarrow> bytes result" where
  "sealTag m = (case m of
       OfferM _ \<Rightarrow> Inr [49] | AckM _ \<Rightarrow> Inr [50] | DataM _ \<Rightarrow> Inr [51] | CloseM _ \<Rightarrow> Inr [52]
     | SealedM _ \<Rightarrow> Inl ErrUnexpectedType)"

definition Seal :: "prims \<Rightarrow> entropy \<Rightarrow> Msg \<Rightarrow> bytes \<Rightarrow> bytes result" where
  "Seal P rnd m key =
     (case MarshalBinary m of Inl e \<Rightarrow> Inl e
      | Inr data \<Rightarrow> (case sealTag m of Inl e \<Rightarrow> Inl e
        | Inr tag \<Rightarrow> (case rnd of RandFail f \<Rightarrow> Inl ErrRand
          | RandOk f \<Rightarrow> Inr (seal_anonymous P f (tag @ data) key))))"

definition Unseal :: "prims \<Rightarrow> bytes \<Rightarrow> bytes \<Rightarrow> bytes \<Rightarrow> Msg result" where
  "Unseal P s priv pub =
     (case open_anonymous P s pub priv of None \<Rightarrow> Inl ErrUnseal
      | Some data \<Rightarrow>
          (case goIndex data 0 of Inl e \<Rightarrow> Inl e
           | Inr t \<Rightarrow> (case container (t - 48) of Inl e \<Rightarrow> Inl e
             | Inr unmarshal \<Rightarrow> (case goSlice data 1 (int (length data)) of Inl e \<Rightarrow> Inl e
               | Inr rest \<Rightarrow> unmarshal rest))))"

text \<open>The accessors of the messages.\<close>

fun ID :: "Msg \<Rightarrow> bytes option" where
  "ID (OfferM m) = Some (o_uuid m)"
| "ID (AckM m) = Some (a_uuid m)"
| "ID (DataM m) = Some (d_uuid m)"
| "ID (CloseM m) = Some (c_uuid m)"
| "ID (SealedM s) = None"

section \<open>The accesses are in range\<close>

text \<open>
  With the checks of the lengths no slice expression and no \<open>make\<close> of a decoder panics. The container
  and the anonymous box do not check: their panics remain.
\<close>

lemma offerUnmarshal_eq:
  "offerUnmarshal data =
     (if length data < 32 + 32 + 64 + 16 then Inl ErrPayloadLen
      else Inr \<lparr>o_idKey = goCopy 32 (slice 0 32 data), o_spKey = goCopy 32 (slice 32 64 data),
        o_spSig = goCopy 64 (slice 64 128 data), o_uuid = goCopy 16 (slice 128 144 data),
        o_nick = goCopy (length data - (32 + 32 + 64 + 16)) (drop 144 data)\<rparr>)"
  by (simp add: offerUnmarshal_def slice_drop_all nat_diff_distrib)

lemma ackUnmarshal_eq:
  "ackUnmarshal data =
     (if length data \<le> 32 + 32 + 16 then Inl ErrPayloadLen
      else Inr \<lparr>a_idKey = goCopy 32 (slice 0 32 data), a_eKey = goCopy 32 (slice 32 64 data),
        a_uuid = goCopy 16 (slice 64 80 data), a_cipher = goCopy (length data - 80) (drop 80 data)\<rparr>)"
  by (simp add: ackUnmarshal_def slice_drop_all nat_diff_distrib)

lemma dataUnmarshal_eq:
  "dataUnmarshal data =
     (if length data \<le> 16 then Inl ErrPayloadLen
      else Inr \<lparr>d_uuid = goCopy 16 (take 16 data), d_payload = goCopy (length data - 16) (drop 16 data)\<rparr>)"
  by (simp add: dataUnmarshal_def slice_drop_all slice_take nat_diff_distrib)

lemma closeUnmarshal_eq:
  "closeUnmarshal data =
     (if length data \<le> 16 then Inl ErrPayloadLen
      else let payload = goCopy (length data - 16) (drop 16 data)
        in if constantTimeCompare payload [0xff] \<noteq> 1 then Inl ErrClosePayload
           else Inr \<lparr>c_uuid = goCopy 16 (take 16 data), c_payload = payload\<rparr>)"
  by (simp add: closeUnmarshal_def slice_drop_all slice_take nat_diff_distrib Let_def)

lemma unmarshalMessage_eq:
  "unmarshalMessage s =
     (if \<not> hasPrefix s Prefix \<or> \<not> hasSuffix s Suffix then Inl ErrPrefixSuffix
      else if length s \<le> length Prefix then Inl (Panic ''index out of range'')
      else let t = s ! length Prefix - 48 in
        case container t of Inl e \<Rightarrow> Inl e
        | Inr unmarshal \<Rightarrow>
            (if length s < length Suffix \<or> length s - length Suffix < length Prefix + 1
             then Inl (Panic ''slice bounds out of range'')
             else case decodeString (slice (length Prefix + 1) (length s - length Suffix) s) of
                Inl e \<Rightarrow> Inl e
              | Inr data \<Rightarrow> (case unmarshal data of Inl e \<Rightarrow> Inl e | Inr m \<Rightarrow> Inr (t, m))))"
proof -
  have "nat (int (length Prefix) + 1) = length Prefix + 1"
    "nat (int (length s) - int (length Suffix)) = length s - length Suffix" by simp_all
  then have "goSlice s (int (length Prefix) + 1) (int (length s) - int (length Suffix)) =
      (if length s < length Suffix \<or> length s - length Suffix < length Prefix + 1
       then Inl (Panic ''slice bounds out of range'')
       else Inr (slice (length Prefix + 1) (length s - length Suffix) s))"
    unfolding goSlice_def by auto
  moreover have "goIndex s (int (length Prefix)) =
      (if length s \<le> length Prefix then Inl (Panic ''index out of range'') else Inr (s ! length Prefix))"
    by (simp add: goIndex_def)
  ultimately show ?thesis by (simp add: unmarshalMessage_def Let_def split: sum.split)
qed

lemma Unseal_eq:
  "Unseal P s priv pub =
     (case open_anonymous P s pub priv of None \<Rightarrow> Inl ErrUnseal
      | Some data \<Rightarrow>
          (if data = [] then Inl (Panic ''index out of range'')
           else case container (data ! 0 - 48) of Inl e \<Rightarrow> Inl e
             | Inr unmarshal \<Rightarrow> unmarshal (drop 1 data)))"
  by (auto simp: Unseal_def goIndex_def slice_drop_all Suc_le_eq split: option.split sum.split)

section \<open>The binary forms are canonical codecs\<close>

definition offerValid :: "offerMessage \<Rightarrow> bool" where
  "offerValid m \<longleftrightarrow> length (o_idKey m) = 32 \<and> length (o_spKey m) = 32 \<and> length (o_spSig m) = 64
     \<and> length (o_uuid m) = 16"

definition ackValid :: "ackMessage \<Rightarrow> bool" where
  "ackValid m \<longleftrightarrow> length (a_idKey m) = 32 \<and> length (a_eKey m) = 32 \<and> length (a_uuid m) = 16
     \<and> a_cipher m \<noteq> []"

definition dataValid :: "dataMessage \<Rightarrow> bool" where
  "dataValid m \<longleftrightarrow> length (d_uuid m) = 16 \<and> d_payload m \<noteq> []"

definition closeValid :: "closeMessage \<Rightarrow> bool" where
  "closeValid m \<longleftrightarrow> length (c_uuid m) = 16 \<and> c_payload m = [0xff]"

lemma slice_drop: "i \<le> j \<Longrightarrow> slice i j b @ drop j b = drop i b"
  unfolding slice_def by (metis add.commute append_take_drop_id drop_drop le_add_diff_inverse)

lemma take_slice_drop: "i \<le> j \<Longrightarrow> j \<le> length b \<Longrightarrow> take i b @ slice i j b @ drop j b = b"
  by (simp add: slice_drop)

interpretation offer: canonical_codec offerValid offerMarshal offerUnmarshal
proof
  fix m assume v: "offerValid m"
  then show "\<exists>b. offerMarshal m = Inr b \<and> offerUnmarshal b = Inr m"
    by (cases m) (auto simp: offerMarshal_def offerUnmarshal_eq offerValid_def)
next
  fix b m assume u: "offerUnmarshal b = Inr m"
  then show "offerMarshal m = Inr b"
    by (auto simp: offerMarshal_def offerUnmarshal_eq slice_drop split: if_splits)
  show "offerValid m" using u by (auto simp: offerUnmarshal_eq offerValid_def split: if_splits)
qed

interpretation ack: canonical_codec ackValid ackMarshal ackUnmarshal
proof
  fix m assume v: "ackValid m"
  then show "\<exists>b. ackMarshal m = Inr b \<and> ackUnmarshal b = Inr m"
    by (cases m) (auto simp: ackMarshal_def ackUnmarshal_eq ackValid_def)
next
  fix b m assume u: "ackUnmarshal b = Inr m"
  then show "ackMarshal m = Inr b"
    by (auto simp: ackMarshal_def ackUnmarshal_eq slice_drop split: if_splits)
  show "ackValid m" using u by (auto simp: ackUnmarshal_eq ackValid_def split: if_splits)
qed

interpretation dat: canonical_codec dataValid dataMarshal dataUnmarshal
proof
  fix m assume v: "dataValid m"
  then show "\<exists>b. dataMarshal m = Inr b \<and> dataUnmarshal b = Inr m"
    by (cases m) (auto simp: dataMarshal_def dataUnmarshal_eq dataValid_def)
next
  fix b m assume u: "dataUnmarshal b = Inr m"
  then show "dataMarshal m = Inr b"
    by (auto simp: dataMarshal_def dataUnmarshal_eq split: if_splits)
  show "dataValid m" using u by (auto simp: dataUnmarshal_eq dataValid_def split: if_splits)
qed

interpretation close: canonical_codec closeValid closeMarshal closeUnmarshal
proof
  fix m assume v: "closeValid m"
  then show "\<exists>b. closeMarshal m = Inr b \<and> closeUnmarshal b = Inr m"
    by (cases m) (auto simp: closeMarshal_def closeUnmarshal_eq closeValid_def)
next
  fix b m assume u: "closeUnmarshal b = Inr m"
  then show "closeMarshal m = Inr b"
    by (auto simp: closeMarshal_def closeUnmarshal_eq Let_def split: if_splits)
      (metis append_take_drop_id)
  show "closeValid m" using u
    by (auto simp: closeUnmarshal_eq closeValid_def Let_def split: if_splits)
qed

text \<open>The type of a message and which messages are well formed.\<close>

fun typeOf :: "Msg \<Rightarrow> messageType" where
  "typeOf (OfferM _) = sessOffer"
| "typeOf (AckM _) = sessAck"
| "typeOf (DataM _) = sessData"
| "typeOf (CloseM _) = sessClose"
| "typeOf (SealedM _) = sessSealed"

fun msgValid :: "Msg \<Rightarrow> bool" where
  "msgValid (OfferM m) = offerValid m"
| "msgValid (AckM m) = ackValid m"
| "msgValid (DataM m) = dataValid m"
| "msgValid (CloseM m) = closeValid m"
| "msgValid (SealedM s) = (1 < length s)"

lemma container_roundtrip:
  assumes "msgValid m"
  obtains data unmarshal where "MarshalBinary m = Inr data" and "container (typeOf m) = Inr unmarshal"
    and "unmarshal data = Inr m"
proof (cases m)
  case (OfferM x)
  then have "offerValid x" using assms by simp
  then obtain b where "offerMarshal x = Inr b" "offerUnmarshal b = Inr x" using offer.dec_enc by blast
  then show thesis using that OfferM by (simp add: container_def)
next
  case (AckM x)
  then have "ackValid x" using assms by simp
  then obtain b where "ackMarshal x = Inr b" "ackUnmarshal b = Inr x" using ack.dec_enc by blast
  then show thesis using that AckM by (simp add: container_def messageType_defs)
next
  case (DataM x)
  then have "dataValid x" using assms by simp
  then obtain b where "dataMarshal x = Inr b" "dataUnmarshal b = Inr x" using dat.dec_enc by blast
  then show thesis using that DataM by (simp add: container_def messageType_defs)
next
  case (CloseM x)
  then have "closeValid x" using assms by simp
  then obtain b where "closeMarshal x = Inr b" "closeUnmarshal b = Inr x" using close.dec_enc by blast
  then show thesis using that CloseM by (simp add: container_def messageType_defs)
next
  case (SealedM s)
  then show thesis
    using that assms by (simp add: container_def messageType_defs sealedUnmarshal_def)
qed

lemma length_Prefix [simp]: "length Prefix = 5" and length_Suffix [simp]: "length Suffix = 5"
  by (simp_all add: Prefix_def Suffix_def)

lemma decimal_type: "decimal (unat (typeOf m)) = [48 + typeOf m]"
  by (cases m) (simp_all add: messageType_defs decimal.simps [of "Suc 0"] decimal.simps [of 2] decimal.simps [of 3]
      decimal.simps [of 4] decimal.simps [of 5])

lemma unmarshal_container:
  assumes "container t = Inr unmarshal"
  shows "unmarshalMessage (Prefix @ [48 + t] @ encodeString data @ Suffix) =
    map_sum id (Pair t) (unmarshal data)"
proof -
  let ?s = "Prefix @ [48 + t] @ encodeString data @ Suffix"
  have h: "hasPrefix ?s Prefix" "hasSuffix ?s Suffix" by (simp_all add: hasPrefix_def hasSuffix_def)
  have t: "?s ! length Prefix - 48 = t" by (simp add: nth_append)
  have b: "slice (length Prefix + 1) (length ?s - length Suffix) ?s = encodeString data"
    by (simp add: slice_def)
  show ?thesis
    unfolding unmarshalMessage_eq Let_def t b
    using h assms by (simp add: decode_encode split: sum.split)
qed

lemma unmarshal_marshal:
  assumes "msgValid m"
  shows "\<exists>s. marshalMessage (typeOf m) m = Inr s \<and> unmarshalMessage s = Inr (typeOf m, m)"
proof -
  from assms obtain data unmarshal where m: "MarshalBinary m = Inr data"
    and c: "container (typeOf m) = Inr unmarshal" and u: "unmarshal data = Inr m"
    by (rule container_roundtrip)
  with unmarshal_container [OF c, of data] show ?thesis
    by (simp add: marshalMessage_def decimal_type)
qed

interpretation mess: codec msgValid "\<lambda>m. marshalMessage (typeOf m) m" "\<lambda>s. map_sum id snd (unmarshalMessage s)"
proof
  fix m assume "msgValid m"
  from unmarshal_marshal [OF this] show
    "\<exists>b. marshalMessage (typeOf m) m = Inr b \<and> map_sum id snd (unmarshalMessage b) = Inr m"
    by force
qed

section \<open>Correctness\<close>

text \<open>
  C16: every well-formed message of every type survives the text container: marshalling succeeds and unmarshalling the text returns the type and the message.
\<close>

theorem message_roundtrip:
  assumes "msgValid m"
  shows "\<exists>s. marshalMessage (typeOf m) m = Inr s \<and> unmarshalMessage s = Inr (typeOf m, m)
    \<and> hasPrefix s Prefix \<and> hasSuffix s Suffix"
proof -
  obtain s where s: "marshalMessage (typeOf m) m = Inr s" "unmarshalMessage s = Inr (typeOf m, m)"
    using unmarshal_marshal [OF assms] by blast
  from s(2) have "hasPrefix s Prefix \<and> hasSuffix s Suffix"
    by (auto simp: unmarshalMessage_eq split: if_splits)
  with s show ?thesis by blast
qed

theorem message_roundtrip_witness:
  "\<exists>s. marshalMessage (typeOf (CloseM \<lparr>c_uuid = replicate 16 7, c_payload = [0xff]\<rparr>))
        (CloseM \<lparr>c_uuid = replicate 16 7, c_payload = [0xff]\<rparr>) = Inr s
    \<and> unmarshalMessage s = Inr (typeOf (CloseM \<lparr>c_uuid = replicate 16 7, c_payload = [0xff]\<rparr>),
        CloseM \<lparr>c_uuid = replicate 16 7, c_payload = [0xff]\<rparr>)
    \<and> hasPrefix s Prefix \<and> hasSuffix s Suffix"
  by (rule message_roundtrip) (simp add: closeValid_def)

text \<open>
  The shortest text with both prefix and suffix has nine bytes, and texts of nine or ten bytes do
  not carry a valid type digit; so the two slice expressions are always in range.
\<close>

lemma short_text:
  assumes "hasPrefix s Prefix" and "hasSuffix s Suffix" and "length s < 11"
  shows "5 < length s" and "s ! 5 = 67 \<or> s ! 5 = 33"
proof -
  have p: "s ! i = Prefix ! i" if "i < 5" for i
    using assms(1) that by (metis hasPrefix_def length_Prefix nth_take)
  have q: "s ! (length s - 5 + i) = Suffix ! i" if "i < 5" for i
    using assms(2) that by (metis add_leD1 hasSuffix_def le_add_diff_inverse2 length_Suffix nth_drop diff_le_self)
  have d: "Prefix ! 0 = 33" "Prefix ! 1 = 82" "Prefix ! 2 = 65" "Prefix ! 3 = 84" "Prefix ! 4 = 33"
    "Suffix ! 0 = 33" "Suffix ! 1 = 67" "Suffix ! 2 = 72" "Suffix ! 3 = 84" "Suffix ! 4 = 33"
    by (simp_all add: Prefix_def Suffix_def str_def of_char_def)
  have "5 \<le> length s" using assms(1) by (simp add: hasPrefix_def)
  with assms(3) consider "length s = 5" | "length s = 6" | "length s = 7" | "length s = 8"
    | "length s = 9" | "length s = 10" by linarith
  then have "5 < length s \<and> (s ! 5 = 67 \<or> s ! 5 = 33)"
  proof cases
    case 1
    with p [of 1] q [of 1] d show ?thesis by simp
  next
    case 2
    with p [of 1] q [of 0] d show ?thesis by simp
  next
    case 3
    with p [of 2] q [of 0] d show ?thesis by simp
  next
    case 4
    with p [of 3] q [of 0] d show ?thesis by simp
  next
    case 5
    with q [of 1] d show ?thesis by simp
  next
    case 6
    with q [of 0] d show ?thesis by simp
  qed
  then show "5 < length s" and "s ! 5 = 67 \<or> s ! 5 = 33" by simp_all
qed

lemma long_text:
  assumes "hasPrefix s Prefix" and "hasSuffix s Suffix" and "container (s ! length Prefix - 48) = Inr u"
  shows "11 \<le> length s"
proof (rule ccontr)
  assume "\<not> 11 \<le> length s"
  then have "s ! 5 = 67 \<or> s ! 5 = 33" using short_text(2) assms(1,2) by simp
  with assms(3) show False by (auto simp: container_def messageType_defs)
qed

lemma unmarshal_no_panic:
  "container t = Inr u \<Longrightarrow> \<not> isPanic (u data)"
  by (auto simp: container_def offerUnmarshal_eq ackUnmarshal_eq dataUnmarshal_eq
      closeUnmarshal_eq sealedUnmarshal_def Let_def split: if_splits)

lemma unmarshalMessage_text: "\<not> isPanic (unmarshalMessage s)"
proof (cases "hasPrefix s Prefix \<and> hasSuffix s Suffix")
  case True
  have five: "5 < length s"
    using True short_text(1) [of s] by (cases "length s < 11") auto
  show ?thesis
  proof (cases "container (s ! length Prefix - 48)")
    case (Inl e)
    then have "\<not> isPanic (unmarshalMessage s)" if "\<not> isPanic (Inl e :: Msg result)"
      using True five that by (cases e) (simp_all add: unmarshalMessage_eq)
    moreover have "\<not> isPanic (Inl e :: Msg result)" using Inl by (auto simp: container_def split: if_splits)
    ultimately show ?thesis by blast
  next
    case (Inr u)
    have "11 \<le> length s" using long_text True Inr by blast
    then show ?thesis
      using True five Inr unmarshal_no_panic [OF Inr] decodeString_no_panic
      by (auto simp: unmarshalMessage_eq Let_def isPanic_sum)
  qed
qed (auto simp: unmarshalMessage_eq)

text \<open>
  Parsing arbitrary text never panics, although it indexes and slices the text without length checks.
\<close>

theorem unmarshalMessage_no_panic: "\<not> isPanic (unmarshalMessage s) \<and> \<not> isPanic (Parse s)"
  by (simp add: Parse_def unmarshalMessage_text)

text \<open>The box opens to what was sealed for the key pair.\<close>

definition sealLaw :: "prims \<Rightarrow> bytes \<Rightarrow> bytes \<Rightarrow> bool" where
  "sealLaw P pub priv \<longleftrightarrow> (\<forall>f m. open_anonymous P (seal_anonymous P f m pub) pub priv = Some m)"

lemma sealTag_type:
  assumes "\<And>s. m \<noteq> SealedM s"
  shows "sealTag m = Inr [48 + typeOf m]"
  using assms by (cases m) (auto simp: sealTag_def messageType_defs)

lemma unseal_seal:
  assumes "sealLaw P pub priv" and "msgValid m" and "\<forall>s. m \<noteq> SealedM s"
  shows "\<exists>s. Seal P (RandOk f) m pub = Inr s \<and> Unseal P s priv pub = Inr m"
proof -
  from assms(2) obtain data unmarshal where m: "MarshalBinary m = Inr data"
    and c: "container (typeOf m) = Inr unmarshal" and u: "unmarshal data = Inr m"
    by (rule container_roundtrip)
  have "Seal P (RandOk f) m pub = Inr (seal_anonymous P f ([48 + typeOf m] @ data) pub)"
    using m assms(3) by (simp add: Seal_def sealTag_type)
  moreover have "Unseal P (seal_anonymous P f ([48 + typeOf m] @ data) pub) priv pub = Inr m"
    using assms(1) c u by (simp add: Unseal_eq sealLaw_def)
  ultimately show ?thesis by blast
qed

text \<open>
  An offer, acknowledgement, data or close message that is sealed for a key pair is recovered by the owner of the private key.
\<close>

theorem seal_roundtrip:
  assumes "sealLaw P pub priv" and "msgValid m" and "\<forall>s. m \<noteq> SealedM s"
  shows "\<exists>s. Seal P (RandOk f) m pub = Inr s \<and> Unseal P s priv pub = Inr m"
  using assms by (rule unseal_seal)

lemma demo_sealLaw: "length pub = 32 \<Longrightarrow> sealLaw demo pub priv"
  by (simp add: sealLaw_def demo_def)

theorem seal_roundtrip_witness:
  "\<exists>s. Seal demo (RandOk (\<lambda>_. 0)) (CloseM \<lparr>c_uuid = replicate 16 7, c_payload = [0xff]\<rparr>) (replicate 32 1) = Inr s
    \<and> Unseal demo s (replicate 32 2) (replicate 32 1) = Inr (CloseM \<lparr>c_uuid = replicate 16 7, c_payload = [0xff]\<rparr>)"
  by (rule seal_roundtrip) (simp_all add: demo_sealLaw closeValid_def)

text \<open>
  \<open>Unseal\<close> panics exactly on a box that opens to the empty message, and for every key pair such a box exists: anybody who knows the public key can seal one.
\<close>

theorem unseal_panics:
  "(isPanic (Unseal P s priv pub) \<longleftrightarrow> open_anonymous P s pub priv = Some [])
   \<and> (sealLaw P pub priv \<longrightarrow> isPanic (Unseal P (seal_anonymous P f [] pub) priv pub))"
proof -
  have "\<not> isPanic (case container t of Inl e \<Rightarrow> Inl e | Inr u \<Rightarrow> u data)" for t data
    using unmarshal_no_panic by (auto simp: isPanic_sum) (auto simp: container_def split: if_splits)
  then have "isPanic (Unseal P s priv pub) \<longleftrightarrow> open_anonymous P s pub priv = Some []" for s
    by (auto simp: Unseal_eq split: option.splits)
  then show ?thesis by (simp add: sealLaw_def)
qed

theorem unseal_panics_witness:
  "(isPanic (Unseal demo [1] (replicate 32 2) (replicate 32 1))
      \<longleftrightarrow> open_anonymous demo [1] (replicate 32 1) (replicate 32 2) = Some [])
   \<and> isPanic (Unseal demo (seal_anonymous demo (\<lambda>_. 0) [] (replicate 32 1)) (replicate 32 2) (replicate 32 1))"
  using unseal_panics [of demo "[1]" "replicate 32 2" "replicate 32 1" "\<lambda>_. 0"] demo_sealLaw by simp

end
