(* ===== verification/X3dh.thy ===== *)
theory X3dh
  imports Primitives
begin

text \<open>
  The X3DH key agreement (\<open>src/x3dh/x3dh.go\<close>) and the conversion of Ed25519 keys to X25519 keys
  (\<open>src/x3dh/curve25519_conv.go\<close>). The conversion is computed: \<open>math/big\<close> is modelled by unbounded
  integers with the byte conversions and the modular inverse the code uses.
\<close>

section \<open>Big integers\<close>

text \<open>\<open>SetBytes\<close> and \<open>Bytes\<close>: big endian, without leading zeros.\<close>

definition setBytes :: "bytes \<Rightarrow> int" where
  "setBytes bs = foldl (\<lambda>a b. a * 256 + uint b) 0 bs"

function natBytes :: "nat \<Rightarrow> bytes" where
  "natBytes n = (if n = 0 then [] else natBytes (n div 256) @ [word_of_nat n])"
  by pat_completeness auto
termination
  by (relation "measure id") auto

declare natBytes.simps [simp del]

definition bigBytes :: "int \<Rightarrow> bytes" where
  "bigBytes i = natBytes (nat \<bar>i\<bar>)"

text \<open>The extended Euclidean algorithm: the greatest common divisor and its two coefficients.\<close>

function egcd :: "int \<Rightarrow> int \<Rightarrow> int \<times> int \<times> int" where
  "egcd a b =
     (if b \<le> 0 then (a, 1, 0)
      else let (d, x, y) = egcd b (a mod b) in (d, y, x - a div b * y))"
  by pat_completeness auto
termination
  by (relation "measure (\<lambda>(a, b). nat b)") auto

declare egcd.simps [simp del]

text \<open>\<open>z.ModInverse(g, n)\<close>: \<open>None\<close> if \<open>g\<close> has no inverse, and \<open>z\<close> then keeps its value.\<close>

definition modInverse :: "int \<Rightarrow> int \<Rightarrow> int option" where
  "modInverse g n = (case egcd (g mod n) n of (d, x, y) \<Rightarrow> if d = 1 then Some (x mod n) else None)"

section \<open>Conversion of keys\<close>

definition ed25519PrivateKeyToCurve25519 :: "prims \<Rightarrow> bytes \<Rightarrow> bytes result" where
  "ed25519PrivateKeyToCurve25519 P pk =
     (case goSlice pk 0 32 of Inl e \<Rightarrow> Inl e
      | Inr seed \<Rightarrow> (let out = sha512 P seed in goSlice out 0 32))"

definition curve25519P :: int where
  "curve25519P = 57896044618658097711785492504343953926634992332820282019728792003956564819949"

definition ed25519PublicKeyToCurve25519 :: "bytes \<Rightarrow> bytes result" where
  "ed25519PublicKeyToCurve25519 pk =
     (if length pk > 32 then Inl (Panic ''index out of range'')
      else let
        bigEndianY = replicate (32 - length pk) 0 @ rev pk;
        bigEndianY = bigEndianY[0 := and (bigEndianY ! 0) 0x7F];
        y = setBytes bigEndianY;
        denom = 1 - y;
        denom = (case modInverse denom curve25519P of None \<Rightarrow> denom | Some z \<Rightarrow> z);
        u = (y + 1) * denom mod curve25519P;
        uBytes = bigBytes u
      in if length uBytes > 32 then Inl (Panic ''index out of range'')
         else Inr (goCopy 32 (rev uBytes)))"

text \<open>
  The methods of package \<open>ed25519\<close>: a private key is the seed followed by the public key, \<open>Public\<close>
  copies \<open>priv[32:]\<close>, and \<open>Verify\<close> panics on a public key of another length.
\<close>

definition edPublic :: "bytes \<Rightarrow> bytes" where
  "edPublic priv = goCopy 32 (drop 32 priv)"

definition Public :: "bytes \<Rightarrow> bytes result" where
  "Public priv = (case goSlice priv 32 (int (length priv)) of Inl e \<Rightarrow> Inl e | Inr b \<Rightarrow> Inr (goCopy 32 b))"

definition Verify :: "prims \<Rightarrow> bytes \<Rightarrow> bytes \<Rightarrow> bytes \<Rightarrow> bool result" where
  "Verify P publicKey message sig =
     (if length publicKey \<noteq> 32 then Inl (Panic ''ed25519: bad public key length'')
      else Inr (ed_verify P publicKey message sig))"

section \<open>The key agreement\<close>

definition CreateNewSpk :: "prims \<Rightarrow> entropy \<Rightarrow> bytes \<Rightarrow> (bytes \<times> bytes \<times> bytes) result" where
  "CreateNewSpk P rnd idKey =
     (case randRead rnd 32 of
        (spkPriv, Some e) \<Rightarrow> Inl e
      | (spkPriv, None) \<Rightarrow>
          (let spkPub = x25519_base P spkPriv
           in if length idKey \<noteq> 64 then Inl (Panic ''ed25519: bad private key length'')
              else Inr (spkPub, spkPriv, ed_sign P idKey spkPub)))"

definition kdf :: "prims \<Rightarrow> bytes \<Rightarrow> bytes result" where
  "kdf P km = readFull (hkdf_sha256 P (replicate 32 0 @ km) (replicate 32 0) [0xff]) 0 32"

text \<open>The loop over \<open>dhSteps\<close>, which appends every shared secret to \<open>dhOut\<close>.\<close>

fun dhLoop :: "prims \<Rightarrow> bytes \<Rightarrow> (bytes \<times> bytes) list \<Rightarrow> bytes result" where
  "dhLoop P dhOut [] = Inr dhOut"
| "dhLoop P dhOut ((a, b) # dhSteps) =
     (case x25519 P a b of None \<Rightarrow> Inl ErrCurve | Some dhTmp \<Rightarrow> dhLoop P (dhOut @ dhTmp) dhSteps)"

definition CreateInitialMessage ::
    "prims \<Rightarrow> entropy \<Rightarrow> bytes \<Rightarrow> bytes \<Rightarrow> bytes \<Rightarrow> bytes \<Rightarrow> (bytes \<times> bytes \<times> bytes) result" where
  "CreateInitialMessage P rnd idKey peerIdKey spkPub spkSig =
     (if length peerIdKey \<noteq> 32 then Inl ErrPeerKeySize
      else case Verify P peerIdKey spkPub spkSig of Inl e \<Rightarrow> Inl e
      | Inr valid \<Rightarrow> if \<not> valid then Inl ErrSpkSig
      else case randRead rnd 32 of
        (ekPriv, Some e) \<Rightarrow> Inl e
      | (ekPriv, None) \<Rightarrow>
          (let ekPub = x25519_base P ekPriv in
           case ed25519PrivateKeyToCurve25519 P idKey of Inl e \<Rightarrow> Inl e
           | Inr idXKey \<Rightarrow> (case ed25519PublicKeyToCurve25519 peerIdKey of Inl e \<Rightarrow> Inl e
             | Inr peerIdXKey \<Rightarrow>
                (case dhLoop P (replicate (3 * 32) 0)
                    [(idXKey, spkPub), (ekPriv, peerIdXKey), (ekPriv, spkPub)] of Inl e \<Rightarrow> Inl e
                 | Inr dhOut \<Rightarrow> (case kdf P dhOut of Inl e \<Rightarrow> Inl e
                   | Inr sessKey \<Rightarrow> (case Public idKey of Inl e \<Rightarrow> Inl e
                     | Inr pub \<Rightarrow> Inr (sessKey, pub @ peerIdKey, ekPub)))))))"

definition ReceiveInitialMessage ::
    "prims \<Rightarrow> bytes \<Rightarrow> bytes \<Rightarrow> bytes \<Rightarrow> bytes \<Rightarrow> (bytes \<times> bytes) result" where
  "ReceiveInitialMessage P idKey peerIdKey spkPriv ekPub =
     (if length peerIdKey \<noteq> 32 then Inl ErrPeerKeySize
      else case ed25519PrivateKeyToCurve25519 P idKey of Inl e \<Rightarrow> Inl e
      | Inr idXKey \<Rightarrow> (case ed25519PublicKeyToCurve25519 peerIdKey of Inl e \<Rightarrow> Inl e
        | Inr peerIdXKey \<Rightarrow>
            (case dhLoop P (replicate (3 * 32) 0)
                [(spkPriv, peerIdXKey), (idXKey, ekPub), (spkPriv, ekPub)] of Inl e \<Rightarrow> Inl e
             | Inr dhOut \<Rightarrow> (case kdf P dhOut of Inl e \<Rightarrow> Inl e
               | Inr sessKey \<Rightarrow> (case Public idKey of Inl e \<Rightarrow> Inl e
                 | Inr pub \<Rightarrow> Inr (sessKey, peerIdKey @ pub))))))"

section \<open>Lemmas on the conversion\<close>

lemma egcd_correct:
  assumes "0 \<le> a" and "0 \<le> b" and "egcd a b = (d, x, y)"
  shows "d = gcd a b" and "a * x + b * y = d"
proof -
  have "d = gcd a b \<and> a * x + b * y = d"
    using assms
  proof (induction a b arbitrary: d x y rule: egcd.induct)
    case (1 a b)
    show ?case
    proof (cases "b \<le> 0")
      case True
      with "1.prems" show ?thesis by (simp add: egcd.simps [of a 0])
    next
      case False
      obtain d' x' y' where r: "egcd b (a mod b) = (d', x', y')" by (cases "egcd b (a mod b)")
      have e: "d' = gcd b (a mod b)" "b * x' + a mod b * y' = d'"
        using "1.IH" [OF False, of d' x' y'] False r by simp_all
      have o: "d = d'" "x = y'" "y = x' - a div b * y'"
        using "1.prems"(3) False r by (auto simp: egcd.simps [of a b])
      have m: "a mod b = a - a div b * b" by (simp add: minus_div_mult_eq_mod)
      have "a * y' + b * (x' - a div b * y') = b * x' + a mod b * y'"
        unfolding m by (simp add: algebra_simps)
      moreover have "gcd b (a mod b) = gcd a b" by (metis gcd.commute gcd_red_int)
      ultimately show ?thesis using e o by simp
    qed
  qed
  then show "d = gcd a b" and "a * x + b * y = d" by simp_all
qed

lemma modInverse_Some:
  assumes "0 < n" and "modInverse g n = Some z"
  shows "0 \<le> z \<and> z < n \<and> (g * z) mod n = 1 mod n"
proof -
  obtain d x y where e: "egcd (g mod n) n = (d, x, y)" by (cases "egcd (g mod n) n")
  with assms(2) have d: "d = 1" and z: "z = x mod n" by (auto simp: modInverse_def split: if_splits)
  have "g mod n * x + n * y = 1" using egcd_correct(2) [of "g mod n" n d x y] e d assms(1) by simp
  then have "(g mod n * x) mod n = 1 mod n" by (metis mod_mult_self2)
  then have "(g * z) mod n = 1 mod n"
    unfolding z by (metis mod_mult_left_eq mod_mult_right_eq)
  with assms(1) z show ?thesis by simp
qed

lemma modInverse_None:
  assumes "0 < n"
  shows "modInverse g n = None \<longleftrightarrow> gcd g n \<noteq> 1"
proof -
  obtain d x y where e: "egcd (g mod n) n = (d, x, y)" by (cases "egcd (g mod n) n")
  have "d = gcd (g mod n) n" using egcd_correct(1) [of "g mod n" n d x y] e assms by simp
  also have "\<dots> = gcd g n" by (metis gcd.commute gcd_red_int)
  finally show ?thesis using e by (simp add: modInverse_def)
qed

text \<open>Little-endian value, and the bytes of a bounded number.\<close>

definition leValue :: "bytes \<Rightarrow> int" where
  "leValue bs = foldr (\<lambda>b a. uint b + 256 * a) bs 0"

lemma leValue_simps [simp]: "leValue [] = 0" "leValue (b # bs) = uint b + 256 * leValue bs"
  by (simp_all add: leValue_def)

lemma leValue_append: "leValue (xs @ ys) = leValue xs + 256 ^ length xs * leValue ys"
  by (induction xs) (simp_all add: algebra_simps)

lemma leValue_zeros [simp]: "leValue (replicate n 0) = 0"
  by (induction n) simp_all

lemma setBytes_leValue: "setBytes bs = leValue (rev bs)"
proof -
  have "foldl (\<lambda>a b. a * 256 + uint b) i bs = leValue (rev bs) + 256 ^ length bs * i" for i
    by (induction bs arbitrary: i) (simp_all add: leValue_append algebra_simps)
  then show ?thesis by (simp add: setBytes_def)
qed

lemma leValue_natBytes: "leValue (rev (natBytes n)) = int n"
proof (induction n rule: natBytes.induct)
  case (1 n)
  show ?case
  proof (cases "n = 0")
    case False
    have "uint (word_of_nat n :: byte) = int (n mod 256)"
      by (simp add: unsigned_of_nat take_bit_eq_mod of_nat_mod)
    moreover have "int n = int (n mod 256) + 256 * int (n div 256)"
      by (metis add.commute mult_div_mod_eq of_nat_add of_nat_mult of_nat_numeral)
    ultimately show ?thesis using 1 False by (simp add: natBytes.simps [of n])
  qed (simp add: natBytes.simps)
qed

lemma length_natBytes: "n < 256 ^ k \<Longrightarrow> length (natBytes n) \<le> k"
proof (induction k arbitrary: n)
  case 0
  then show ?case by (simp add: natBytes.simps)
next
  case (Suc k)
  then have "n div 256 < 256 ^ k" by (simp add: less_mult_imp_div_less mult.commute)
  with Suc.IH show ?case by (simp add: natBytes.simps [of n])
qed

lemma leValue_bound: "0 \<le> leValue bs \<and> leValue bs < 256 ^ length bs"
proof (induction bs)
  case (Cons b bs)
  have b: "0 \<le> uint b" "uint b \<le> 255" using uint_lt2p [of b] by simp_all
  have "leValue bs + 1 \<le> 256 ^ length bs" using Cons by simp
  then have "256 * leValue bs + 256 \<le> 256 * 256 ^ length bs" by (simp add: algebra_simps)
  with b Cons show ?case by simp
qed simp

text \<open>The y-coordinate an Ed25519 public key encodes: all bits but the highest.\<close>

definition edY :: "bytes \<Rightarrow> int" where
  "edY pk = leValue (pk[31 := and (pk ! 31) 0x7F])"

lemma setBytes_edY:
  assumes "length pk = 32"
  shows "setBytes ((rev pk)[0 := and (rev pk ! 0) 0x7F]) = edY pk"
proof -
  have "rev pk ! 0 = pk ! 31" using assms by (simp add: rev_nth)
  moreover have "rev ((rev pk)[0 := v]) = pk[31 := v]" for v
    using assms rev_update [of 0 "rev pk" v] by simp
  ultimately show ?thesis by (simp add: setBytes_leValue edY_def)
qed

lemma pubConv_eq:
  assumes "length pk = 32"
  obtains out where "ed25519PublicKeyToCurve25519 pk = Inr out" and "length out = 32"
    and "leValue out = (edY pk + 1) *
      (case modInverse (1 - edY pk) curve25519P of None \<Rightarrow> 1 - edY pk | Some z \<Rightarrow> z) mod curve25519P"
proof -
  let ?d = "case modInverse (1 - edY pk) curve25519P of None \<Rightarrow> 1 - edY pk | Some z \<Rightarrow> z"
  define u where "u = (edY pk + 1) * ?d mod curve25519P"
  have u: "0 \<le> u" "u < curve25519P" by (simp_all add: u_def curve25519P_def)
  then have "nat u < 256 ^ 32" by (simp add: curve25519P_def nat_less_iff)
  then have l: "length (bigBytes u) \<le> 32" using u by (simp add: bigBytes_def length_natBytes)
  let ?out = "goCopy 32 (rev (bigBytes u))"
  have "leValue ?out = leValue (rev (bigBytes u))"
    using l by (simp add: goCopy_def leValue_append)
  then have "leValue ?out = u" using u by (simp add: bigBytes_def leValue_natBytes)
  moreover have "ed25519PublicKeyToCurve25519 pk = Inr ?out"
    using assms l setBytes_edY [OF assms] u_def
    by (cases "modInverse (1 - edY pk) curve25519P")
      (simp_all add: ed25519PublicKeyToCurve25519_def Let_def)
  ultimately show thesis using that [of ?out] by (simp add: u_def)
qed

section \<open>Agreement\<close>

text \<open>SHA-512 has 64 bytes of output.\<close>

definition sha512Law :: "prims \<Rightarrow> bool" where
  "sha512Law P \<longleftrightarrow> (\<forall>m. length (sha512 P m) = 64)"

text \<open>
  A generated Ed25519 key: signatures have 64 bytes and verify, and the X25519 public key of its scalar is the
  point that the birational map of RFC 7748 assigns to its public point: the coordinates \<open>u\<close> and \<open>y\<close> satisfy
  \<open>u (1 - y) = 1 + y\<close> in the field, and the public point is not the neutral element. The law says nothing of how
  the program converts keys.
\<close>

definition edKey :: "prims \<Rightarrow> bytes \<Rightarrow> bool" where
  "edKey P k \<longleftrightarrow> length k = 64 \<and> (\<forall>m. length (ed_sign P k m) = 64)
     \<and> (\<forall>m. ed_verify P (edPublic k) m (ed_sign P k m))
     \<and> (let u = x25519_base P (take 32 (sha512 P (take 32 k))); y = edY (edPublic k)
        in length u = 32 \<and> leValue u < curve25519P \<and> gcd (1 - y) curve25519P = 1
         \<and> leValue u * (1 - y) mod curve25519P = (1 + y) mod curve25519P)"

lemma privConv:
  "sha512Law P \<Longrightarrow> 32 \<le> length k \<Longrightarrow> ed25519PrivateKeyToCurve25519 P k = Inr (take 32 (sha512 P (take 32 k)))"
  by (simp add: ed25519PrivateKeyToCurve25519_def sha512Law_def slice_take)

lemma Public_ok: "32 \<le> length k \<Longrightarrow> Public k = Inr (edPublic k)"
  by (simp add: Public_def edPublic_def slice_drop_all)

lemma Verify_ok: "length k = 32 \<Longrightarrow> Verify P k m sig = Inr (ed_verify P k m sig)"
  by (simp add: Verify_def)

text \<open>The conversion solves the equation of the birational map, whose solution is unique.\<close>

lemma pubConv_birational:
  assumes "length pk = 32"
  shows "\<exists>out. ed25519PublicKeyToCurve25519 pk = Inr out \<and> length out = 32
    \<and> leValue out < curve25519P
    \<and> (gcd (1 - edY pk) curve25519P = 1 \<longrightarrow>
        leValue out * (1 - edY pk) mod curve25519P = (1 + edY pk) mod curve25519P)"
proof -
  let ?y = "edY pk" and ?p = curve25519P
  have p: "0 < ?p" by (simp add: curve25519P_def)
  from assms obtain out where o: "ed25519PublicKeyToCurve25519 pk = Inr out" "length out = 32"
    and v: "leValue out = (?y + 1) * (case modInverse (1 - ?y) ?p of None \<Rightarrow> 1 - ?y | Some z \<Rightarrow> z) mod ?p"
    by (rule pubConv_eq)
  have "leValue out * (1 - ?y) mod ?p = (1 + ?y) mod ?p" if "gcd (1 - ?y) ?p = 1"
  proof -
    have "modInverse (1 - ?y) ?p \<noteq> None" using modInverse_None [OF p, of "1 - ?y"] that by simp
    then obtain z where z: "modInverse (1 - ?y) ?p = Some z" by blast
    have i: "(1 - ?y) * z mod ?p = 1 mod ?p" using modInverse_Some [OF p z] by simp
    have "leValue out * (1 - ?y) mod ?p = (?y + 1) * ((1 - ?y) * z) mod ?p"
      unfolding v z option.case mod_mult_left_eq by (simp add: ac_simps)
    also have "\<dots> = (?y + 1) * ((1 - ?y) * z mod ?p) mod ?p" by (simp add: mod_mult_right_eq)
    also have "\<dots> = (1 + ?y) mod ?p" unfolding i by (simp add: mod_mult_right_eq add.commute)
    finally show ?thesis .
  qed
  moreover have "leValue out < ?p" using v p by simp
  ultimately show ?thesis using o by blast
qed

lemma leValue_inj: "length xs = length ys \<Longrightarrow> leValue xs = leValue ys \<Longrightarrow> xs = ys"
proof (induction xs ys rule: list_induct2)
  case (Cons x xs y ys)
  have b: "0 \<le> uint x" "uint x < 256" "0 \<le> uint y" "uint y < 256"
    using uint_lt2p [of x] uint_lt2p [of y] by simp_all
  have e: "uint x + 256 * leValue xs = uint y + 256 * leValue ys" using Cons.prems by simp
  then have "(uint x + 256 * leValue xs) mod 256 = (uint y + 256 * leValue ys) mod 256" by simp
  with b have "uint x = uint y" by simp
  with e Cons.IH show ?case by (simp add: word_uint_eq_iff)
qed simp

lemma edKey_converted:
  assumes "edKey P k"
  shows "ed25519PublicKeyToCurve25519 (edPublic k) = Inr (x25519_base P (take 32 (sha512 P (take 32 k))))"
proof -
  let ?u = "x25519_base P (take 32 (sha512 P (take 32 k)))" and ?d = "1 - edY (edPublic k)" and ?p = curve25519P
  from assms have u: "length ?u = 32" "leValue ?u < ?p" "coprime ?d ?p" and g: "gcd ?d ?p = 1"
    and e: "leValue ?u * ?d mod ?p = (1 + edY (edPublic k)) mod ?p"
    by (simp_all add: edKey_def Let_def coprime_iff_gcd_eq_1)
  have "length (edPublic k) = 32" by (simp add: edPublic_def)
  note b = pubConv_birational [OF this]
  from b g obtain out where o: "ed25519PublicKeyToCurve25519 (edPublic k) = Inr out" "length out = 32" "leValue out < ?p"
    "leValue out * ?d mod ?p = (1 + edY (edPublic k)) mod ?p"
    by (elim exE conjE) (drule mp, assumption, erule that, assumption+)
  from o(4) e have "?p dvd leValue out * ?d - leValue ?u * ?d" by (metis mod_eq_dvd_iff)
  then have "?p dvd (leValue out - leValue ?u) * ?d" by (simp add: left_diff_distrib)
  then have "?p dvd leValue out - leValue ?u" using u(3) by (metis coprime_commute coprime_dvd_mult_left_iff)
  then have "leValue out mod ?p = leValue ?u mod ?p" by (rule mod_eq_dvd_iff [THEN iffD2])
  moreover have "leValue out mod ?p = leValue out" "leValue ?u mod ?p = leValue ?u"
    using o(3) u(2) leValue_bound [of out] leValue_bound [of ?u] by (blast intro: mod_pos_pos_trivial)+
  ultimately have "leValue out = leValue ?u" by simp
  then show ?thesis using o(1,2) u(1) leValue_inj [of out ?u] by simp
qed

lemma length_edPublic [simp]: "length (edPublic k) = 32"
  by (simp add: edPublic_def)

lemma kdf_ok: "\<exists>out. kdf P km = Inr out \<and> length out = 32"
  by (simp add: kdf_def)

lemma dhLaw_pair:
  assumes "dhLaw P" and "length a = 32" and "length b = 32"
  obtains s where "x25519 P a (x25519_base P b) = Some s" and "x25519 P b (x25519_base P a) = Some s"
  using assms unfolding dhLaw_def by blast

lemma CreateNewSpk_ok:
  "length k = 64 \<Longrightarrow> CreateNewSpk P (RandOk f) k = Inr (x25519_base P (map f [0..<32]), map f [0..<32],
     ed_sign P k (x25519_base P (map f [0..<32])))"
  by (simp add: CreateNewSpk_def Let_def)

text \<open>Both sides compute the same three Diffie-Hellman values.\<close>

lemma x3dh_shared:
  assumes "dhLaw P" and "sha512Law P" and "edKey P alice" and "edKey P bob"
    and "CreateNewSpk P (RandOk f) bob = Inr (spkPub, spkPriv, spkSig)"
  shows "\<exists>sessKey ekPub.
    CreateInitialMessage P (RandOk g) alice (edPublic bob) spkPub spkSig =
      Inr (sessKey, edPublic alice @ edPublic bob, ekPub)
    \<and> ReceiveInitialMessage P bob (edPublic alice) spkPriv ekPub =
      Inr (sessKey, edPublic alice @ edPublic bob)
    \<and> length sessKey = 32 \<and> length ekPub = 32"
proof -
  let ?a = "take 32 (sha512 P (take 32 alice))" and ?b = "take 32 (sha512 P (take 32 bob))"
  let ?s = "map f [0..<32]" and ?e = "map g [0..<32]"
  have l: "length ?a = 32" "length ?b = 32" "length ?s = 32" "length ?e = 32"
    using assms(2) by (simp_all add: sha512Law_def)
  have k: "length alice = 64" "length bob = 64" using assms(3,4) by (simp_all add: edKey_def)
  have spk: "spkPub = x25519_base P ?s" "spkPriv = ?s" "spkSig = ed_sign P bob (x25519_base P ?s)"
    using assms(5) CreateNewSpk_ok [OF k(2), of P f] by auto
  have pa: "ed25519PublicKeyToCurve25519 (edPublic alice) = Inr (x25519_base P ?a)"
    and pb: "ed25519PublicKeyToCurve25519 (edPublic bob) = Inr (x25519_base P ?b)"
    and v: "ed_verify P (edPublic bob) spkPub spkSig"
    using assms(3,4) spk edKey_converted by (simp_all add: edKey_def)
  obtain s1 where 1: "x25519 P ?a (x25519_base P ?s) = Some s1" "x25519 P ?s (x25519_base P ?a) = Some s1"
    using assms(1) l(1,3) by (rule dhLaw_pair)
  obtain s2 where 2: "x25519 P ?e (x25519_base P ?b) = Some s2" "x25519 P ?b (x25519_base P ?e) = Some s2"
    using assms(1) l(4,2) by (rule dhLaw_pair)
  obtain s3 where 3: "x25519 P ?e (x25519_base P ?s) = Some s3" "x25519 P ?s (x25519_base P ?e) = Some s3"
    using assms(1) l(4,3) by (rule dhLaw_pair)
  obtain key where key: "kdf P (((replicate 96 0 @ s1) @ s2) @ s3) = Inr key" "length key = 32"
    using kdf_ok by blast
  have "CreateInitialMessage P (RandOk g) alice (edPublic bob) spkPub spkSig =
      Inr (key, edPublic alice @ edPublic bob, x25519_base P ?e)"
    using v pb 1 2 3 key by (simp add: CreateInitialMessage_def Let_def privConv [OF assms(2)] Public_ok Verify_ok k spk)
  moreover have "ReceiveInitialMessage P bob (edPublic alice) spkPriv (x25519_base P ?e) =
      Inr (key, edPublic alice @ edPublic bob)"
    using pa 1 2 3 key by (simp add: ReceiveInitialMessage_def privConv [OF assms(2)] Public_ok k spk)
  moreover have "length (x25519_base P ?e) = 32" using assms(1) l(4) by (rule base_length)
  ultimately show ?thesis using key(2) by blast
qed

text \<open>
  C14: X3DH agrees: with the signed prekey that the passive party created, the active party's initial message succeeds and the passive party derives from it the same 32-byte session key and the same associated data, the two identity keys in order.
\<close>

theorem x3dh_agree:
  assumes "dhLaw P" and "sha512Law P" and "edKey P alice" and "edKey P bob"
    and "CreateNewSpk P (RandOk f) bob = Inr (spkPub, spkPriv, spkSig)"
  shows "\<exists>sessKey ekPub.
    CreateInitialMessage P (RandOk g) alice (edPublic bob) spkPub spkSig =
      Inr (sessKey, edPublic alice @ edPublic bob, ekPub)
    \<and> ReceiveInitialMessage P bob (edPublic alice) spkPriv ekPub =
      Inr (sessKey, edPublic alice @ edPublic bob)
    \<and> length sessKey = 32 \<and> length ekPub = 32"
  using assms by (rule x3dh_shared)

text \<open>Two key pairs of the computable cipher suite.\<close>

definition demoAliceKey :: bytes where
  "demoAliceKey = (1 # replicate 31 0) @ replicate 32 0"

definition demoBobKey :: bytes where
  "demoBobKey = (0xEA # replicate 30 0xFF @ [0x7F]) @ (2 # replicate 31 0)"

lemma leValue_ones: "leValue (replicate n 0xFF) = 256 ^ n - 1"
  by (induction n) simp_all

lemma replicate_update_same [simp]: "(replicate n a)[i := a] = replicate n a"
  by (induction n arbitrary: i) (auto split: nat.splits)

lemma edY_0: "edY (replicate 32 0) = 0"
  by (simp add: edY_def)

lemma edY_2: "edY (2 # replicate 31 0) = 2"
  by (simp add: edY_def)

lemma demo_edKey: "edKey demo demoAliceKey" "edKey demo demoBobKey"
proof -
  have a: "edPublic demoAliceKey = replicate 32 0" "drop 32 demoAliceKey = replicate 32 0"
      "take 32 (goCopy 64 (take 32 demoAliceKey)) = 1 # replicate 31 0"
    and b: "edPublic demoBobKey = 2 # replicate 31 0" "drop 32 demoBobKey = 2 # replicate 31 0"
      "take 32 (goCopy 64 (take 32 demoBobKey)) = 0xEA # replicate 30 0xFF @ [0x7F]"
    by (simp_all add: edPublic_def demoAliceKey_def demoBobKey_def goCopy_def)
  have l: "length demoAliceKey = 64" "length demoBobKey = 64" by (simp_all add: demoAliceKey_def demoBobKey_def)
  show "edKey demo demoAliceKey"
    using a l by (simp add: edKey_def Let_def demo_def edY_0 min_def curve25519P_def)
  show "edKey demo demoBobKey"
    using b l by (simp add: edKey_def Let_def demo_def edY_2 min_def leValue_append leValue_ones curve25519P_def)
qed

lemma demo_sha512Law: "sha512Law demo"
  by (simp add: sha512Law_def demo_def)

theorem x3dh_agree_witness:
  "\<exists>spkPub spkPriv spkSig sessKey ekPub.
    CreateNewSpk demo (RandOk (\<lambda>_. 3)) demoBobKey = Inr (spkPub, spkPriv, spkSig)
    \<and> CreateInitialMessage demo (RandOk (\<lambda>_. 4)) demoAliceKey (edPublic demoBobKey) spkPub spkSig =
      Inr (sessKey, edPublic demoAliceKey @ edPublic demoBobKey, ekPub)
    \<and> ReceiveInitialMessage demo demoBobKey (edPublic demoAliceKey) spkPriv ekPub =
      Inr (sessKey, edPublic demoAliceKey @ edPublic demoBobKey)
    \<and> length sessKey = 32"
proof -
  have s: "CreateNewSpk demo (RandOk (\<lambda>_. 3)) demoBobKey =
      Inr (x25519_base demo (map (\<lambda>_. 3) [0..<32]), map (\<lambda>_. 3) [0..<32],
        ed_sign demo demoBobKey (x25519_base demo (map (\<lambda>_. 3) [0..<32])))"
    by (rule CreateNewSpk_ok) (simp add: demoBobKey_def)
  from x3dh_agree [OF demo_laws(1) demo_sha512Law demo_edKey s, of "\<lambda>_. 4"] s show ?thesis by blast
qed

text \<open>
  An initial message is only ever created for a 32-byte identity key under which the signature of the prekey verifies.
\<close>

theorem x3dh_checks_signature:
  assumes "CreateInitialMessage P rnd idKey peerIdKey spkPub spkSig = Inr r"
  shows "length peerIdKey = 32 \<and> ed_verify P peerIdKey spkPub spkSig"
  using assms by (auto simp: CreateInitialMessage_def Verify_def split: if_splits)

theorem x3dh_checks_signature_witness:
  "length (edPublic demoBobKey) = 32
   \<and> ed_verify demo (edPublic demoBobKey) (replicate 32 3) (ed_sign demo demoBobKey (replicate 32 3))"
proof -
  have r: "map (\<lambda>_. 3 :: byte) [0..<32] = replicate 32 3" by (simp add: map_replicate_const)
  have s: "CreateNewSpk demo (RandOk (\<lambda>_. 3)) demoBobKey =
      Inr (replicate 32 3, replicate 32 3, ed_sign demo demoBobKey (replicate 32 3))"
    using CreateNewSpk_ok [of demoBobKey demo "\<lambda>_. 3"] by (simp add: demoBobKey_def demo_def r)
  obtain m where "CreateInitialMessage demo (RandOk (\<lambda>_. 4)) demoAliceKey (edPublic demoBobKey)
      (replicate 32 3) (ed_sign demo demoBobKey (replicate 32 3)) = Inr m"
    using x3dh_shared [OF demo_laws(1) demo_sha512Law demo_edKey s, of "\<lambda>_. 4"] by blast
  then show ?thesis by (rule x3dh_checks_signature)
qed

text \<open>
  C38: the conversion of an Ed25519 public key is total on 32-byte keys and yields 32 bytes below the field prime; unless the y-coordinate is 1 modulo the prime (more exactly: if 1 - y is invertible), the result u solves u (1 - y) = 1 + y, the equation of the birational map.
\<close>

theorem edwards_to_montgomery:
  assumes "length pk = 32"
  shows "\<exists>out. ed25519PublicKeyToCurve25519 pk = Inr out \<and> length out = 32
    \<and> leValue out < curve25519P
    \<and> (gcd (1 - edY pk) curve25519P = 1 \<longrightarrow>
        leValue out * (1 - edY pk) mod curve25519P = (1 + edY pk) mod curve25519P)"
  using assms by (rule pubConv_birational)

theorem edwards_to_montgomery_witness:
  "\<exists>out. ed25519PublicKeyToCurve25519 (replicate 32 0) = Inr out \<and> length out = 32
    \<and> leValue out < curve25519P
    \<and> leValue out * (1 - edY (replicate 32 0)) mod curve25519P = (1 + edY (replicate 32 0)) mod curve25519P"
proof -
  note edY_0
  moreover have "length (replicate 32 0 :: bytes) = 32" by simp
  ultimately show ?thesis using edwards_to_montgomery [of "replicate 32 0"] by auto
qed

end
