(* ===== verification/XSession.thy ===== *)
theory XSession
  imports RatchetSafety Message X3dh
begin

text \<open>
  The session protocol (\<open>src/xochimilco/session.go\<close>): offer, acknowledgement, data and close.
  Every operation returns the session it leaves behind. The random input of an operation is a
  sequence of reads; the ULID time stamp of an outgoing message (package \<open>ulid\<close>) is a parameter.
\<close>

section \<open>Data and operations\<close>

record Session =
  LocalUUID :: bytes
  RemoteUUID :: bytes
  Me :: bytes
  IdentityKey :: bytes
  VerifyPeer :: "bytes \<Rightarrow> bool"
  spkPub :: bytes
  spkPriv :: bytes
  ratchet :: "doubleRatchet option"

definition Active :: "Session \<Rightarrow> bool" where
  "Active sess \<longleftrightarrow> ratchet sess \<noteq> None"

definition createOffer :: "prims \<Rightarrow> entropy \<Rightarrow> Session \<Rightarrow> Session \<times> offerMessage result" where
  "createOffer P rnd sess =
     (case CreateNewSpk P rnd (IdentityKey sess) of
        Inl e \<Rightarrow> (sess, Inl e)
      | Inr (pub, priv, sig) \<Rightarrow>
          (let sess = sess\<lparr>spkPub := pub, spkPriv := priv\<rparr>
           in case Public (IdentityKey sess) of Inl e \<Rightarrow> (sess, Inl e)
              | Inr idKey \<Rightarrow> (sess, Inr \<lparr>o_idKey = idKey, o_spKey = pub, o_spSig = sig,
                  o_uuid = LocalUUID sess, o_nick = Me sess\<rparr>)))"

definition Offer :: "prims \<Rightarrow> entropy \<Rightarrow> Session \<Rightarrow> Session \<times> bytes result" where
  "Offer P rnd sess =
     (case createOffer P rnd sess of
        (sess, Inl e) \<Rightarrow> (sess, Inl e)
      | (sess, Inr offer) \<Rightarrow> (sess, marshalMessage sessOffer (OfferM offer)))"

definition OfferSealed :: "prims \<Rightarrow> entropy \<Rightarrow> entropy \<Rightarrow> Session \<Rightarrow> bytes \<Rightarrow> Session \<times> bytes result" where
  "OfferSealed P rnd rnd' sess k =
     (case createOffer P rnd sess of
        (sess, Inl e) \<Rightarrow> (sess, Inl e)
      | (sess, Inr offer) \<Rightarrow> (case Seal P rnd' (OfferM offer) k of
          Inl e \<Rightarrow> (sess, Inl e)
        | Inr sealed \<Rightarrow> (sess, marshalMessage sessSealed (SealedM sealed))))"

text \<open>The reads of random bytes in \<open>receiveOffer\<close>: ephemeral key, ratchet key, payload, first step.\<close>

type_synonym reads = "nat \<Rightarrow> entropy"

definition receiveOffer ::
    "prims \<Rightarrow> reads \<Rightarrow> Session \<Rightarrow> offerMessage \<Rightarrow> Session \<times> bool \<times> bytes \<times> err option" where
  "receiveOffer P rs sess offer =
     (if \<not> VerifyPeer sess (o_idKey offer) then (sess, False, [], Some ErrVerify)
      else case CreateInitialMessage P (rs 0) (IdentityKey sess) (o_idKey offer) (o_spKey offer) (o_spSig offer) of
        Inl e \<Rightarrow> (sess, False, [], Some e)
      | Inr (sessKey, associatedData, ekPub) \<Rightarrow>
          (let sess = sess\<lparr>RemoteUUID := o_uuid offer\<rparr> in
           case CreateActive P (rs 1) sessKey associatedData (o_spKey offer) of
             Inl e \<Rightarrow> (sess\<lparr>ratchet := None\<rparr>, False, [], Some e)
           | Inr dr \<Rightarrow>
               (let sess = sess\<lparr>ratchet := Some dr\<rparr> in
                case randRead (rs 2) 7 of (nonsense, Some e) \<Rightarrow> (sess, False, [], Some e)
                | (nonsense, None) \<Rightarrow>
                   (case Encrypt P (rs 3) dr (goCopy 16 (LocalUUID sess) @ nonsense) of
                      (dr, Inl e) \<Rightarrow> (sess\<lparr>ratchet := Some dr\<rparr>, False, [], Some e)
                    | (dr, Inr initialCiphertext) \<Rightarrow>
                       (let sess = sess\<lparr>ratchet := Some dr\<rparr> in
                        case Public (IdentityKey sess) of Inl e \<Rightarrow> (sess, True, [], Some e)
                        | Inr idKey \<Rightarrow>
                           (let ack = \<lparr>a_idKey = idKey, a_eKey = ekPub,
                                  a_uuid = RemoteUUID sess, a_cipher = initialCiphertext\<rparr>;
                                sess = sess\<lparr>IdentityKey := []\<rparr>
                            in case marshalMessage sessAck (AckM ack) of
                                 Inl e \<Rightarrow> (sess, True, [], Some e)
                               | Inr ackMsg \<Rightarrow> (sess, True, ackMsg, None)))))))"

definition Acknowledge :: "prims \<Rightarrow> reads \<Rightarrow> Session \<Rightarrow> bytes \<Rightarrow> Session \<times> bytes \<times> err option" where
  "Acknowledge P rs sess offerMsg =
     (case unmarshalMessage offerMsg of
        Inl e \<Rightarrow> (sess, [], Some e)
      | Inr (t, m) \<Rightarrow>
          (if t \<noteq> sessOffer then (sess, [], Some ErrUnexpectedType)
           else case m of
               OfferM offer \<Rightarrow>
                 (case receiveOffer P rs sess offer of (sess, _, ackMsg, err) \<Rightarrow> (sess, ackMsg, err))
             | _ \<Rightarrow> (sess, [], Some (Panic ''interface conversion''))))"

text \<open>
  \<open>plaintext[:16]\<close> re-slices the plaintext within the capacity of the buffer it was unpadded in:
  a shorter plaintext is extended by its own padding, and the expression panics if that buffer is
  shorter than 16 bytes. The buffer is the padding of the plaintext (see \<open>pkcs7Unpad_Pad\<close>).
\<close>

definition reslice16 :: "bytes \<Rightarrow> bytes result" where
  "reslice16 plaintext = (case pkcs7Pad plaintext 16 of Inl e \<Rightarrow> Inl e | Inr padded \<Rightarrow> goSlice padded 0 16)"

definition receiveAck :: "prims \<Rightarrow> entropy \<Rightarrow> Session \<Rightarrow> ackMessage \<Rightarrow> Session \<times> bool \<times> err option" where
  "receiveAck P rnd sess ack =
     (if ratchet sess \<noteq> None then (sess, False, Some ErrActive)
      else if \<not> VerifyPeer sess (a_idKey ack) then (sess, False, Some ErrVerify)
      else case ReceiveInitialMessage P (IdentityKey sess) (a_idKey ack) (spkPriv sess) (a_eKey ack) of
        Inl e \<Rightarrow> (sess, False, Some e)
      | Inr (sessKey, associatedData) \<Rightarrow>
          (let dr = CreatePassive sessKey associatedData (spkPub sess) (spkPriv sess);
               sess = sess\<lparr>spkPub := [], spkPriv := []\<rparr>
           in case Decrypt P rnd dr (a_cipher ack) of
               (dr, Inl e) \<Rightarrow> (sess\<lparr>ratchet := Some dr\<rparr>, False, Some e)
             | (dr, Inr plaintext) \<Rightarrow>
                 (case reslice16 plaintext of Inl e \<Rightarrow> (sess\<lparr>ratchet := Some dr\<rparr>, False, Some e)
                  | Inr uuid \<Rightarrow>
                      (sess\<lparr>ratchet := Some dr, RemoteUUID := uuid, IdentityKey := []\<rparr>, True, None))))"

definition receiveData :: "prims \<Rightarrow> entropy \<Rightarrow> Session \<Rightarrow> dataMessage \<Rightarrow> Session \<times> bytes result" where
  "receiveData P rnd sess data =
     (case ratchet sess of None \<Rightarrow> (sess, Inl ErrInactive)
      | Some dr \<Rightarrow> (case Decrypt P rnd dr (d_payload data) of
          (dr, r) \<Rightarrow> (sess\<lparr>ratchet := Some dr\<rparr>, r)))"

text \<open>The results of \<open>Receive\<close>: established, closed, plaintext, error.\<close>

type_synonym received = "bool \<times> bool \<times> bytes \<times> err option"

definition ReceiveMsg :: "prims \<Rightarrow> reads \<Rightarrow> Session \<Rightarrow> Msg \<Rightarrow> Session \<times> received" where
  "ReceiveMsg P rs sess msg =
     (case msg of
        OfferM offer \<Rightarrow> (case receiveOffer P rs sess offer of
          (sess, est, txt, err) \<Rightarrow> (sess, est, False, txt, err))
      | AckM ack \<Rightarrow> (case receiveAck P (rs 0) sess ack of
          (sess, est, err) \<Rightarrow> (sess, est, False, [], err))
      | DataM data \<Rightarrow> (case receiveData P (rs 0) sess data of
          (sess, Inl e) \<Rightarrow> (sess, False, False, [], Some e)
        | (sess, Inr plaintext) \<Rightarrow> (sess, False, False, plaintext, None))
      | CloseM _ \<Rightarrow> (sess, False, True, [], None)
      | SealedM _ \<Rightarrow> (sess, False, False, [], Some ErrUnexpectedType))"

definition Receive :: "prims \<Rightarrow> reads \<Rightarrow> Session \<Rightarrow> bytes \<Rightarrow> Session \<times> received" where
  "Receive P rs sess msg =
     (case unmarshalMessage msg of
        Inl e \<Rightarrow> (sess, False, False, [], Some e)
      | Inr (t, m) \<Rightarrow> ReceiveMsg P rs sess m)"

text \<open>\<open>setTime\<close> stands for \<open>SetTime(ulid.Now())\<close> on the 16 bytes of a ULID.\<close>

definition encTime :: "(bytes \<Rightarrow> bytes) \<Rightarrow> bytes \<Rightarrow> bytes" where
  "encTime setTime uuid = setTime (goCopy 16 uuid)"

definition Send :: "prims \<Rightarrow> (bytes \<Rightarrow> bytes) \<Rightarrow> entropy \<Rightarrow> Session \<Rightarrow> bytes \<Rightarrow> Session \<times> bytes result" where
  "Send P setTime rnd sess plaintext =
     (case ratchet sess of None \<Rightarrow> (sess, Inl ErrInactive)
      | Some dr \<Rightarrow> (case Encrypt P rnd dr plaintext of
          (dr, Inl e) \<Rightarrow> (sess\<lparr>ratchet := Some dr\<rparr>, Inl e)
        | (dr, Inr ciphertext) \<Rightarrow> (sess\<lparr>ratchet := Some dr\<rparr>,
            marshalMessage sessData (DataM \<lparr>d_uuid = encTime setTime (RemoteUUID sess), d_payload = ciphertext\<rparr>))))"

definition Close :: "Session \<Rightarrow> Session \<times> bytes result" where
  "Close sess =
     (let sess = sess\<lparr>spkPub := [], spkPriv := [], ratchet := None\<rparr>
      in (sess, marshalMessage sessClose (CloseM \<lparr>c_uuid = RemoteUUID sess, c_payload = [0xff]\<rparr>)))"

section \<open>The handshake\<close>

lemma Encrypt_length: "Encrypt P rnd dr pt = (dr', Inr ct) \<Longrightarrow> headerLen \<le> length ct"
  by (auto simp: Encrypt_def Let_def dest!: length_marshal split: option.splits sum.splits prod.splits if_splits)

lemma Encrypt_nonempty: "Encrypt P rnd dr pt = (dr', Inr ct) \<Longrightarrow> ct \<noteq> []"
  using Encrypt_length by (fastforce simp: headerLen_def)

text \<open>A message that is well formed arrives as it was sent.\<close>

lemma transport:
  assumes "msgValid m"
  obtains s where "marshalMessage (typeOf m) m = Inr s" and "unmarshalMessage s = Inr (typeOf m, m)"
  using unmarshal_marshal [OF assms] by blast

text \<open>The buffer always holds a full block.\<close>

lemma reslice16_total: "\<exists>padded. pkcs7Pad plaintext 16 = Inr padded \<and> reslice16 plaintext = Inr (take 16 padded)"
proof -
  have b: "0 < (16 :: int)" "(16 :: int) \<le> 255" by simp_all
  obtain padded where p: "pkcs7Pad plaintext 16 = Inr padded" "length padded mod nat 16 = 0" "length plaintext < length padded"
    by (rule pkcs7Pad_Unpad [OF b, of plaintext])
  then have "16 dvd length padded" "0 < length padded" by auto
  then have "16 \<le> length padded" by (rule dvd_imp_le)
  with p(1) show ?thesis by (simp add: reslice16_def slice_take)
qed

lemma reslice16_prefix: "length u = 16 \<Longrightarrow> reslice16 (u @ n) = Inr u"
  using reslice16_total [of "u @ n"] by (auto simp: pkcs7Pad_def Let_def)

lemma createOffer_ok:
  assumes "dhLaw P" and "edKey P (IdentityKey A)" and "length (LocalUUID A) = 16"
    and "CreateNewSpk P (RandOk f) (IdentityKey A) = Inr (pub, priv, sig)"
  defines "offer \<equiv> \<lparr>o_idKey = edPublic (IdentityKey A), o_spKey = pub, o_spSig = sig,
      o_uuid = LocalUUID A, o_nick = Me A\<rparr>"
  shows "createOffer P (RandOk f) A = (A\<lparr>spkPub := pub, spkPriv := priv\<rparr>, Inr offer)" and "msgValid (OfferM offer)"
proof -
  have k: "length (IdentityKey A) = 64" using assms(2) by (simp add: edKey_def)
  have "length pub = 32" "length sig = 64"
    using assms CreateNewSpk_ok [OF k, of P f] base_length [OF assms(1), of "map f [0..<32]"]
    by (auto simp: edKey_def)
  then show "msgValid (OfferM offer)" using assms(3) by (simp add: offerValid_def offer_def)
  show "createOffer P (RandOk f) A = (A\<lparr>spkPub := pub, spkPriv := priv\<rparr>, Inr offer)"
    using assms(4) k by (simp add: createOffer_def Let_def offer_def Public_ok)
qed

lemma receiveOffer_ok:
  assumes "VerifyPeer B (o_idKey offer)"
    and "CreateInitialMessage P (rs 0) (IdentityKey B) (o_idKey offer) (o_spKey offer) (o_spSig offer) = Inr (k, ad, ek)"
    and "CreateActive P (rs 1) k ad (o_spKey offer) = Inr dr" and "rs 2 = RandOk g"
    and "Encrypt P (rs 3) dr (goCopy 16 (LocalUUID B) @ map g [0..<7]) = (dr', Inr ct)"
    and "length (o_uuid offer) = 16" and "length ek = 32" and "32 \<le> length (IdentityKey B)"
  obtains s' where "receiveOffer P rs B offer =
      (B\<lparr>RemoteUUID := o_uuid offer, ratchet := Some dr', IdentityKey := []\<rparr>, True, s', None)"
    and "unmarshalMessage s' = Inr (sessAck, AckM \<lparr>a_idKey = edPublic (IdentityKey B), a_eKey = ek,
      a_uuid = o_uuid offer, a_cipher = ct\<rparr>)"
proof -
  let ?a = "\<lparr>a_idKey = edPublic (IdentityKey B), a_eKey = ek, a_uuid = o_uuid offer, a_cipher = ct\<rparr>"
  have "msgValid (AckM ?a)" using assms(6,7) Encrypt_nonempty [OF assms(5)] by (simp add: ackValid_def)
  then obtain s' where "marshalMessage sessAck (AckM ?a) = Inr s'"
    "unmarshalMessage s' = Inr (sessAck, AckM ?a)" by (rule transport) simp
  then show thesis
    using that assms(1-5,8) by (simp add: receiveOffer_def Let_def Public_ok)
qed

lemma receiveAck_ok:
  assumes "ratchet A = None" and "VerifyPeer A (a_idKey ack)"
    and "ReceiveInitialMessage P (IdentityKey A) (a_idKey ack) (spkPriv A) (a_eKey ack) = Inr (k, ad)"
    and "Decrypt P rnd (CreatePassive k ad (spkPub A) (spkPriv A)) (a_cipher ack) = (dr, Inr pt)"
    and "reslice16 pt = Inr u"
  shows "receiveAck P rnd A ack = (A\<lparr>spkPub := [], spkPriv := [], ratchet := Some dr,
      RemoteUUID := u, IdentityKey := []\<rparr>, True, None)"
  using assms by (simp add: receiveAck_def Let_def)

text \<open>The handshake on the level of messages, independent of how they travel.\<close>

lemma handshake_core:
  assumes "aesLaw P" and "hmacLaw P" and "dhLaw P" and "sha512Law P"
    and "edKey P (IdentityKey A)" and "edKey P (IdentityKey B)"
    and "VerifyPeer A (edPublic (IdentityKey B))" and "VerifyPeer B (edPublic (IdentityKey A))"
    and "length (LocalUUID A) = 16" and "length (LocalUUID B) = 16" and "ratchet A = None"
    and "x25519_base P (map f' [0..<32]) \<noteq> x25519_base P (map f [0..<32])"
  obtains A1 offer ackMsg ack drA drB where
    "createOffer P (RandOk f) A = (A1, Inr offer)" and "msgValid (OfferM offer)"
    and "o_uuid offer = LocalUUID A" and "o_nick offer = Me A" and "o_idKey offer = edPublic (IdentityKey A)"
    and "A1 = A\<lparr>spkPub := spkPub A1, spkPriv := spkPriv A1\<rparr>"
    and "receiveOffer P (\<lambda>i. RandOk (g i)) B offer =
      (B\<lparr>RemoteUUID := LocalUUID A, ratchet := Some drB, IdentityKey := []\<rparr>, True, ackMsg, None)"
    and "unmarshalMessage ackMsg = Inr (sessAck, AckM ack)" and "a_uuid ack = LocalUUID A"
    and "receiveAck P (RandOk f') A1 ack = (A1\<lparr>spkPub := [], spkPriv := [], ratchet := Some drA,
      RemoteUUID := LocalUUID B, IdentityKey := []\<rparr>, True, None)"
    and "paired P drA drB [] []" and "dr_sendNo drB = 1" and "dr_prevSendNo drB = 0"
    and "dr_recvNo drA = 1" and "dr_sendNo drA = 0"
proof -
  let ?a = "IdentityKey A" and ?b = "IdentityKey B"
  let ?priv = "map f [0..<32]" and ?pub = "x25519_base P (map f [0..<32])"
  have "length ?a = 64" using assms(5) by (simp add: edKey_def)
  then obtain sig where spk: "CreateNewSpk P (RandOk f) ?a = Inr (?pub, ?priv, sig)"
    using CreateNewSpk_ok by blast
  obtain k ek where
    ci: "CreateInitialMessage P (RandOk (g 0)) ?b (edPublic ?a) ?pub sig = Inr (k, edPublic ?b @ edPublic ?a, ek)"
    and ri: "ReceiveInitialMessage P ?a (edPublic ?b) ?priv ek = Inr (k, edPublic ?b @ edPublic ?a)"
    and l: "length k = 32" "length ek = 32"
    using x3dh_shared [OF assms(3,4,6,5) spk, of "g 0"] by blast
  let ?ad = "edPublic ?b @ edPublic ?a" and ?pt = "goCopy 16 (LocalUUID B) @ map (g 2) [0..<7]"
  let ?o = "\<lparr>o_idKey = edPublic ?a, o_spKey = ?pub, o_spSig = sig, o_uuid = LocalUUID A, o_nick = Me A\<rparr>"
  let ?A1 = "A\<lparr>spkPub := ?pub, spkPriv := ?priv\<rparr>"
  note off = createOffer_ok [OF assms(3,5,9) spk]
  obtain dr where ca: "CreateActive P (RandOk (g 1)) k ?ad ?pub = Inr dr"
    by (simp add: CreateActive_def dhRatchetActive_def dhKeyPair_ok)
  have "length ?priv = 32" by simp
  with l(1) have cr: "created P dr (CreatePassive k ?ad ?pub ?priv)" using ca by (rule createdI)
  have "freshKey P f' (CreatePassive k ?ad ?pub ?priv) []"
    using assms(12) by (simp add: freshKey_def CreatePassive_def dhRatchetPassive_def)
  with assms(1-3) cr obtain drB ct drA where en: "Encrypt P (RandOk (g 3)) dr ?pt = (drB, Inr ct)"
    and de: "Decrypt P (RandOk f') (CreatePassive k ?ad ?pub ?priv) ct = (drA, Inr ?pt)"
    and p: "paired P drA drB [] []" and z: "dr_sendNo drB = 1" "dr_prevSendNo drB = 0"
      "dr_recvNo drA = 1" "dr_sendNo drA = 0"
    by (rule first_exchange)
  obtain s' where ack: "receiveOffer P (\<lambda>i. RandOk (g i)) B ?o =
      (B\<lparr>RemoteUUID := LocalUUID A, ratchet := Some drB, IdentityKey := []\<rparr>, True, s', None)"
    and us': "unmarshalMessage s' = Inr (sessAck, AckM \<lparr>a_idKey = edPublic ?b, a_eKey = ek,
      a_uuid = LocalUUID A, a_cipher = ct\<rparr>)"
    by (rule receiveOffer_ok [of B ?o P "\<lambda>i. RandOk (g i)" k ?ad ek dr "g 2" drB ct])
      (use assms(6,8,9) ci ca en l in \<open>simp_all add: edKey_def\<close>)
  have "reslice16 ?pt = Inr (LocalUUID B)" using assms(10) reslice16_prefix by simp
  then have rec: "receiveAck P (RandOk f') ?A1 \<lparr>a_idKey = edPublic ?b, a_eKey = ek, a_uuid = LocalUUID A, a_cipher = ct\<rparr> =
      (?A1\<lparr>spkPub := [], spkPriv := [], ratchet := Some drA, RemoteUUID := LocalUUID B, IdentityKey := []\<rparr>, True, None)"
    using receiveAck_ok [of ?A1 "\<lparr>a_idKey = edPublic ?b, a_eKey = ek, a_uuid = LocalUUID A, a_cipher = ct\<rparr>"
        P k ?ad "RandOk f'" drA ?pt "LocalUUID B"] assms(7,11) ri de by simp
  show thesis by (rule that [OF off _ _ _ _ ack us' _ rec p z]) simp_all
qed

lemma handshake_ok:
  assumes "aesLaw P" and "hmacLaw P" and "dhLaw P" and "sha512Law P"
    and "edKey P (IdentityKey A)" and "edKey P (IdentityKey B)"
    and "VerifyPeer A (edPublic (IdentityKey B))" and "VerifyPeer B (edPublic (IdentityKey A))"
    and "length (LocalUUID A) = 16" and "length (LocalUUID B) = 16" and "ratchet A = None"
    and "x25519_base P (map f' [0..<32]) \<noteq> x25519_base P (map f [0..<32])"
  shows "\<exists>A1 offerMsg B1 ackMsg A2 drA drB.
    Offer P (RandOk f) A = (A1, Inr offerMsg)
    \<and> Acknowledge P (\<lambda>i. RandOk (g i)) B offerMsg = (B1, ackMsg, None)
    \<and> Receive P (\<lambda>i. RandOk f') A1 ackMsg = (A2, True, False, [], None)
    \<and> ratchet A2 = Some drA \<and> ratchet B1 = Some drB
    \<and> RemoteUUID A2 = LocalUUID B \<and> RemoteUUID B1 = LocalUUID A
    \<and> IdentityKey A2 = [] \<and> IdentityKey B1 = []
    \<and> paired P drA drB [] [] \<and> dr_sendNo drB = 1 \<and> dr_prevSendNo drB = 0
    \<and> dr_recvNo drA = 1 \<and> dr_sendNo drA = 0"
proof -
  obtain A1 offer ackMsg ack drA drB where o: "createOffer P (RandOk f) A = (A1, Inr offer)" "msgValid (OfferM offer)"
    and b: "receiveOffer P (\<lambda>i. RandOk (g i)) B offer =
      (B\<lparr>RemoteUUID := LocalUUID A, ratchet := Some drB, IdentityKey := []\<rparr>, True, ackMsg, None)"
    and u: "unmarshalMessage ackMsg = Inr (sessAck, AckM ack)"
    and a: "receiveAck P (RandOk f') A1 ack = (A1\<lparr>spkPub := [], spkPriv := [], ratchet := Some drA,
      RemoteUUID := LocalUUID B, IdentityKey := []\<rparr>, True, None)"
    and p: "paired P drA drB [] []" and z: "dr_sendNo drB = 1" "dr_prevSendNo drB = 0"
      "dr_recvNo drA = 1" "dr_sendNo drA = 0"
    by (rule handshake_core [OF assms])
  from o(2) obtain s where "marshalMessage sessOffer (OfferM offer) = Inr s"
    "unmarshalMessage s = Inr (sessOffer, OfferM offer)" by (rule transport) simp
  then have "Offer P (RandOk f) A = (A1, Inr s)"
    "Acknowledge P (\<lambda>i. RandOk (g i)) B s =
      (B\<lparr>RemoteUUID := LocalUUID A, ratchet := Some drB, IdentityKey := []\<rparr>, ackMsg, None)"
    "Receive P (\<lambda>i. RandOk f') A1 ackMsg = (A1\<lparr>spkPub := [], spkPriv := [], ratchet := Some drA,
      RemoteUUID := LocalUUID B, IdentityKey := []\<rparr>, True, False, [], None)"
    using o(1) b u a by (simp_all add: Offer_def Acknowledge_def Receive_def ReceiveMsg_def)
  then show ?thesis using p z by force
qed

lemma paired_honest:
  assumes "aesLaw P" and "hmacLaw P" and "dhLaw P" and "paired P y x [] []"
    and "talk P (x, y, [], []) l s"
  shows "honest l"
  using talk_synced [OF assms(1-3,5)] assms(4) by simp

text \<open>
  C5: the handshake establishes a session: for two parties with valid identity keys that accept each other, the offer, the acknowledgement and its receipt all succeed, each side learns the session identifier of the other and erases its identity key, and from then on every conversation over the two ratchets delivers exactly what was encrypted.
\<close>

theorem handshake_establishes:
  assumes "aesLaw P" and "hmacLaw P" and "dhLaw P" and "sha512Law P"
    and "edKey P (IdentityKey A)" and "edKey P (IdentityKey B)"
    and "VerifyPeer A (edPublic (IdentityKey B))" and "VerifyPeer B (edPublic (IdentityKey A))"
    and "length (LocalUUID A) = 16" and "length (LocalUUID B) = 16" and "ratchet A = None"
    and "x25519_base P (map f' [0..<32]) \<noteq> x25519_base P (map f [0..<32])"
  shows "\<exists>A1 offerMsg B1 ackMsg A2 drA drB.
    Offer P (RandOk f) A = (A1, Inr offerMsg)
    \<and> Acknowledge P (\<lambda>i. RandOk (g i)) B offerMsg = (B1, ackMsg, None)
    \<and> Receive P (\<lambda>i. RandOk f') A1 ackMsg = (A2, True, False, [], None)
    \<and> ratchet A2 = Some drA \<and> ratchet B1 = Some drB
    \<and> RemoteUUID A2 = LocalUUID B \<and> RemoteUUID B1 = LocalUUID A
    \<and> IdentityKey A2 = [] \<and> IdentityKey B1 = []
    \<and> (\<forall>l s. talk P (drB, drA, [], []) l s \<longrightarrow> honest l)"
  using handshake_ok [OF assms, of g] paired_honest [OF assms(1-3)] by blast

definition demoA :: Session where
  "demoA = \<lparr>LocalUUID = replicate 16 1, RemoteUUID = [], Me = str ''alice'', IdentityKey = demoAliceKey,
     VerifyPeer = (\<lambda>_. True), spkPub = [], spkPriv = [], ratchet = None\<rparr>"

definition demoB :: Session where
  "demoB = \<lparr>LocalUUID = replicate 16 2, RemoteUUID = [], Me = str ''bob'', IdentityKey = demoBobKey,
     VerifyPeer = (\<lambda>_. True), spkPub = [], spkPriv = [], ratchet = None\<rparr>"

theorem handshake_establishes_witness:
  "\<exists>A1 offerMsg B1 ackMsg A2 drA drB.
    Offer demo (RandOk (\<lambda>_. 3)) demoA = (A1, Inr offerMsg)
    \<and> Acknowledge demo (\<lambda>i. RandOk (\<lambda>_. word_of_nat i)) demoB offerMsg = (B1, ackMsg, None)
    \<and> Receive demo (\<lambda>i. RandOk (\<lambda>_. 4)) A1 ackMsg = (A2, True, False, [], None)
    \<and> ratchet A2 = Some drA \<and> ratchet B1 = Some drB
    \<and> RemoteUUID A2 = LocalUUID demoB \<and> RemoteUUID B1 = LocalUUID demoA
    \<and> IdentityKey A2 = [] \<and> IdentityKey B1 = []
    \<and> (\<forall>l s. talk demo (drB, drA, [], []) l s \<longrightarrow> honest l)"
  by (rule handshake_establishes [OF demo_laws(3,2,1) demo_sha512Law])
    (simp_all add: demoA_def demoB_def demo_edKey, simp add: demo_def map_replicate_const)

text \<open>
  The session layer is transparent: what Send makes of a plaintext and Receive makes of the text on the other side is exactly what Encrypt and Decrypt of the two ratchets do, errors included, and nothing else of the sessions changes.
\<close>

theorem session_transport:
  assumes "ratchet X = Some x" and "ratchet Y = Some y" and "\<forall>u. length (setTime u) = 16"
    and "Encrypt P rnd x pt = (x', Inr ct)" and "Decrypt P (rs 0) y ct = (y', r)"
  shows "\<exists>msg. Send P setTime rnd X pt = (X\<lparr>ratchet := Some x'\<rparr>, Inr msg)
    \<and> Receive P rs Y msg = (Y\<lparr>ratchet := Some y'\<rparr>,
        case r of Inl e \<Rightarrow> (False, False, [], Some e) | Inr pt' \<Rightarrow> (False, False, pt', None))"
proof -
  let ?d = "\<lparr>d_uuid = encTime setTime (RemoteUUID X), d_payload = ct\<rparr>"
  have "msgValid (DataM ?d)"
    using assms(3) Encrypt_nonempty [OF assms(4)] by (simp add: dataValid_def encTime_def)
  then obtain s where "marshalMessage sessData (DataM ?d) = Inr s"
    "unmarshalMessage s = Inr (sessData, DataM ?d)" by (rule transport) simp
  then show ?thesis
    using assms(1,2,4,5)
    by (auto simp: Send_def Receive_def ReceiveMsg_def receiveData_def split: sum.split)
qed

theorem session_transport_witness:
  "\<exists>alice ct alice' bob' r msg.
    CreateActive demo (RandOk (\<lambda>_. 3)) (replicate 32 1) [9] (x25519_base demo (replicate 32 2)) = Inr alice
    \<and> Encrypt demo (RandOk (\<lambda>_. 0)) alice [72, 105] = (alice', Inr ct)
    \<and> Decrypt demo (RandOk (\<lambda>_. 4)) demoBob ct = (bob', r)
    \<and> Send demo (goCopy 16) (RandOk (\<lambda>_. 0)) (demoA\<lparr>ratchet := Some alice\<rparr>) [72, 105] =
      (demoA\<lparr>ratchet := Some alice, ratchet := Some alice'\<rparr>, Inr msg)
    \<and> Receive demo (\<lambda>_. RandOk (\<lambda>_. 4)) (demoB\<lparr>ratchet := Some demoBob\<rparr>) msg =
      (demoB\<lparr>ratchet := Some demoBob, ratchet := Some bob'\<rparr>,
        case r of Inl e \<Rightarrow> (False, False, [], Some e) | Inr pt' \<Rightarrow> (False, False, pt', None))"
proof -
  obtain alice where a: "CreateActive demo (RandOk (\<lambda>_. 3)) (replicate 32 1) [9]
      (x25519_base demo (replicate 32 2)) = Inr alice" and c: "created demo alice demoBob"
    by (rule demo_alice)
  from demo_laws(3,2,1) c demo_fresh obtain alice' ct bob' where
    e: "Encrypt demo (RandOk (\<lambda>_. 0)) alice [72, 105] = (alice', Inr ct)"
    and d: "Decrypt demo (RandOk (\<lambda>_. 4)) demoBob ct = (bob', Inr [72, 105])"
    by (rule first_exchange)
  have "\<exists>msg. Send demo (goCopy 16) (RandOk (\<lambda>_. 0)) (demoA\<lparr>ratchet := Some alice\<rparr>) [72, 105] =
      (demoA\<lparr>ratchet := Some alice, ratchet := Some alice'\<rparr>, Inr msg)
    \<and> Receive demo (\<lambda>_. RandOk (\<lambda>_. 4)) (demoB\<lparr>ratchet := Some demoBob\<rparr>) msg =
      (demoB\<lparr>ratchet := Some demoBob, ratchet := Some bob'\<rparr>,
        case Inr [72, 105] of Inl e \<Rightarrow> (False, False, [], Some e) | Inr pt' \<Rightarrow> (False, False, pt', None))"
    by (rule session_transport [OF _ _ _ e d]) simp_all
  with a e d show ?thesis by blast
qed

section \<open>What a peer or an attacker can cause\<close>

lemma dhLoop_no_panic: "\<not> isPanic (dhLoop P acc l)"
  by (induction P acc l rule: dhLoop.induct) (auto split: option.splits)

lemma kdf_no_panic: "\<not> isPanic (kdf P km)"
  using kdf_ok [of P km] by auto

lemma CreateInitialMessage_no_panic:
  assumes "sha512Law P" and "32 \<le> length idKey"
  shows "\<not> isPanic (CreateInitialMessage P rnd idKey peer spk sig)"
proof (cases "length peer = 32")
  case True
  then obtain out where "ed25519PublicKeyToCurve25519 peer = Inr out" by (rule pubConv_eq)
  then show ?thesis
    using assms True by (cases rnd) (simp_all add: CreateInitialMessage_def privConv Public_ok Verify_ok
        isPanic_sum dhLoop_no_panic kdf_no_panic Let_def del: dhLoop.simps)
qed (simp add: CreateInitialMessage_def)

lemma ReceiveInitialMessage_no_panic:
  assumes "sha512Law P" and "32 \<le> length idKey"
  shows "\<not> isPanic (ReceiveInitialMessage P idKey peer spk ek)"
proof (cases "length peer = 32")
  case True
  then obtain out where "ed25519PublicKeyToCurve25519 peer = Inr out" by (rule pubConv_eq)
  then show ?thesis
    using assms by (simp add: ReceiveInitialMessage_def privConv Public_ok
        isPanic_sum dhLoop_no_panic kdf_no_panic del: dhLoop.simps)
qed (simp add: ReceiveInitialMessage_def)

lemma CreateActive_no_panic: "CreateActive P rnd k ad p \<noteq> Inl (Panic s)"
  by (cases rnd) (simp_all add: CreateActive_def dhRatchetActive_def dhKeyPair_def)

lemma receiveOffer_no_panic:
  assumes "sha512Law P" and "32 \<le> length (IdentityKey sess)" and "receiveOffer P rs sess offer = (sess', est, txt, e)"
  shows "e \<noteq> Some (Panic s)"
proof -
  have 1: "CreateInitialMessage P rnd (IdentityKey sess) a b c \<noteq> Inl (Panic s)" for rnd a b c
    using CreateInitialMessage_no_panic [OF assms(1,2)] by (auto simp: isPanic_iff)
  have 2: "Encrypt P rnd dr pt \<noteq> (dr', Inl (Panic s))" for rnd dr pt dr'
    using Encrypt_no_panic [of P rnd dr pt] by (auto simp: isPanic_iff)
  have 3: "randRead rnd 7 \<noteq> (b, Some (Panic s))" for rnd b by (cases rnd) simp_all
  have 4: "marshalMessage sessAck (AckM a) \<noteq> Inl (Panic s)" for a
    by (simp add: marshalMessage_def ackMarshal_def)
  show ?thesis
    using assms(2,3) 1 2 3 4 CreateActive_no_panic
    by (auto simp: receiveOffer_def Let_def Public_ok split: if_splits sum.splits prod.splits option.splits)
qed

lemma receiveAck_no_panic:
  assumes "sha512Law P" and "32 \<le> length (IdentityKey sess)" and "receiveAck P rnd sess ack = (sess', est, e)"
  shows "e \<noteq> Some (Panic s)"
proof -
  have 1: "ReceiveInitialMessage P (IdentityKey sess) a b c \<noteq> Inl (Panic s)" for a b c
    using ReceiveInitialMessage_no_panic [OF assms(1,2)] by (auto simp: isPanic_iff)
  have 2: "Decrypt P rnd dr c \<noteq> (dr', Inl (Panic s))" for dr c dr'
    using Decrypt_no_panic [of P rnd dr c] by (auto simp: isPanic_iff)
  have 3: "reslice16 pt \<noteq> Inl (Panic s)" for pt using reslice16_total [of pt] by auto
  show ?thesis
    using assms(3) 1 2 3
    by (auto simp: receiveAck_def Let_def split: if_splits sum.splits prod.splits)
qed

text \<open>
  C17: as long as a session still holds its identity key, receiving arbitrary text never panics, whatever the state of the session and whatever the cryptographic primitives return, except that SHA-512 has 64 bytes of output: every index and slice expression on the way, from the container over the decoders of the messages and the conversion of keys to the header, the padding and the tag of a ciphertext, stays in range.
\<close>

theorem receive_no_panic:
  assumes "sha512Law P" and "32 \<le> length (IdentityKey sess)"
    and "Receive P rs sess msg = (sess', est, closed, plaintext, e)"
  shows "e \<noteq> Some (Panic s)"
proof -
  have 1: "unmarshalMessage msg \<noteq> Inl (Panic s)"
    using unmarshalMessage_text [of msg] by (auto simp: isPanic_iff)
  have 2: "Decrypt P rnd dr c \<noteq> (dr', Inl (Panic s))" for rnd dr c dr'
    using Decrypt_no_panic [of P rnd dr c] by (auto simp: isPanic_iff)
  show ?thesis
    using assms(3) 1 2 receiveOffer_no_panic [OF assms(1,2)] receiveAck_no_panic [OF assms(1,2)]
    by (auto simp: Receive_def ReceiveMsg_def receiveData_def
        split: if_splits sum.splits prod.splits option.splits Msg.splits)
qed

theorem receive_no_panic_witness:
  "\<exists>sess' est closed plaintext e.
    Receive demo (\<lambda>_. RandOk (\<lambda>_. 0)) demoA (str ''!RAT!9abc!CHT!'') = (sess', est, closed, plaintext, e)
    \<and> e \<noteq> Some (Panic ''index out of range'')"
proof -
  obtain sess' est closed plaintext e where
    r: "Receive demo (\<lambda>_. RandOk (\<lambda>_. 0)) demoA (str ''!RAT!9abc!CHT!'') = (sess', est, closed, plaintext, e)"
    by (cases "Receive demo (\<lambda>_. RandOk (\<lambda>_. 0)) demoA (str ''!RAT!9abc!CHT!'')") auto
  have "32 \<le> length (IdentityKey demoA)" by (simp add: demoA_def demoAliceKey_def)
  from receive_no_panic [OF demo_sha512Law this r] r show ?thesis by blast
qed

text \<open>
  C39: an acknowledgement that passes the identity check but fails to decrypt leaves the session locked: its prekey is gone and every later acknowledgement, the genuine one included, is refused because the session counts as active.
\<close>

theorem failed_ack_blocks:
  assumes "ratchet A = None" and "VerifyPeer A (a_idKey ack)"
    and "ReceiveInitialMessage P (IdentityKey A) (a_idKey ack) (spkPriv A) (a_eKey ack) = Inr (k, ad)"
    and "Decrypt P rnd (CreatePassive k ad (spkPub A) (spkPriv A)) (a_cipher ack) = (dr, Inl e)"
    and "receiveAck P rnd A ack = (A', est, err)"
  shows "est = False \<and> err = Some e \<and> spkPriv A' = []
    \<and> receiveAck P rnd' A' ack' = (A', False, Some ErrActive)"
  using assms by (auto simp: receiveAck_def Let_def)

theorem failed_ack_blocks_witness:
  "\<exists>A' est err. receiveAck demo (RandOk (\<lambda>_. 0)) (demoA\<lparr>spkPriv := replicate 32 3\<rparr>)
      \<lparr>a_idKey = edPublic demoBobKey, a_eKey = replicate 32 9, a_uuid = [], a_cipher = [1]\<rparr> = (A', est, err)
    \<and> est = False \<and> err = Some ErrCipherShort \<and> spkPriv A' = []
    \<and> receiveAck demo (RandOk (\<lambda>_. 0)) A'
        \<lparr>a_idKey = [], a_eKey = [], a_uuid = [], a_cipher = []\<rparr> = (A', False, Some ErrActive)"
proof -
  let ?A = "demoA\<lparr>spkPriv := replicate 32 3\<rparr>"
  let ?ack = "\<lparr>a_idKey = edPublic demoBobKey, a_eKey = replicate 32 9, a_uuid = [], a_cipher = [1]\<rparr>"
  have "\<exists>r. ReceiveInitialMessage demo (IdentityKey ?A) (a_idKey ?ack) (spkPriv ?A) (a_eKey ?ack) = Inr r"
    using edKey_converted [OF demo_edKey(2)] by (simp add: ReceiveInitialMessage_def demoA_def privConv [OF demo_sha512Law]
        demoAliceKey_def) (simp add: demo_def kdf_def Public_ok)
  then obtain k ad where
    r: "ReceiveInitialMessage demo (IdentityKey ?A) (a_idKey ?ack) (spkPriv ?A) (a_eKey ?ack) = Inr (k, ad)"
    by force
  have d: "Decrypt demo (RandOk (\<lambda>_. 0)) (CreatePassive k ad (spkPub ?A) (spkPriv ?A)) (a_cipher ?ack) =
      (CreatePassive k ad (spkPub ?A) (spkPriv ?A), Inl ErrCipherShort)"
    by (simp add: Decrypt_eq headerLen_def)
  obtain A' est err where a: "receiveAck demo (RandOk (\<lambda>_. 0)) ?A ?ack = (A', est, err)"
    by (cases "receiveAck demo (RandOk (\<lambda>_. 0)) ?A ?ack") auto
  have "ratchet ?A = None" "VerifyPeer ?A (a_idKey ?ack)" by (simp_all add: demoA_def)
  from failed_ack_blocks [OF this r d a] a show ?thesis by blast
qed

text \<open>
  C40: a session that was established cannot start another handshake: its identity key is erased, so after Close an Offer panics, and a further offer from an accepted peer with a valid signature makes Receive panic.
\<close>

theorem established_session_panics:
  assumes "IdentityKey sess = []" and "VerifyPeer sess (o_idKey offer)"
    and "length (o_idKey offer) = 32" and "ed_verify P (o_idKey offer) (o_spKey offer) (o_spSig offer)"
  shows "isPanic (snd (Offer P (RandOk f) (fst (Close sess))))
    \<and> snd (ReceiveMsg P (\<lambda>_. RandOk f) sess (OfferM offer)) =
        (False, False, [], Some (Panic ''slice bounds out of range''))"
proof -
  have "CreateNewSpk P (RandOk f) [] = Inl (Panic ''ed25519: bad private key length'')"
    by (simp add: CreateNewSpk_def)
  then have "isPanic (snd (Offer P (RandOk f) (fst (Close sess))))"
    using assms(1) by (simp add: Offer_def createOffer_def Close_def)
  moreover have "CreateInitialMessage P (RandOk f) [] (o_idKey offer) (o_spKey offer) (o_spSig offer) =
      Inl (Panic ''slice bounds out of range'')"
    using assms(3,4) by (simp add: CreateInitialMessage_def ed25519PrivateKeyToCurve25519_def Verify_ok goSlice_def)
  then have "ReceiveMsg P (\<lambda>_. RandOk f) sess (OfferM offer) =
      (sess, False, False, [], Some (Panic ''slice bounds out of range''))"
    using assms(1,2) by (simp add: ReceiveMsg_def receiveOffer_def)
  ultimately show ?thesis by simp
qed

theorem established_session_panics_witness:
  "isPanic (snd (Offer demo (RandOk (\<lambda>_. 0)) (fst (Close (demoA\<lparr>IdentityKey := []\<rparr>)))))
    \<and> snd (ReceiveMsg demo (\<lambda>_. RandOk (\<lambda>_. 0)) (demoA\<lparr>IdentityKey := []\<rparr>)
        (OfferM \<lparr>o_idKey = edPublic demoBobKey, o_spKey = [3], o_spSig = ed_sign demo demoBobKey [3],
           o_uuid = [], o_nick = []\<rparr>)) =
        (False, False, [], Some (Panic ''slice bounds out of range''))"
  by (rule established_session_panics) (use demo_edKey(2) in \<open>simp_all add: demoA_def edKey_def\<close>)

lemma Close_ok:
  assumes "length (RemoteUUID X) = 16"
  obtains msg where "Close X = (X\<lparr>spkPub := [], spkPriv := [], ratchet := None\<rparr>, Inr msg)"
    and "marshalMessage sessClose (CloseM \<lparr>c_uuid = RemoteUUID X, c_payload = [0xff]\<rparr>) = Inr msg"
    and "unmarshalMessage msg = Inr (sessClose, CloseM \<lparr>c_uuid = RemoteUUID X, c_payload = [0xff]\<rparr>)"
proof -
  let ?c = "\<lparr>c_uuid = RemoteUUID X, c_payload = [0xff]\<rparr>"
  have "msgValid (CloseM ?c)" using assms by (simp add: closeValid_def)
  then obtain s where "marshalMessage sessClose (CloseM ?c) = Inr s"
    "unmarshalMessage s = Inr (sessClose, CloseM ?c)" by (rule transport) simp
  then show thesis by (intro that [of s]) (simp_all add: Close_def Let_def)
qed

text \<open>
  Closing is not authenticated: the text that Close produces depends on nothing but the session identifier of the peer, and every session in every state takes any such text as a close request.
\<close>

theorem close_is_unauthenticated:
  assumes "length (RemoteUUID X) = 16"
  shows "\<exists>msg. Close X = (X\<lparr>spkPub := [], spkPriv := [], ratchet := None\<rparr>, Inr msg)
    \<and> (\<forall>Z. RemoteUUID Z = RemoteUUID X \<longrightarrow> snd (Close Z) = Inr msg)
    \<and> (\<forall>P rs Y. Receive P rs Y msg = (Y, False, True, [], None))"
proof -
  obtain s where "Close X = (X\<lparr>spkPub := [], spkPriv := [], ratchet := None\<rparr>, Inr s)"
    "marshalMessage sessClose (CloseM \<lparr>c_uuid = RemoteUUID X, c_payload = [0xff]\<rparr>) = Inr s"
    "unmarshalMessage s = Inr (sessClose, CloseM \<lparr>c_uuid = RemoteUUID X, c_payload = [0xff]\<rparr>)"
    using assms by (rule Close_ok)
  then show ?thesis by (simp add: Close_def Receive_def ReceiveMsg_def Let_def)
qed

theorem close_is_unauthenticated_witness:
  "\<exists>msg. Close (demoA\<lparr>RemoteUUID := replicate 16 2\<rparr>) =
      (demoA\<lparr>RemoteUUID := replicate 16 2, spkPub := [], spkPriv := [], ratchet := None\<rparr>, Inr msg)
    \<and> (\<forall>P rs Y. Receive P rs Y msg = (Y, False, True, [], None))"
proof -
  have "length (RemoteUUID (demoA\<lparr>RemoteUUID := replicate 16 2\<rparr>)) = 16" by simp
  from close_is_unauthenticated [OF this] show ?thesis by blast
qed

end
