(* ===== verification/Marshal.thy ===== *)
theory Marshal
  imports XSession "HOL-Library.Countable"
begin

text \<open>
  Saving and restoring the state: \<open>MarshalBinary\<close> and \<open>UnmarshalBinary\<close> of the ratchets
  (\<open>src/doubleratchet/marshal.go\<close>) and of the session (\<open>src/xochimilco/session.go\<close>). The package
  \<open>encoding/gob\<close> is a parameter: an encoder and a decoder per type of value the code hands to it.
\<close>

section \<open>The gob encoder\<close>

text \<open>
  The anonymous structs the code encodes, as tuples in the order of their fields. A field of type
  \<open>[]byte\<close> that the code later tests against \<open>nil\<close> is a \<open>bytes option\<close>.
\<close>

type_synonym dhrObj = "bytes \<times> bytes \<times> bytes \<times> bytes \<times> bool \<times> bool"
type_synonym kbeObj = "bytes \<times> (int \<times> bytes) list"
type_synonym drObj = "bytes \<times> bytes \<times> bytes \<times> bytes option \<times> bytes option \<times> int \<times> int \<times> int \<times> bytes"
type_synonym sessObj = "bytes \<times> bytes \<times> bytes \<times> bytes \<times> bytes \<times> bytes"

record gobLib =
  gobDhr :: "dhrObj \<Rightarrow> bytes"
  ungobDhr :: "bytes \<Rightarrow> dhrObj \<times> err option"
  gobKbe :: "kbeObj \<Rightarrow> bytes"
  ungobKbe :: "bytes \<Rightarrow> kbeObj \<times> err option"
  gobList :: "bytes list \<Rightarrow> bytes"
  ungobList :: "bytes \<Rightarrow> bytes list result"
  gobDr :: "drObj \<Rightarrow> bytes"
  ungobDr :: "bytes \<Rightarrow> drObj result"
  gobSess :: "sessObj \<Rightarrow> bytes"
  ungobSess :: "bytes \<Rightarrow> sessObj result"

text \<open>Gob does not send empty slices: an empty slice comes back as \<open>nil\<close>.\<close>

fun nilIfEmpty :: "bytes option \<Rightarrow> bytes option" where
  "nilIfEmpty (Some []) = None"
| "nilIfEmpty b = b"

text \<open>
  What the code relies on: encodings are not empty, and decoding an encoding returns the value
  (a map with the same entries, in any order).
\<close>

definition gobLaw :: "gobLib \<Rightarrow> bool" where
  "gobLaw g \<longleftrightarrow>
     (\<forall>v. gobDhr g v \<noteq> [] \<and> ungobDhr g (gobDhr g v) = (v, None))
   \<and> (\<forall>d ks. \<exists>ks'. ungobKbe g (gobKbe g (d, ks)) = ((d, ks'), None) \<and> map_of ks' = map_of ks)
   \<and> (\<forall>v. gobList g v \<noteq> [] \<and> ungobList g (gobList g v) = Inr v)
   \<and> (\<forall>ad dhr p cs cr sn rn pn mkb. gobDr g (ad, dhr, p, cs, cr, sn, rn, pn, mkb) \<noteq> []
        \<and> ungobDr g (gobDr g (ad, dhr, p, cs, cr, sn, rn, pn, mkb)) =
            Inr (ad, dhr, p, nilIfEmpty cs, nilIfEmpty cr, sn, rn, pn, mkb))
   \<and> (\<forall>v. ungobSess g (gobSess g v) = Inr v)"

section \<open>Operations\<close>

definition dhrMarshal :: "gobLib \<Rightarrow> dhRatchet \<Rightarrow> bytes" where
  "dhrMarshal g dhr = gobDhr g (r_rootKey dhr, r_dhPub dhr, r_dhPriv dhr, r_peerDhPub dhr,
     r_isActive dhr, r_isInitialized dhr)"

definition dhrUnmarshal :: "gobLib \<Rightarrow> dhRatchet \<Rightarrow> bytes \<Rightarrow> dhRatchet \<times> err option" where
  "dhrUnmarshal g dhr b =
     (if b = [] then (dhr, None)
      else case ungobDhr g b of ((rootKey, dhPub, dhPriv, peerDhPub, isActive, isInitialized), err) \<Rightarrow>
        (\<lparr>r_rootKey = rootKey, r_dhPub = dhPub, r_dhPriv = dhPriv, r_peerDhPub = peerDhPub,
          r_isActive = isActive, r_isInitialized = isInitialized\<rparr>, err))"

definition kbeMarshal :: "gobLib \<Rightarrow> keyBufferElement \<Rightarrow> bytes" where
  "kbeMarshal g kbe = gobKbe g (e_dhPub kbe, e_msgKeys kbe)"

definition kbeUnmarshal :: "gobLib \<Rightarrow> bytes \<Rightarrow> keyBufferElement \<times> err option" where
  "kbeUnmarshal g b = (case ungobKbe g b of ((dhPub, msgKeys), err) \<Rightarrow>
     (\<lparr>e_dhPub = dhPub, e_msgKeys = msgKeys\<rparr>, err))"

text \<open>\<open>Do\<close> collects the slots that are not empty, in the order of the ring.\<close>

definition kbMarshal :: "gobLib \<Rightarrow> keyBuffer \<Rightarrow> bytes" where
  "kbMarshal g kb = gobList g (map (kbeMarshal g) (List.map_filter id (buff kb)))"

text \<open>The decoder of a slice of elements calls \<open>UnmarshalBinary\<close> for each of them.\<close>

fun kbeAll :: "gobLib \<Rightarrow> bytes list \<Rightarrow> keyBufferElement list result" where
  "kbeAll g [] = Inr []"
| "kbeAll g (b # bs) =
     (case kbeUnmarshal g b of (kbe, Some e) \<Rightarrow> Inl e
      | (kbe, None) \<Rightarrow> (case kbeAll g bs of Inl e \<Rightarrow> Inl e | Inr lis \<Rightarrow> Inr (kbe # lis)))"

text \<open>
  The loop that refills the ring. The result of \<open>kb.buff.Prev()\<close> is discarded, so the pointer does
  not move and every element is written to the same slot.
\<close>

fun restoreLoop :: "keyBufferElement option list \<Rightarrow> keyBufferElement list \<Rightarrow> keyBufferElement option list" where
  "restoreLoop r [] = r"
| "restoreLoop r (kbe # lis) =
     (let r = r[0 := Some kbe]; discarded = ringPrev r in restoreLoop r lis)"

definition kbUnmarshal :: "gobLib \<Rightarrow> keyBuffer \<Rightarrow> bytes \<Rightarrow> keyBuffer \<times> err option" where
  "kbUnmarshal g kb b =
     (if b = [] then (kb, None)
      else case ungobList g b of Inl e \<Rightarrow> (kb, Some e)
      | Inr items \<Rightarrow> (case kbeAll g items of Inl e \<Rightarrow> (kb, Some e)
        | Inr lis \<Rightarrow> (kb\<lparr>buff := restoreLoop (buff kb) lis\<rparr>, None)))"

definition drMarshal :: "gobLib \<Rightarrow> doubleRatchet \<Rightarrow> bytes" where
  "drMarshal g dr = gobDr g (dr_associatedData dr, dhrMarshal g (dr_dhr dr), dr_peerDhPub dr,
     dr_chainKeySend dr, dr_chainKeyRecv dr, dr_sendNo dr, dr_recvNo dr, dr_prevSendNo dr,
     kbMarshal g (dr_msgKeyBuffer dr))"

text \<open>
  The zero values \<open>&dhRatchet{}\<close> and \<open>&DoubleRatchet{}\<close>. The two pointers of the latter are \<open>nil\<close> in the
  code; the values here are placeholders that nothing reads: \<open>UnmarshalBinary\<close> allocates both before
  it succeeds (lemma \<open>drUnmarshal_allocates\<close>), and after an error the session is dropped.
\<close>

definition zeroDhr :: dhRatchet where
  "zeroDhr = \<lparr>r_rootKey = [], r_dhPub = [], r_dhPriv = [], r_peerDhPub = [],
     r_isActive = False, r_isInitialized = False\<rparr>"

definition zeroRatchet :: doubleRatchet where
  "zeroRatchet = \<lparr>dr_associatedData = [], dr_dhr = zeroDhr, dr_peerDhPub = [], dr_chainKeySend = None,
     dr_chainKeyRecv = None, dr_sendNo = 0, dr_recvNo = 0, dr_prevSendNo = 0,
     dr_msgKeyBuffer = newKeyBuffer\<rparr>"

definition drUnmarshal :: "gobLib \<Rightarrow> doubleRatchet \<Rightarrow> bytes \<Rightarrow> doubleRatchet \<times> err option" where
  "drUnmarshal g dr b =
     (if b = [] then (dr, None)
      else case ungobDr g b of Inl e \<Rightarrow> (dr, Some e)
      | Inr (ad, dhr, peer, ckSend, ckRecv, sendNo, recvNo, prevSendNo, mkb) \<Rightarrow>
          (let dr = dr\<lparr>dr_associatedData := ad, dr_peerDhPub := peer, dr_chainKeySend := ckSend,
                 dr_chainKeyRecv := ckRecv, dr_sendNo := sendNo, dr_recvNo := recvNo\<rparr>;
               (r, err) = dhrUnmarshal g zeroDhr dhr;
               dr = dr\<lparr>dr_dhr := r\<rparr>
           in case err of Some e \<Rightarrow> (dr, Some e)
              | None \<Rightarrow> (case kbUnmarshal g newKeyBuffer mkb of
                  (kb, err) \<Rightarrow> (dr\<lparr>dr_msgKeyBuffer := kb\<rparr>, err))))"

definition sessMarshal :: "gobLib \<Rightarrow> Session \<Rightarrow> bytes" where
  "sessMarshal g sess = gobSess g (LocalUUID sess, RemoteUUID sess, Me sess, spkPub sess, spkPriv sess,
     case ratchet sess of None \<Rightarrow> [] | Some dr \<Rightarrow> drMarshal g dr)"

definition sessUnmarshal :: "gobLib \<Rightarrow> Session \<Rightarrow> bytes \<Rightarrow> Session \<times> err option" where
  "sessUnmarshal g sess b =
     (case ungobSess g b of Inl e \<Rightarrow> (sess, Some e)
      | Inr (localUUID, remoteUUID, me, pub, priv, dr) \<Rightarrow>
          (let sess = sess\<lparr>Me := me, LocalUUID := localUUID, RemoteUUID := remoteUUID,
                 spkPub := pub, spkPriv := priv\<rparr>
           in if length dr > 0
              then (case drUnmarshal g zeroRatchet dr of (d, err) \<Rightarrow> (sess\<lparr>ratchet := Some d\<rparr>, err))
              else (sess, None)))"

section \<open>Lemmas\<close>

lemma drUnmarshal_allocates:
  "b \<noteq> [] \<Longrightarrow> drUnmarshal g dr b = (dr', None) \<Longrightarrow>
     drUnmarshal g (dr\<lparr>dr_dhr := dhr, dr_msgKeyBuffer := kb\<rparr>) b = (dr', None)"
  by (auto simp: drUnmarshal_def Let_def split: sum.splits prod.splits option.splits)

lemma restoreLoop_last: "restoreLoop r es = (if es = [] then r else r[0 := Some (last es)])"
  by (induction r es rule: restoreLoop.induct) (simp_all add: Let_def)

lemma dhr_roundtrip: "gobLaw g \<Longrightarrow> dhrUnmarshal g d (dhrMarshal g dhr) = (dhr, None)"
  by (simp add: gobLaw_def dhrMarshal_def dhrUnmarshal_def)

text \<open>Two buffer elements with the same key and the same map.\<close>

definition sameElement :: "keyBufferElement \<Rightarrow> keyBufferElement \<Rightarrow> bool" where
  "sameElement x y \<longleftrightarrow> e_dhPub x = e_dhPub y \<and> map_of (e_msgKeys x) = map_of (e_msgKeys y)"

lemma kbe_roundtrip:
  assumes "gobLaw g"
  shows "\<exists>e'. kbeUnmarshal g (kbeMarshal g e) = (e', None) \<and> sameElement e' e"
proof -
  obtain ks' where "ungobKbe g (gobKbe g (e_dhPub e, e_msgKeys e)) = ((e_dhPub e, ks'), None)"
    "map_of ks' = map_of (e_msgKeys e)"
    using assms unfolding gobLaw_def by blast
  then show ?thesis by (simp add: kbeUnmarshal_def kbeMarshal_def sameElement_def)
qed

lemma kbeAll_roundtrip:
  assumes "gobLaw g"
  shows "\<exists>es'. kbeAll g (map (kbeMarshal g) es) = Inr es' \<and> list_all2 sameElement es' es"
proof (induction es)
  case (Cons e es)
  then obtain es' where "kbeAll g (map (kbeMarshal g) es) = Inr es'" "list_all2 sameElement es' es" by blast
  moreover obtain e' where "kbeUnmarshal g (kbeMarshal g e) = (e', None)" "sameElement e' e"
    using kbe_roundtrip [OF assms] by blast
  ultimately show ?case by simp
qed simp

lemma single_inv:
  "kbInv \<lparr>buff = (buff newKeyBuffer)[0 := Some e]\<rparr> \<and> cached \<lparr>buff = (buff newKeyBuffer)[0 := Some e]\<rparr> = [e]"
  by (rule kbInv_intro) (simp_all add: newKeyBuffer_def ringNew_def maxSkipChains_def eval_nat_numeral)

lemma find_single:
  "find \<lparr>buff = (buff newKeyBuffer)[0 := Some e]\<rparr> d n =
    (if d = e_dhPub e
     then (case map_of (e_msgKeys e) n of None \<Rightarrow> Inl ErrMsgNotCached | Some k \<Rightarrow> Inr k)
     else Inl ErrKeyNotCached)"
  using single_inv [of e] by (auto simp: find_specLookup split: option.splits)

lemma find_new: "find newKeyBuffer d n = Inl ErrKeyNotCached"
  by (simp add: find_specLookup kbInv_new cached_new)

text \<open>What is left of a buffer: the oldest cached chain.\<close>

definition restoredBuffer :: "keyBuffer \<Rightarrow> keyBuffer \<Rightarrow> bool" where
  "restoredBuffer kb kb' \<longleftrightarrow> kbInv kb' \<and>
     (\<forall>d n. find kb' d n = (if cached kb \<noteq> [] \<and> d = e_dhPub (last (cached kb)) then find kb d n
        else Inl ErrKeyNotCached))"

lemma kb_roundtrip:
  assumes "gobLaw g" and "kbInv kb"
  shows "\<exists>kb'. kbUnmarshal g newKeyBuffer (kbMarshal g kb) = (kb', None) \<and> restoredBuffer kb kb'"
proof -
  obtain es' where es: "kbeAll g (map (kbeMarshal g) (cached kb)) = Inr es'"
    and same: "list_all2 sameElement es' (cached kb)"
    using kbeAll_roundtrip [OF assms(1)] by blast
  let ?kb = "\<lparr>buff = restoreLoop (buff newKeyBuffer) es'\<rparr>"
  have u: "kbUnmarshal g newKeyBuffer (kbMarshal g kb) = (?kb, None)"
    using assms(1) es by (simp add: kbUnmarshal_def kbMarshal_def cached_def gobLaw_def newKeyBuffer_def)
  show ?thesis
  proof (cases "cached kb = []")
    case True
    with same have "?kb = newKeyBuffer" by (simp add: newKeyBuffer_def)
    with u True show ?thesis by (simp add: find_new restoredBuffer_def kbInv_new)
  next
    case False
    with same have ne: "es' \<noteq> []" by auto
    have l: "sameElement (last es') (last (cached kb))"
      using same ne False by (metis last_conv_nth length_greater_0_conv list_all2_conv_all_nth diff_less zero_less_one)
    have i: "length (cached kb) - 1 < length (cached kb)" using False by simp
    have "distinct (map e_dhPub (cached kb))" using assms(2) by (simp add: kbInv_def)
    with i have f: "find kb (e_dhPub (last (cached kb))) n =
        (case map_of (e_msgKeys (last (cached kb))) n of None \<Rightarrow> Inl ErrMsgNotCached | Some k \<Rightarrow> Inr k)" for n
      using specLookup_present [of "cached kb" "length (cached kb) - 1"] False
      by (simp add: find_specLookup [OF assms(2)] last_conv_nth)
    have "find ?kb d n = (if cached kb \<noteq> [] \<and> d = e_dhPub (last (cached kb)) then find kb d n
        else Inl ErrKeyNotCached)" for d n
      using ne l False f by (simp add: restoreLoop_last find_single sameElement_def)
    moreover have "kbInv ?kb" using ne single_inv by (simp add: restoreLoop_last)
    ultimately show ?thesis using u by (auto simp: restoredBuffer_def)
  qed
qed

text \<open>The chain keys of a ratchet are absent or not empty.\<close>

definition keysPresent :: "doubleRatchet \<Rightarrow> bool" where
  "keysPresent dr \<longleftrightarrow> dr_chainKeySend dr \<noteq> Some [] \<and> dr_chainKeyRecv dr \<noteq> Some []"

lemma nilIfEmpty_id: "b \<noteq> Some [] \<Longrightarrow> nilIfEmpty b = b"
  by (cases b rule: nilIfEmpty.cases) auto

lemma dr_roundtrip:
  assumes "gobLaw g" and "kbInv (dr_msgKeyBuffer dr)" and "keysPresent dr"
  shows "\<exists>kb. drUnmarshal g dr0 (drMarshal g dr) =
      (dr\<lparr>dr_prevSendNo := dr_prevSendNo dr0, dr_msgKeyBuffer := kb\<rparr>, None)
    \<and> restoredBuffer (dr_msgKeyBuffer dr) kb"
proof -
  obtain kb where kb: "kbUnmarshal g newKeyBuffer (kbMarshal g (dr_msgKeyBuffer dr)) = (kb, None)"
    and f: "restoredBuffer (dr_msgKeyBuffer dr) kb"
    using kb_roundtrip [OF assms(1,2)] by blast
  have "nilIfEmpty (dr_chainKeySend dr) = dr_chainKeySend dr" "nilIfEmpty (dr_chainKeyRecv dr) = dr_chainKeyRecv dr"
    using assms(3) by (simp_all add: keysPresent_def nilIfEmpty_id)
  then have g: "ungobDr g (drMarshal g dr) = Inr (dr_associatedData dr, dhrMarshal g (dr_dhr dr),
      dr_peerDhPub dr, dr_chainKeySend dr, dr_chainKeyRecv dr, dr_sendNo dr, dr_recvNo dr,
      dr_prevSendNo dr, kbMarshal g (dr_msgKeyBuffer dr))" "drMarshal g dr \<noteq> []"
    using assms(1) by (simp_all add: gobLaw_def drMarshal_def)
  have "drUnmarshal g dr0 (drMarshal g dr) =
      (dr\<lparr>dr_prevSendNo := dr_prevSendNo dr0, dr_msgKeyBuffer := kb\<rparr>, None)"
    using g kb dhr_roundtrip [OF assms(1)] by (cases dr; cases dr0) (simp add: drUnmarshal_def Let_def)
  with f show ?thesis by blast
qed

text \<open>A session that can be saved, and what it is restored to.\<close>

definition storable :: "Session \<Rightarrow> bool" where
  "storable X \<longleftrightarrow> (\<forall>dr. ratchet X = Some dr \<longrightarrow> kbInv (dr_msgKeyBuffer dr) \<and> keysPresent dr)"

fun restoredRatchet :: "doubleRatchet option \<Rightarrow> doubleRatchet option \<Rightarrow> bool" where
  "restoredRatchet None r \<longleftrightarrow> r = None"
| "restoredRatchet (Some dr) r \<longleftrightarrow>
     (\<exists>kb. r = Some (dr\<lparr>dr_prevSendNo := 0, dr_msgKeyBuffer := kb\<rparr>)
       \<and> restoredBuffer (dr_msgKeyBuffer dr) kb)"

lemma session_roundtrip:
  assumes "gobLaw g" and "storable X"
  obtains r where "sessUnmarshal g Y (sessMarshal g X) =
      (X\<lparr>IdentityKey := IdentityKey Y, VerifyPeer := VerifyPeer Y, ratchet := r\<rparr>, None)"
    and "if ratchet X = None then r = ratchet Y else restoredRatchet (ratchet X) r"
proof (cases "ratchet X")
  case None
  then show thesis
    using assms(1) that [of "ratchet Y"]
    by (cases X; cases Y) (simp add: sessUnmarshal_def sessMarshal_def gobLaw_def Let_def)
next
  case (Some dr)
  then obtain kb where d: "drUnmarshal g zeroRatchet (drMarshal g dr) =
      (dr\<lparr>dr_prevSendNo := dr_prevSendNo zeroRatchet, dr_msgKeyBuffer := kb\<rparr>, None)"
    and b: "restoredBuffer (dr_msgKeyBuffer dr) kb"
    using dr_roundtrip [OF assms(1), of dr zeroRatchet] assms(2) by (auto simp: storable_def)
  have l: "0 < length (drMarshal g dr)" using assms(1) by (simp add: gobLaw_def drMarshal_def)
  have u: "ungobSess g (sessMarshal g X) =
      Inr (LocalUUID X, RemoteUUID X, Me X, spkPub X, spkPriv X, drMarshal g dr)"
    using assms(1) Some by (simp add: gobLaw_def sessMarshal_def)
  let ?r = "Some (dr\<lparr>dr_prevSendNo := 0, dr_msgKeyBuffer := kb\<rparr>)"
  have "sessUnmarshal g Y (sessMarshal g X) =
      (X\<lparr>IdentityKey := IdentityKey Y, VerifyPeer := VerifyPeer Y, ratchet := ?r\<rparr>, None)"
    using u d l by (cases X; cases Y) (simp add: sessUnmarshal_def Let_def zeroRatchet_def)
  moreover have "restoredRatchet (ratchet X) ?r" using Some b by auto
  ultimately show thesis using that [of ?r] Some by simp
qed

section \<open>Correctness\<close>

text \<open>
  C18: restoring a saved double ratchet succeeds and recovers all its keys and counters except two things: the length of the previous sending chain keeps the value of the ratchet it is restored into, and of the buffer of skipped keys only the oldest cached chain survives; keys of the other chains are no longer found.
\<close>

theorem ratchet_restore:
  assumes "gobLaw g" and "kbInv (dr_msgKeyBuffer dr)" and "keysPresent dr"
  shows "\<exists>kb. drUnmarshal g dr0 (drMarshal g dr) =
      (dr\<lparr>dr_prevSendNo := dr_prevSendNo dr0, dr_msgKeyBuffer := kb\<rparr>, None)
    \<and> (\<forall>d n. find kb d n =
        (if cached (dr_msgKeyBuffer dr) \<noteq> [] \<and> d = e_dhPub (last (cached (dr_msgKeyBuffer dr)))
         then find (dr_msgKeyBuffer dr) d n else Inl ErrKeyNotCached))"
  using dr_roundtrip [OF assms, of dr0] by (auto simp: restoredBuffer_def)

text \<open>A gob library that satisfies the laws: values are numbered and written in unary.\<close>

definition unary :: "'a :: countable \<Rightarrow> bytes" where
  "unary v = replicate (Suc (to_nat v)) 0"

definition ununary :: "bytes \<Rightarrow> 'a :: countable" where
  "ununary b = from_nat (length b - 1)"

lemma ununary_unary [simp]: "ununary (unary v) = v" and unary_nonempty [simp]: "unary v \<noteq> []"
  by (simp_all add: unary_def ununary_def)

definition demoGob :: gobLib where
  "demoGob = \<lparr>gobDhr = unary, ungobDhr = (\<lambda>b. (ununary b, None)),
     gobKbe = unary, ungobKbe = (\<lambda>b. (ununary b, None)),
     gobList = unary, ungobList = (\<lambda>b. Inr (ununary b)),
     gobDr = unary, ungobDr = (\<lambda>b. case ununary b of (ad, dhr, p, cs, cr, r) \<Rightarrow>
        Inr (ad, dhr, p, nilIfEmpty cs, nilIfEmpty cr, r)),
     gobSess = unary, ungobSess = (\<lambda>b. Inr (ununary b))\<rparr>"

lemma demo_gobLaw: "gobLaw demoGob"
  by (auto simp: gobLaw_def demoGob_def)

theorem ratchet_restore_witness:
  "\<exists>kb. drUnmarshal demoGob zeroRatchet (drMarshal demoGob (demoFull\<lparr>dr_prevSendNo := 3\<rparr>)) =
      (demoFull\<lparr>dr_prevSendNo := 3, dr_prevSendNo := dr_prevSendNo zeroRatchet, dr_msgKeyBuffer := kb\<rparr>, None)
    \<and> (\<forall>d n. find kb d n =
        (if cached (dr_msgKeyBuffer (demoFull\<lparr>dr_prevSendNo := 3\<rparr>)) \<noteq> []
            \<and> d = e_dhPub (last (cached (dr_msgKeyBuffer (demoFull\<lparr>dr_prevSendNo := 3\<rparr>))))
         then find (dr_msgKeyBuffer (demoFull\<lparr>dr_prevSendNo := 3\<rparr>)) d n else Inl ErrKeyNotCached))"
  by (rule ratchet_restore [OF demo_gobLaw])
    (simp_all add: demoFull_def demoBob_def CreatePassive_def kbInv_new keysPresent_def)

text \<open>
  Restoring a saved session recovers its identifiers, name and prekey; its ratchet is restored into a new one, so the length of the previous sending chain is lost; the identity key and the verification callback are those of the session it is restored into, and an inactive saved session leaves the ratchet of that session as it is.
\<close>

theorem session_restore:
  assumes "gobLaw g" and "\<forall>dr. ratchet X = Some dr \<longrightarrow> kbInv (dr_msgKeyBuffer dr) \<and> keysPresent dr"
  shows "\<exists>r. sessUnmarshal g Y (sessMarshal g X) =
      (X\<lparr>IdentityKey := IdentityKey Y, VerifyPeer := VerifyPeer Y, ratchet := r\<rparr>, None)
    \<and> (case ratchet X of None \<Rightarrow> r = ratchet Y
       | Some dr \<Rightarrow> (\<exists>kb. r = Some (dr\<lparr>dr_prevSendNo := 0, dr_msgKeyBuffer := kb\<rparr>)))"
proof -
  have "storable X" using assms(2) by (simp add: storable_def)
  with assms(1) obtain r where "sessUnmarshal g Y (sessMarshal g X) =
      (X\<lparr>IdentityKey := IdentityKey Y, VerifyPeer := VerifyPeer Y, ratchet := r\<rparr>, None)"
    and "if ratchet X = None then r = ratchet Y else restoredRatchet (ratchet X) r"
    by (rule session_roundtrip)
  then show ?thesis by (intro exI [of _ r]) (auto split: option.split)
qed

theorem session_restore_witness:
  "\<exists>r. sessUnmarshal demoGob demoB (sessMarshal demoGob (demoA\<lparr>ratchet := Some demoFull\<rparr>)) =
      (demoA\<lparr>ratchet := Some demoFull, IdentityKey := IdentityKey demoB, VerifyPeer := VerifyPeer demoB,
        ratchet := r\<rparr>, None)
    \<and> (case ratchet (demoA\<lparr>ratchet := Some demoFull\<rparr>) of None \<Rightarrow> r = ratchet demoB
       | Some dr \<Rightarrow> (\<exists>kb. r = Some (dr\<lparr>dr_prevSendNo := 0, dr_msgKeyBuffer := kb\<rparr>)))"
  by (rule session_restore [OF demo_gobLaw])
    (simp add: demoFull_def demoBob_def CreatePassive_def kbInv_new keysPresent_def)

end
