(* ===== verification/DiskSession.thy ===== *)
theory DiskSession
  imports Marshal "HOL-Library.AList" "HOL-Library.Multiset"
begin

text \<open>
  The session manager that keeps sessions in files (\<open>src/session/disk-session.go\<close>): the session
  record around the protocol session, its serialisation, the file store with its permission check
  and the index of names. The directory of the manager is a map from file names to files with a
  mode; the outcome of every system call is an input, so each failure is a branch. The packages
  \<open>gob\<close>, \<open>json\<close>, \<open>keys\<close>, \<open>ulid\<close> and \<open>saltyim\<close> are parameters.
\<close>

section \<open>External code and input\<close>

text \<open>An address of package \<open>saltyim\<close>: what the code reads of it.\<close>

record Addr =
  User :: bytes
  Domain :: bytes
  addrEndpoint :: bytes
  addrKey :: bytes

text \<open>
  The struct that is encoded (name, key, endpoint, pending acknowledgement, session) and the index
  (position, sessions by name).
\<close>

type_synonym diskObj = "bytes \<times> bytes \<times> bytes \<times> bytes \<times> bytes"
type_synonym indexObj = "int \<times> (bytes \<times> bytes) list"

record libs =
  gob :: gobLib
  gobDisk :: "diskObj \<Rightarrow> bytes"
  ungobDisk :: "bytes \<Rightarrow> diskObj result"
  jsonIndex :: "indexObj \<Rightarrow> bytes"
  unjsonIndex :: "bytes \<Rightarrow> indexObj result"
  keyString :: "bytes \<Rightarrow> bytes"
    \<comment> \<open>\<open>EdX25519PublicKey.String\<close> on the bytes of a key\<close>
  parseID :: "bytes \<Rightarrow> bytes result"
  keyFromID :: "bytes \<Rightarrow> bytes result"
    \<comment> \<open>\<open>NewEdX25519PublicKeyFromID\<close>\<close>
  x25519Public :: "bytes \<Rightarrow> bytes"
    \<comment> \<open>\<open>EdX25519PublicKey.X25519PublicKey().Bytes32()\<close>\<close>
  x25519Private :: "bytes \<Rightarrow> bytes"
    \<comment> \<open>\<open>EdX25519Key.X25519Key().Bytes32()\<close>\<close>
  x25519Own :: "bytes \<Rightarrow> bytes"
    \<comment> \<open>\<open>EdX25519Key.X25519Key().PublicKey().Bytes32()\<close>\<close>
  ulidEntropy :: "bytes \<Rightarrow> bytes"
    \<comment> \<open>\<open>ULID.Entropy\<close>\<close>
  umask :: "32 word"
    \<comment> \<open>the file mode creation mask of the process\<close>

text \<open>
  The input of one operation from outside the program: random bytes, new identifiers, the clock,
  the address lookup, and for every system call the error it returns, if any. A failing write has
  written a prefix.
\<close>

record io =
  ioRand :: reads
  ioSeal :: entropy
  ioUlid :: bytes
  ioSetTime :: "bytes \<Rightarrow> bytes"
  ioNow :: nat
  ioLookup :: "bytes \<Rightarrow> Addr result"
  ioLock :: "err option"
  ioStat :: "err option"
  ioOpen :: "err option"
  ioRead :: "err option"
  ioMkdir :: "err option"
  ioCreate :: "err option"
  ioWrite :: "(nat \<times> err) option"
  ioClose :: "err option"
  ioRemove :: "err option"
  ioPost :: "err option"

record fileNode =
  fileMode :: "32 word"
  fileData :: bytes

type_synonym disk = "bytes \<Rightarrow> fileNode option"

section \<open>The session of a peer\<close>

text \<open>\<open>inner\<close> is the embedded pointer to the protocol session.\<close>

record PeerSession =
  Name :: bytes
  PeerKey :: bytes
  Endpoint :: bytes
  PendingAck :: bytes
  inner :: "Session option"

definition SetPeerKey :: "PeerSession \<Rightarrow> bytes \<Rightarrow> bytes \<Rightarrow> PeerSession" where
  "SetPeerKey s name p = s\<lparr>Name := name, inner := map_option (\<lambda>x. x\<lparr>VerifyPeer := (\<lambda>peer. peer = p)\<rparr>) (inner s)\<rparr>"

text \<open>\<open>&xochimilco.Session{}\<close>.\<close>

definition zeroSession :: Session where
  "zeroSession = \<lparr>LocalUUID = [], RemoteUUID = [], Me = [], IdentityKey = [], VerifyPeer = (\<lambda>_. False),
     spkPub = [], spkPriv = [], ratchet = None\<rparr>"

definition zeroPeerSession :: PeerSession where
  "zeroPeerSession = \<lparr>Name = [], PeerKey = [], Endpoint = [], PendingAck = [], inner = None\<rparr>"

definition NewSession :: "bytes \<Rightarrow> bytes \<Rightarrow> bytes \<Rightarrow> bytes \<Rightarrow> Addr \<Rightarrow> PeerSession" where
  "NewSession i me key name them =
     SetPeerKey (zeroPeerSession\<lparr>Endpoint := addrEndpoint them, PeerKey := addrKey them,
         inner := Some (zeroSession\<lparr>IdentityKey := key, Me := me, LocalUUID := i\<rparr>)\<rparr>)
       name (addrKey them)"

definition peerMarshal :: "libs \<Rightarrow> PeerSession \<Rightarrow> bytes result" where
  "peerMarshal L s =
     (case inner s of None \<Rightarrow> Inl (Panic ''nil pointer dereference'')
      | Some x \<Rightarrow> Inr (gobDisk L (Name s, keyString L (PeerKey s), Endpoint s, PendingAck s,
          sessMarshal (gob L) x)))"

text \<open>The error of the inner \<open>UnmarshalBinary\<close> is ignored.\<close>

definition peerUnmarshal :: "libs \<Rightarrow> PeerSession \<Rightarrow> bytes \<Rightarrow> PeerSession \<times> err option" where
  "peerUnmarshal L s b =
     (case ungobDisk L b of Inl e \<Rightarrow> (s, Some e)
      | Inr (name, key, endpoint, pendingAck, sess) \<Rightarrow>
          (let (x, ignored) = sessUnmarshal (gob L) zeroSession sess;
               s = s\<lparr>inner := Some x\<rparr>
           in case parseID L key of Inl e \<Rightarrow> (s, Some e)
              | Inr i \<Rightarrow> (case keyFromID L i of Inl e \<Rightarrow> (s\<lparr>PeerKey := []\<rparr>, Some e)
                | Inr k \<Rightarrow> ((SetPeerKey (s\<lparr>PeerKey := k\<rparr>) name k)\<lparr>Endpoint := endpoint, PendingAck := pendingAck\<rparr>,
                    None))))"

definition peerReceiveMsg :: "prims \<Rightarrow> reads \<Rightarrow> PeerSession \<Rightarrow> Msg \<Rightarrow> PeerSession \<times> received" where
  "peerReceiveMsg P rs s msg =
     (case inner s of None \<Rightarrow> (s, False, False, [], Some (Panic ''nil pointer dereference''))
      | Some x \<Rightarrow> (case ReceiveMsg P rs x msg of
          (x, isEstablished, isClosed, plaintext, err) \<Rightarrow>
            (let s = s\<lparr>inner := Some x\<rparr>
             in if isEstablished then (s\<lparr>PendingAck := plaintext\<rparr>, isEstablished, isClosed, [], err)
                else (s, isEstablished, isClosed, plaintext, err))))"

definition peerOffer :: "prims \<Rightarrow> libs \<Rightarrow> entropy \<Rightarrow> entropy \<Rightarrow> PeerSession \<Rightarrow> PeerSession \<times> bytes result" where
  "peerOffer P L rnd rnd' s =
     (case inner s of None \<Rightarrow> (s, Inl (Panic ''nil pointer dereference''))
      | Some x \<Rightarrow> (case OfferSealed P rnd rnd' x (x25519Public L (PeerKey s)) of
          (x, r) \<Rightarrow> (s\<lparr>inner := Some x\<rparr>, r)))"

section \<open>The session manager\<close>

record DiskSessionManager =
  smMe :: bytes
  smKey :: bytes
  smPos :: int
  smSessions :: "(bytes \<times> bytes) list"

text \<open>The hash \<open>fnv.New128a\<close> of the standard library and the name of a session file.\<close>

definition fnvWrite :: "128 word \<Rightarrow> bytes \<Rightarrow> 128 word" where
  "fnvWrite h bs = fold (\<lambda>b h. xor h (ucast b) * 309485009821345068724781371) bs h"

definition fnvSum :: "128 word \<Rightarrow> bytes" where
  "fnvSum h = map (\<lambda>i. ucast (drop_bit (8 * (15 - i)) h)) [0..<16]"

definition sessionhash :: "libs \<Rightarrow> bytes \<Rightarrow> bytes \<Rightarrow> bytes" where
  "sessionhash L self i =
     (let h = fnvWrite 144066263297769815596495629667062367629 self;
          h = fnvWrite h (ulidEntropy L i)
      in encodeString (fnvSum h))"

definition toULID :: "bytes \<Rightarrow> bytes" where
  "toULID b = goCopy 16 b"

definition ByName :: "io \<Rightarrow> DiskSessionManager \<Rightarrow> bytes \<Rightarrow> DiskSessionManager \<times> bytes" where
  "ByName w sm name =
     (case map_of (smSessions sm) name of Some u \<Rightarrow> (sm, u)
      | None \<Rightarrow> (sm\<lparr>smSessions := AList.update name (ioUlid w) (smSessions sm)\<rparr>, ioUlid w))"

definition fetchKey :: "io \<Rightarrow> bytes \<Rightarrow> Addr result" where
  "fetchKey w to = (case ioLookup w to of Inl e \<Rightarrow> Inl e | Inr addr \<Rightarrow> Inr addr)"

definition New :: "io \<Rightarrow> DiskSessionManager \<Rightarrow> bytes \<Rightarrow> DiskSessionManager \<times> PeerSession result" where
  "New w sm them =
     (case ByName w sm them of (sm, i) \<Rightarrow>
        (case fetchKey w them of Inl e \<Rightarrow> (sm, Inl (wrap ''fetching key for'' e))
         | Inr addr \<Rightarrow> (sm, Inr (NewSession i (smMe sm) (smKey sm) them addr))))"

text \<open>\<open>0066\<close>: group or others may read or write.\<close>

definition weakMode :: "32 word \<Rightarrow> bool" where
  "weakMode m \<longleftrightarrow> and m 54 \<noteq> 0"

text \<open>
  When decoding fails at the outer level the embedded pointer is still \<open>nil\<close>, and the call of
  \<open>Active\<close> dereferences it.
\<close>

definition Get :: "libs \<Rightarrow> io \<Rightarrow> DiskSessionManager \<Rightarrow> disk \<Rightarrow> bytes \<Rightarrow> PeerSession result" where
  "Get L w sm d i =
     (case (ioStat w, d (sessionhash L (smMe sm) i)) of
        (Some e, _) \<Rightarrow> Inl (wrap ''stat'' e)
      | (None, None) \<Rightarrow> Inl (wrap ''stat'' ErrNotExist)
      | (None, Some f) \<Rightarrow>
          (if weakMode (fileMode f) then Inl ErrPermissions
           else case ioOpen w of Some e \<Rightarrow> Inl (wrap ''open'' e)
           | None \<Rightarrow> (case ioRead w of Some e \<Rightarrow> Inl (wrap ''read'' e)
             | None \<Rightarrow> (case peerUnmarshal L zeroPeerSession (fileData f) of (s, err) \<Rightarrow>
                 (case inner s of None \<Rightarrow> Inl (Panic ''nil pointer dereference'')
                  | Some x \<Rightarrow>
                      (let s = (if \<not> Active x then s\<lparr>inner := Some (x\<lparr>IdentityKey := smKey sm\<rparr>)\<rparr> else s)
                       in case err of Some e \<Rightarrow> Inl e | None \<Rightarrow> Inr s))))))"

text \<open>
  Opening with \<open>O_TRUNC|O_CREATE|O_WRONLY\<close> and the mode \<open>perm\<close> for a new file, under a umask. The
  mode \<open>0600\<close> is 384.
\<close>

definition createFile :: "32 word \<Rightarrow> 32 word \<Rightarrow> disk \<Rightarrow> bytes \<Rightarrow> disk" where
  "createFile perm um d name =
     d(name := Some (case d name of Some f \<Rightarrow> f\<lparr>fileData := []\<rparr>
       | None \<Rightarrow> \<lparr>fileMode = and perm (not um), fileData = []\<rparr>))"

definition writeFile :: "disk \<Rightarrow> bytes \<Rightarrow> bytes \<Rightarrow> disk" where
  "writeFile d name b = d(name := map_option (\<lambda>f. f\<lparr>fileData := b\<rparr>) (d name))"

definition Put :: "libs \<Rightarrow> io \<Rightarrow> DiskSessionManager \<Rightarrow> disk \<Rightarrow> PeerSession \<Rightarrow> disk \<times> err option" where
  "Put L w sm d s =
     (case inner s of None \<Rightarrow> (d, Some (Panic ''nil pointer dereference''))
      | Some x \<Rightarrow>
        (let filename = sessionhash L (smMe sm) (toULID (LocalUUID x)) in
         case ioMkdir w of Some e \<Rightarrow> (d, Some e)
         | None \<Rightarrow> (case ioCreate w of Some e \<Rightarrow> (d, Some e)
           | None \<Rightarrow>
              (let d = createFile 384 (umask L) d filename in
               case peerMarshal L s of Inl e \<Rightarrow> (d, Some e)
               | Inr b \<Rightarrow> (case ioWrite w of Some (n, e) \<Rightarrow> (writeFile d filename (take n b), Some e)
                 | None \<Rightarrow> (writeFile d filename b, ioClose w))))))"

definition Delete ::
    "libs \<Rightarrow> io \<Rightarrow> DiskSessionManager \<Rightarrow> disk \<Rightarrow> PeerSession \<Rightarrow> DiskSessionManager \<times> disk \<times> err option" where
  "Delete L w sm d s =
     (case inner s of None \<Rightarrow> (sm, d, Some (Panic ''nil pointer dereference''))
      | Some x \<Rightarrow>
        (let filename = sessionhash L (smMe sm) (toULID (LocalUUID x));
             sm = sm\<lparr>smSessions := AList.delete (Name s) (smSessions sm)\<rparr>
         in case (ioRemove w, d filename) of
              (Some e, _) \<Rightarrow> (sm, d, Some e)
            | (None, None) \<Rightarrow> (sm, d, Some ErrNotExist)
            | (None, Some f) \<Rightarrow> (sm, d(filename := None), None)))"

text \<open>The file of the index.\<close>

definition indexName :: "bytes \<Rightarrow> bytes" where
  "indexName self = str ''sess-'' @ self @ str ''.json''"

definition Load :: "libs \<Rightarrow> io \<Rightarrow> DiskSessionManager \<Rightarrow> disk \<Rightarrow> DiskSessionManager \<times> err option" where
  "Load L w sm d =
     (case (ioOpen w, d (indexName (smMe sm))) of
        (Some e, _) \<Rightarrow> (sm, if isNotExist e then None else Some e)
      | (None, None) \<Rightarrow> (sm, None)
      | (None, Some f) \<Rightarrow> (case unjsonIndex L (fileData f) of Inl e \<Rightarrow> (sm, Some e)
          | Inr (position, items) \<Rightarrow>
              (let sm = (if position > 0 then sm\<lparr>smPos := position\<rparr> else sm)
               in (sm\<lparr>smSessions := fold (\<lambda>(k, v) l. AList.update k v l) items (smSessions sm)\<rparr>, None))))"

text \<open>\<open>order\<close> is the order in which \<open>range\<close> visits the map.\<close>

definition closeManager :: "libs \<Rightarrow> io \<Rightarrow> ((bytes \<times> bytes) list \<Rightarrow> (bytes \<times> bytes) list) \<Rightarrow>
    DiskSessionManager \<Rightarrow> disk \<Rightarrow> disk \<times> err option" where
  "closeManager L w order sm d =
     (let name = indexName (smMe sm) in
      case ioCreate w of Some e \<Rightarrow> (d, Some e)
      | None \<Rightarrow>
          (let d = createFile 384 (umask L) d name; b = jsonIndex L (smPos sm, order (smSessions sm))
           in case ioWrite w of Some (n, e) \<Rightarrow> (writeFile d name (take n b), Some e)
              | None \<Rightarrow> (writeFile d name b, None)))"

definition NewSessionManager :: "libs \<Rightarrow> io \<Rightarrow> bytes \<Rightarrow> bytes \<Rightarrow> disk \<Rightarrow> DiskSessionManager \<times> err option" where
  "NewSessionManager L w self k d = Load L w \<lparr>smMe = self, smKey = k, smPos = -1, smSessions = []\<rparr> d"

definition Identity :: "DiskSessionManager \<Rightarrow> bytes" where
  "Identity sm = smKey sm"

definition Position :: "DiskSessionManager \<Rightarrow> int" where
  "Position sm = smPos sm"

definition SetPosition :: "int \<Rightarrow> DiskSessionManager \<Rightarrow> DiskSessionManager" where
  "SetPosition p sm = sm\<lparr>smPos := p\<rparr>"

definition Sessions :: "((bytes \<times> bytes) list \<Rightarrow> (bytes \<times> bytes) list) \<Rightarrow> DiskSessionManager \<Rightarrow> (bytes \<times> bytes) list" where
  "Sessions order sm = order (smSessions sm)"

section \<open>Laws of the external code\<close>

text \<open>
  Decoding an encoded value returns it; an empty file is no encoding (the decoder reports the end
  of the input); the printed form of a 32-byte key parses to that key.
\<close>

definition libsLaw :: "libs \<Rightarrow> bool" where
  "libsLaw L \<longleftrightarrow> gobLaw (gob L) \<and> (\<forall>v. ungobDisk L (gobDisk L v) = Inr v)
     \<and> (\<exists>e. ungobDisk L [] = Inl e)
     \<and> (\<forall>k. length k = 32 \<longrightarrow> (\<exists>i. parseID L (keyString L k) = Inr i \<and> keyFromID L i = Inr k))"

text \<open>The index with names of ASCII characters and identifiers of 16 bytes survives JSON.\<close>

definition jsonLaw :: "libs \<Rightarrow> bool" where
  "jsonLaw L \<longleftrightarrow> (\<forall>p items. (\<forall>(n, u) \<in> set items. (\<forall>b \<in> set n. b < 128) \<and> length u = 16)
     \<longrightarrow> unjsonIndex L (jsonIndex L (p, items)) = Inr (p, items))"

text \<open>Setting the time of an identifier yields an identifier with the same random part.\<close>

definition ulidLaw :: "libs \<Rightarrow> io \<Rightarrow> bool" where
  "ulidLaw L w \<longleftrightarrow> (\<forall>u. length (ioSetTime w u) = 16)
     \<and> (\<forall>u. length u = 16 \<longrightarrow> ulidEntropy L (ioSetTime w u) = ulidEntropy L u)"

text \<open>No system call of the operation fails.\<close>

definition noFault :: "io \<Rightarrow> bool" where
  "noFault w \<longleftrightarrow> ioStat w = None \<and> ioOpen w = None \<and> ioRead w = None \<and> ioMkdir w = None
     \<and> ioCreate w = None \<and> ioWrite w = None \<and> ioClose w = None \<and> ioRemove w = None"

section \<open>Saving and restoring a session\<close>

definition peerStorable :: "PeerSession \<Rightarrow> bool" where
  "peerStorable s \<longleftrightarrow> (\<exists>x. inner s = Some x \<and> storable x) \<and> length (PeerKey s) = 32"

text \<open>What a stored session is when it is read again by a manager with identity key \<open>k\<close>.\<close>

definition restoredPeer :: "bytes \<Rightarrow> PeerSession \<Rightarrow> PeerSession \<Rightarrow> bool" where
  "restoredPeer k s s' \<longleftrightarrow> (\<exists>x r. inner s = Some x \<and> restoredRatchet (ratchet x) r
     \<and> s' = s\<lparr>inner := Some (x\<lparr>IdentityKey := (if ratchet x = None then k else []),
         VerifyPeer := (\<lambda>p. p = PeerKey s), ratchet := r\<rparr>)\<rparr>)"

lemma restoredRatchet_None: "restoredRatchet q r \<Longrightarrow> r = None \<longleftrightarrow> q = None"
  by (cases q) auto

lemma peer_roundtrip:
  assumes "libsLaw L" and "peerStorable s"
  obtains b x r where "peerMarshal L s = Inr b" and "inner s = Some x" and "restoredRatchet (ratchet x) r"
    and "peerUnmarshal L zeroPeerSession b = (s\<lparr>inner := Some (x\<lparr>IdentityKey := [],
      VerifyPeer := (\<lambda>p. p = PeerKey s), ratchet := r\<rparr>)\<rparr>, None)"
proof -
  from assms(2) obtain x where x: "inner s = Some x" and st: "storable x" and k: "length (PeerKey s) = 32"
    by (auto simp: peerStorable_def)
  have g: "gobLaw (gob L)" using assms(1) by (simp add: libsLaw_def)
  from g st obtain r where u: "sessUnmarshal (gob L) zeroSession (sessMarshal (gob L) x) =
      (x\<lparr>IdentityKey := IdentityKey zeroSession, VerifyPeer := VerifyPeer zeroSession, ratchet := r\<rparr>, None)"
    and r: "if ratchet x = None then r = ratchet zeroSession else restoredRatchet (ratchet x) r"
    by (rule session_roundtrip)
  have r': "restoredRatchet (ratchet x) r" using r by (auto simp: zeroSession_def split: if_splits)
  from assms(1) k obtain i where "parseID L (keyString L (PeerKey s)) = Inr i" "keyFromID L i = Inr (PeerKey s)"
    by (auto simp: libsLaw_def)
  then have "peerUnmarshal L zeroPeerSession (gobDisk L (Name s, keyString L (PeerKey s), Endpoint s, PendingAck s,
      sessMarshal (gob L) x)) = (s\<lparr>inner := Some (x\<lparr>IdentityKey := [],
      VerifyPeer := (\<lambda>p. p = PeerKey s), ratchet := r\<rparr>)\<rparr>, None)"
    using assms(1) u
    by (cases s) (simp add: peerUnmarshal_def libsLaw_def SetPeerKey_def zeroSession_def zeroPeerSession_def)
  with x r' show thesis by (intro that [of _ x r]) (simp_all add: peerMarshal_def)
qed

section \<open>The file store\<close>

lemma newFile_private: "and (and 384 m) 54 = (0 :: 32 word)"
proof -
  have "and (and 384 m) 54 = and m (and 384 54 :: 32 word)" by (simp only: ac_simps)
  also have "\<dots> = 0" by simp
  finally show ?thesis .
qed

lemma createFile_apply [simp]:
  "createFile perm um d n m = (if m = n then Some (case d n of Some f \<Rightarrow> f\<lparr>fileData := []\<rparr>
      | None \<Rightarrow> \<lparr>fileMode = and perm (not um), fileData = []\<rparr>) else d m)"
  by (simp add: createFile_def)

lemma writeFile_apply [simp]:
  "writeFile d n b m = (if m = n then map_option (\<lambda>f. f\<lparr>fileData := b\<rparr>) (d n) else d m)"
  by (simp add: writeFile_def)

text \<open>No other user can read or write a file of the directory: the bits \<open>0066\<close> of its mode are clear.\<close>

definition privateDisk :: "disk \<Rightarrow> bool" where
  "privateDisk d \<longleftrightarrow> (\<forall>n f. d n = Some f \<longrightarrow> and (fileMode f) 54 = 0)"

lemma privateDisk_mode: "privateDisk d \<Longrightarrow> d n = Some f \<Longrightarrow> \<not> weakMode (fileMode f)"
  by (simp add: privateDisk_def weakMode_def)

lemma privateDisk_create [simp]: "privateDisk d \<Longrightarrow> privateDisk (createFile 384 um d n)"
  by (auto simp: privateDisk_def newFile_private split: option.splits)

lemma privateDisk_write [simp]: "privateDisk d \<Longrightarrow> privateDisk (writeFile d n b)"
  by (auto simp: privateDisk_def)

lemma Put_private: "privateDisk d \<Longrightarrow> Put L w sm d s = (d', e) \<Longrightarrow> privateDisk d'"
  by (auto simp: Put_def Let_def split: option.splits sum.splits prod.splits)

lemma Delete_private: "privateDisk d \<Longrightarrow> Delete L w sm d s = (sm', d', e) \<Longrightarrow> privateDisk d'"
  by (auto simp: Delete_def Let_def privateDisk_def split: option.splits if_splits)

lemma closeManager_private: "privateDisk d \<Longrightarrow> closeManager L w order sm d = (d', e) \<Longrightarrow> privateDisk d'"
  by (auto simp: closeManager_def Let_def split: option.splits prod.splits)

text \<open>The identifier of the protocol session.\<close>

definition localID :: "PeerSession \<Rightarrow> bytes" where
  "localID s = (case inner s of None \<Rightarrow> [] | Some x \<Rightarrow> toULID (LocalUUID x))"

lemma Put_ok_disk:
  assumes "Put L w sm d s = (d', None)"
  obtains x b f where "inner s = Some x" and "peerMarshal L s = Inr b" and "fileData f = b"
    and "d' = d(sessionhash L (smMe sm) (localID s) \<mapsto> f)"
    and "fileMode f = (case d (sessionhash L (smMe sm) (localID s)) of None \<Rightarrow> and 384 (not (umask L)) | Some f \<Rightarrow> fileMode f)"
proof -
  let ?n = "sessionhash L (smMe sm) (localID s)"
  let ?d = "createFile 384 (umask L) d ?n"
  from assms obtain x b where x: "inner s = Some x" and b: "peerMarshal L s = Inr b"
    and d: "d' = writeFile ?d ?n b"
    by (auto simp: Put_def Let_def localID_def split: option.splits sum.splits prod.splits)
  obtain f where "?d ?n = Some f"
    and m: "fileMode f = (case d ?n of None \<Rightarrow> and 384 (not (umask L)) | Some f \<Rightarrow> fileMode f)"
    by (auto split: option.splits)
  with d have "d' = d(?n \<mapsto> f\<lparr>fileData := b\<rparr>)" by (intro ext) auto
  with x b m show thesis by (intro that [of x b "f\<lparr>fileData := b\<rparr>"]) simp_all
qed

lemma Put_succeeds:
  assumes "noFault w" and "inner s = Some x"
  shows "snd (Put L w sm d s) = None"
  using assms by (simp add: Put_def noFault_def peerMarshal_def Let_def)

lemma Get_restores:
  assumes "libsLaw L" and "peerStorable s" and "noFault w"
    and "d (sessionhash L (smMe sm) i) = Some f" and "\<not> weakMode (fileMode f)"
    and "peerMarshal L s = Inr (fileData f)"
  shows "\<exists>s'. Get L w sm d i = Inr s' \<and> restoredPeer (smKey sm) s s'"
proof -
  from assms(1,2) obtain b x r where b: "peerMarshal L s = Inr b" and x: "inner s = Some x"
    and r: "restoredRatchet (ratchet x) r"
    and u: "peerUnmarshal L zeroPeerSession b = (s\<lparr>inner := Some (x\<lparr>IdentityKey := [],
      VerifyPeer := (\<lambda>p. p = PeerKey s), ratchet := r\<rparr>)\<rparr>, None)"
    by (rule peer_roundtrip)
  have "b = fileData f" using b assms(6) by simp
  then have "Get L w sm d i = Inr (s\<lparr>inner := Some (x\<lparr>IdentityKey := (if ratchet x = None then smKey sm else []),
      VerifyPeer := (\<lambda>p. p = PeerKey s), ratchet := r\<rparr>)\<rparr>)"
    using assms(3-5) u restoredRatchet_None [OF r] by (simp add: Get_def noFault_def Active_def)
  then show ?thesis using x r by (auto simp: restoredPeer_def)
qed

lemma Put_Get:
  assumes "libsLaw L" and "peerStorable s" and "privateDisk d" and "noFault w'"
    and "Put L w sm d s = (d', None)" and "sessionhash L (smMe sm) i = sessionhash L (smMe sm) (localID s)"
  shows "\<exists>s'. Get L w' sm d' i = Inr s' \<and> restoredPeer (smKey sm) s s'"
proof -
  from assms(5) obtain x b f where b: "peerMarshal L s = Inr b" and f: "fileData f = b"
    and d: "d' = d(sessionhash L (smMe sm) (localID s) \<mapsto> f)"
    by (rule Put_ok_disk)
  have "privateDisk d'" using assms(3,5) by (rule Put_private)
  then have "\<not> weakMode (fileMode f)" unfolding d using fun_upd_same by (rule privateDisk_mode)
  with Get_restores [OF assms(1,2,4), of d' sm i f] b f d assms(6) show ?thesis by simp
qed

text \<open>A session is read from one file, and saving or deleting touches one file.\<close>

lemma Get_cong:
  assumes "smMe sm' = smMe sm" and "smKey sm' = smKey sm"
    and "d' (sessionhash L (smMe sm) i) = d (sessionhash L (smMe sm) i)"
  shows "Get L w sm' d' i = Get L w sm d i"
  unfolding Get_def assms ..

lemma Put_frame:
  "Put L w sm d s = (d', e) \<Longrightarrow> n \<noteq> sessionhash L (smMe sm) (localID s) \<Longrightarrow> d' n = d n"
  by (auto simp: Put_def Let_def localID_def split: option.splits sum.splits prod.splits)

lemma Delete_frame:
  assumes "Delete L w sm d s = (sm', d', e)"
  shows "smMe sm' = smMe sm" and "smKey sm' = smKey sm" and "smPos sm' = smPos sm"
    and "n \<noteq> sessionhash L (smMe sm) (localID s) \<Longrightarrow> d' n = d n"
  using assms by (auto simp: Delete_def Let_def localID_def split: option.splits)

lemma Put_other:
  assumes "Put L w sm d s = (d', e)" and "sessionhash L (smMe sm) i \<noteq> sessionhash L (smMe sm) (localID s)"
  shows "Get L w' sm d' i = Get L w' sm d i"
  using Put_frame [OF assms] by (intro Get_cong) simp_all

lemma Delete_other:
  assumes "Delete L w sm d s = (sm', d', e)" and "sessionhash L (smMe sm) i \<noteq> sessionhash L (smMe sm) (localID s)"
  shows "Get L w' sm' d' i = Get L w' sm d i"
  using Delete_frame [OF assms(1)] assms(2) by (intro Get_cong) simp_all

lemma Delete_succeeds:
  assumes "noFault w" and "Get L w sm d i = Inr q"
    and "sessionhash L (smMe sm) i = sessionhash L (smMe sm) (localID s)" and "inner s \<noteq> None"
  shows "\<exists>sm' d'. Delete L w sm d s = (sm', d', None)"
proof -
  obtain x where x: "inner s = Some x" using assms(4) by blast
  obtain f where "d (sessionhash L (smMe sm) i) = Some f"
    using assms(1,2) by (cases "d (sessionhash L (smMe sm) i)") (auto simp: Get_def noFault_def)
  then show ?thesis using assms(1,3) x by (simp add: Delete_def noFault_def localID_def Let_def)
qed

lemma Delete_Get:
  assumes "Delete L w sm d s = (sm', d', None)" and "ioStat w' = None"
    and "sessionhash L (smMe sm) i = sessionhash L (smMe sm) (localID s)"
  shows "Get L w' sm' d' i = Inl (wrap ''stat'' ErrNotExist)"
proof -
  have "d' (sessionhash L (smMe sm) (localID s)) = None"
    using assms(1) by (auto simp: Delete_def Let_def localID_def split: option.splits)
  with assms(2,3) Delete_frame(1) [OF assms(1)] show ?thesis by (simp add: Get_def)
qed

lemma sessionhash_setTime:
  "ulidLaw L w \<Longrightarrow> length u = 16 \<Longrightarrow> sessionhash L self (ioSetTime w u) = sessionhash L self u"
  by (simp add: sessionhash_def ulidLaw_def)

section \<open>The index\<close>

text \<open>The name of a session file consists of characters of the URL alphabet, so it is not the index.\<close>

lemma encodeString_alphabet: "c \<in> set (encodeString b) \<Longrightarrow> \<exists>i < 64. c = b64char i"
  using encodeVals_less by (auto simp: encodeString_vals)

lemma sessionhash_index: "sessionhash L self i \<noteq> indexName self'"
proof
  assume e: "sessionhash L self i = indexName self'"
  have "46 \<in> set (indexName self')" by (simp add: indexName_def str_def)
  then have "46 \<in> set (sessionhash L self i)" by (simp add: e)
  then obtain j where "j < 64" "46 = b64char j"
    unfolding sessionhash_def Let_def using encodeString_alphabet by blast
  with unat_b64char [of j] have "unat (46 :: byte) \<noteq> 46" by (auto split: if_splits)
  then show False by simp
qed

lemma map_of_fold_update:
  "map_of (fold (\<lambda>(k, v) l. AList.update k v l) items l) = map_of l ++ map_of (rev items)"
  by (induction items arbitrary: l) (auto simp: update_conv' map_add_def fun_eq_iff split: option.splits)

lemma distinct_fold_update:
  "distinct (map fst l) \<Longrightarrow> distinct (map fst (fold (\<lambda>(k, v) l. AList.update k v l) items l))"
  by (induction items arbitrary: l) (auto simp: distinct_update)

lemma map_of_reorder:
  assumes "mset xs = mset ys" and "distinct (map fst ys)"
  shows "map_of (rev xs) = map_of ys"
proof -
  have "mset (map fst (rev xs)) = mset (map fst ys)" using assms(1) by simp
  then have "distinct (map fst (rev xs))" using mset_eq_imp_distinct_iff [of "map fst (rev xs)" "map fst ys"] assms(2) by simp
  moreover have "set (rev xs) = set ys" using mset_eq_setD [OF assms(1)] by simp
  ultimately show ?thesis using assms(2) map_of_inject_set by blast
qed

text \<open>The entries JSON keeps.\<close>

definition indexValid :: "(bytes \<times> bytes) list \<Rightarrow> bool" where
  "indexValid l \<longleftrightarrow> (\<forall>(n, u) \<in> set l. (\<forall>b \<in> set n. b < 128) \<and> length u = 16)"

text \<open>
  Closing the manager and opening it again, with any number of sessions saved in between, recovers the index: every name maps to the same identifier, whatever the order in which the map is written, and the position is recovered unless it is not positive, in which case the new manager starts at -1.
\<close>

theorem index_roundtrip:
  assumes "jsonLaw L" and "distinct (map fst (smSessions sm))" and "indexValid (smSessions sm)"
    and "mset (order (smSessions sm)) = mset (smSessions sm)"
    and "closeManager L w order sm d = (d1, None)" and "Put L w1 sm d1 s = (d2, e)" and "ioOpen w2 = None"
  shows "\<exists>sm'. NewSessionManager L w2 (smMe sm) k d2 = (sm', None)
    \<and> map_of (smSessions sm') = map_of (smSessions sm)
    \<and> Position sm' = (if Position sm > 0 then Position sm else -1) \<and> Identity sm' = k"
proof -
  let ?items = "order (smSessions sm)"
  obtain f where f: "d1 (indexName (smMe sm)) = Some f" "fileData f = jsonIndex L (smPos sm, ?items)"
    using assms(5) by (auto simp: closeManager_def Let_def split: option.splits prod.splits)
  have "d2 (indexName (smMe sm)) = Some f"
    using Put_frame [OF assms(6)] sessionhash_index f(1) by metis
  moreover have "unjsonIndex L (fileData f) = Inr (smPos sm, ?items)"
    using assms(1,3,4) f(2) mset_eq_setD [OF assms(4)] by (simp add: jsonLaw_def indexValid_def)
  moreover have "map_of (fold (\<lambda>(k, v) l. AList.update k v l) ?items []) = map_of (smSessions sm)"
    using map_of_reorder [OF assms(4,2)] by (simp add: map_of_fold_update)
  ultimately show ?thesis
    using assms(7) by (simp add: NewSessionManager_def Load_def Position_def Identity_def)
qed

text \<open>A library and an environment that satisfy the laws.\<close>

definition demoLibs :: libs where
  "demoLibs = \<lparr>gob = demoGob, gobDisk = unary, ungobDisk = (\<lambda>b. if b = [] then Inl ErrGob else Inr (ununary b)),
     jsonIndex = unary, unjsonIndex = (\<lambda>b. Inr (ununary b)), keyString = (\<lambda>k. k), parseID = Inr, keyFromID = Inr,
     x25519Public = (\<lambda>k. goCopy 32 k), x25519Private = (\<lambda>k. goCopy 32 k), x25519Own = (\<lambda>k. drop 32 k),
     ulidEntropy = drop 6, umask = 18\<rparr>"

definition demoIo :: io where
  "demoIo = \<lparr>ioRand = (\<lambda>_. RandOk (\<lambda>_. 3)), ioSeal = RandOk (\<lambda>_. 9), ioUlid = replicate 16 7,
     ioSetTime = (\<lambda>u. [1, 2, 3, 4, 5, 6] @ goCopy 10 (drop 6 u)), ioNow = 0, ioLookup = (\<lambda>_. Inl ErrLookup),
     ioLock = None, ioStat = None, ioOpen = None, ioRead = None, ioMkdir = None, ioCreate = None,
     ioWrite = None, ioClose = None, ioRemove = None, ioPost = None\<rparr>"

lemma demo_libsLaw: "libsLaw demoLibs"
  by (simp add: libsLaw_def demoLibs_def demo_gobLaw)

lemma demo_jsonLaw: "jsonLaw demoLibs"
  by (simp add: jsonLaw_def demoLibs_def)

lemma demo_ulidLaw: "ulidLaw demoLibs demoIo"
  by (auto simp: ulidLaw_def demoLibs_def demoIo_def)

lemma demo_noFault: "noFault demoIo"
  by (simp add: noFault_def demoIo_def)

definition demoManager :: DiskSessionManager where
  "demoManager = \<lparr>smMe = str ''alice@example.com'', smKey = demoAliceKey, smPos = 5,
     smSessions = [(str ''bob@example.com'', replicate 16 1)]\<rparr>"

definition demoPeer :: PeerSession where
  "demoPeer = \<lparr>Name = str ''bob@example.com'', PeerKey = replicate 32 2, Endpoint = str ''https://example.com/bob'',
     PendingAck = [], inner = Some (demoA\<lparr>ratchet := Some demoFull\<rparr>)\<rparr>"

lemma demo_peerStorable: "peerStorable demoPeer"
  by (simp add: peerStorable_def demoPeer_def storable_def demoFull_def demoBob_def CreatePassive_def
      kbInv_new keysPresent_def)

theorem index_roundtrip_witness:
  "\<exists>d1 d2 e sm'. closeManager demoLibs demoIo rev demoManager Map.empty = (d1, None)
    \<and> Put demoLibs demoIo demoManager d1 demoPeer = (d2, e)
    \<and> NewSessionManager demoLibs demoIo (smMe demoManager) [] d2 = (sm', None)
    \<and> map_of (smSessions sm') = map_of (smSessions demoManager)
    \<and> Position sm' = (if Position demoManager > 0 then Position demoManager else -1) \<and> Identity sm' = []"
proof -
  obtain d1 where c: "closeManager demoLibs demoIo rev demoManager Map.empty = (d1, None)"
    by (simp add: closeManager_def demoIo_def Let_def)
  obtain d2 e where p: "Put demoLibs demoIo demoManager d1 demoPeer = (d2, e)"
    by (cases "Put demoLibs demoIo demoManager d1 demoPeer") blast
  have v: "distinct (map fst (smSessions demoManager))" "indexValid (smSessions demoManager)"
    "mset (rev (smSessions demoManager)) = mset (smSessions demoManager)"
    by (simp_all add: demoManager_def indexValid_def str_def)
  have "ioOpen demoIo = None" by (simp add: demoIo_def)
  from index_roundtrip [OF demo_jsonLaw v c p this, of "[]"] c p show ?thesis by blast
qed

section \<open>Correctness of the store\<close>

text \<open>
  C19: saving a session and reading it back, under the identifier with any other time stamp, recovers the name, the peer key, the endpoint, the pending acknowledgement and the protocol session as far as its serialisation keeps it; the peer key is verified again, the identity key is supplied exactly while no ratchet exists, and sessions under other file names are unaffected.
\<close>

theorem store_roundtrip:
  assumes "libsLaw L" and "peerStorable s" and "privateDisk d" and "noFault w" and "noFault w'" and "ulidLaw L t"
  shows "\<exists>d' s' x r. Put L w sm d s = (d', None) \<and> Get L w' sm d' (ioSetTime t (localID s)) = Inr s'
    \<and> inner s = Some x \<and> restoredRatchet (ratchet x) r
    \<and> s' = s\<lparr>inner := Some (x\<lparr>IdentityKey := (if ratchet x = None then smKey sm else []),
         VerifyPeer := (\<lambda>p. p = PeerKey s), ratchet := r\<rparr>)\<rparr>
    \<and> (\<forall>i. sessionhash L (smMe sm) i \<noteq> sessionhash L (smMe sm) (localID s)
         \<longrightarrow> Get L w' sm d' i = Get L w' sm d i)"
proof -
  obtain x where x: "inner s = Some x" using assms(2) by (auto simp: peerStorable_def)
  obtain d' where p: "Put L w sm d s = (d', None)"
    using Put_succeeds [OF assms(4) x, of L sm d] by (cases "Put L w sm d s") auto
  have "length (localID s) = 16" by (simp add: localID_def x toULID_def)
  then have h: "sessionhash L (smMe sm) (ioSetTime t (localID s)) = sessionhash L (smMe sm) (localID s)"
    using sessionhash_setTime [OF assms(6)] by simp
  from Put_Get [OF assms(1-3,5) p h] obtain s' where
    g: "Get L w' sm d' (ioSetTime t (localID s)) = Inr s'" and r: "restoredPeer (smKey sm) s s'" by blast
  have "\<forall>i. sessionhash L (smMe sm) i \<noteq> sessionhash L (smMe sm) (localID s)
         \<longrightarrow> Get L w' sm d' i = Get L w' sm d i"
    using Put_other [OF p] by blast
  with p g r x show ?thesis by (auto simp: restoredPeer_def)
qed

theorem store_roundtrip_witness:
  "\<exists>d' s' x r. Put demoLibs demoIo demoManager Map.empty demoPeer = (d', None)
    \<and> Get demoLibs demoIo demoManager d' (ioSetTime demoIo (localID demoPeer)) = Inr s'
    \<and> inner demoPeer = Some x \<and> restoredRatchet (ratchet x) r
    \<and> s' = demoPeer\<lparr>inner := Some (x\<lparr>IdentityKey := (if ratchet x = None then smKey demoManager else []),
         VerifyPeer := (\<lambda>p. p = PeerKey demoPeer), ratchet := r\<rparr>)\<rparr>
    \<and> (\<forall>i. sessionhash demoLibs (smMe demoManager) i \<noteq> sessionhash demoLibs (smMe demoManager) (localID demoPeer)
         \<longrightarrow> Get demoLibs demoIo demoManager d' i = Get demoLibs demoIo demoManager Map.empty i)"
  by (rule store_roundtrip [OF demo_libsLaw demo_peerStorable _ demo_noFault demo_noFault demo_ulidLaw])
    (simp add: privateDisk_def)

text \<open>
  C32: saving is not atomic. If the write fails before the first byte, the file is left empty, whatever it held before, and from then on every attempt to read the session panics.
\<close>

theorem failed_write_panics:
  assumes "libsLaw L" and "inner s = Some x" and "privateDisk d" and "noFault w'"
    and "ioMkdir w = None" and "ioCreate w = None" and "ioWrite w = Some (0, e)"
    and "Put L w sm d s = (d', r)"
  shows "r = Some e \<and> Get L w' sm d' (localID s) = Inl (Panic ''nil pointer dereference'')"
proof -
  let ?n = "sessionhash L (smMe sm) (localID s)"
  have r: "r = Some e" and "d' = writeFile (createFile 384 (umask L) d ?n) ?n []"
    using assms by (auto simp: Put_def Let_def peerMarshal_def localID_def)
  then obtain f where f: "d' ?n = Some f" "fileData f = []" by (auto split: option.splits)
  have "privateDisk d'" using assms(3,8) by (rule Put_private)
  then have m: "\<not> weakMode (fileMode f)" using f(1) by (rule privateDisk_mode)
  obtain e' where "ungobDisk L [] = Inl e'" using assms(1) by (auto simp: libsLaw_def)
  with f m assms(4) r show ?thesis
    by (simp add: Get_def noFault_def peerUnmarshal_def zeroPeerSession_def)
qed

theorem failed_write_panics_witness:
  "\<exists>d' r. Put demoLibs (demoIo\<lparr>ioWrite := Some (0, ErrOs 28)\<rparr>) demoManager Map.empty demoPeer = (d', r)
    \<and> r = Some (ErrOs 28)
    \<and> Get demoLibs demoIo demoManager d' (localID demoPeer) = Inl (Panic ''nil pointer dereference'')"
proof -
  let ?w = "demoIo\<lparr>ioWrite := Some (0, ErrOs 28)\<rparr>"
  obtain d' r where p: "Put demoLibs ?w demoManager Map.empty demoPeer = (d', r)"
    by (cases "Put demoLibs ?w demoManager Map.empty demoPeer") blast
  have "inner demoPeer = Some (demoA\<lparr>ratchet := Some demoFull\<rparr>)" "privateDisk Map.empty"
    "ioMkdir ?w = None" "ioCreate ?w = None" "ioWrite ?w = Some (0, ErrOs 28)"
    by (simp_all add: demoPeer_def privateDisk_def demoIo_def)
  from failed_write_panics [OF demo_libsLaw this(1,2) demo_noFault this(3-5) p] p show ?thesis by blast
qed

end
