(* ===== verification/Manager.thy ===== *)
theory Manager
  imports DiskSession
begin

text \<open>
  The interface \<open>SessionManager\<close> the client works with (\<open>src/client/client.go\<close>): its operations as
  a record of functions over the state of a manager, the contract the client relies on as a locale,
  and the proof that the manager that keeps sessions in files fulfils it.
\<close>

section \<open>The interface\<close>

text \<open>\<open>SetPosition\<close> is optional: the client tests for it with a type assertion.\<close>

record 's SessionManager =
  mIdentity :: "'s \<Rightarrow> bytes"
  mByName :: "io \<Rightarrow> 's \<Rightarrow> bytes \<Rightarrow> 's \<times> bytes"
  mNew :: "io \<Rightarrow> 's \<Rightarrow> bytes \<Rightarrow> 's \<times> PeerSession result"
  mGet :: "io \<Rightarrow> 's \<Rightarrow> bytes \<Rightarrow> PeerSession result"
  mPut :: "io \<Rightarrow> 's \<Rightarrow> PeerSession \<Rightarrow> 's \<times> err option"
  mDelete :: "io \<Rightarrow> 's \<Rightarrow> PeerSession \<Rightarrow> 's \<times> err option"
  mSetPosition :: "(int \<Rightarrow> 's \<Rightarrow> 's) option"
  mSessions :: "((bytes \<times> bytes) list \<Rightarrow> (bytes \<times> bytes) list) \<Rightarrow> 's \<Rightarrow> (bytes \<times> bytes) list"
    \<comment> \<open>the first argument is the order in which the map is visited\<close>

definition diskManager :: "libs \<Rightarrow> (DiskSessionManager \<times> disk) SessionManager" where
  "diskManager L = \<lparr>
     mIdentity = (\<lambda>(sm, d). Identity sm),
     mByName = (\<lambda>w (sm, d) n. case ByName w sm n of (sm, u) \<Rightarrow> ((sm, d), u)),
     mNew = (\<lambda>w (sm, d) n. case New w sm n of (sm, r) \<Rightarrow> ((sm, d), r)),
     mGet = (\<lambda>w (sm, d) i. Get L w sm d i),
     mPut = (\<lambda>w (sm, d) s. case Put L w sm d s of (d, e) \<Rightarrow> ((sm, d), e)),
     mDelete = (\<lambda>w (sm, d) s. case Delete L w sm d s of (sm, d, e) \<Rightarrow> ((sm, d), e)),
     mSetPosition = Some (\<lambda>p (sm, d). (SetPosition p sm, d)),
     mSessions = (\<lambda>order (sm, d). Sessions order sm)\<rparr>"

text \<open>The states a manager can get into by the operations of the interface.\<close>

inductive managed :: "'s SessionManager \<Rightarrow> (io \<Rightarrow> bool) \<Rightarrow> 's \<Rightarrow> 's \<Rightarrow> bool" for M ok s where
  start: "managed M ok s s"
| byName: "managed M ok s t \<Longrightarrow> ok w \<Longrightarrow> mByName M w t n = (t', u) \<Longrightarrow> managed M ok s t'"
| new: "managed M ok s t \<Longrightarrow> ok w \<Longrightarrow> mNew M w t n = (t', r) \<Longrightarrow> managed M ok s t'"
| put: "managed M ok s t \<Longrightarrow> ok w \<Longrightarrow> mPut M w t p = (t', e) \<Longrightarrow> managed M ok s t'"
| delete: "managed M ok s t \<Longrightarrow> ok w \<Longrightarrow> mDelete M w t p = (t', e) \<Longrightarrow> managed M ok s t'"
| setPosition: "managed M ok s t \<Longrightarrow> mSetPosition M = Some f \<Longrightarrow> managed M ok s (f i t)"

section \<open>The contract\<close>

text \<open>
  \<open>self\<close> and \<open>ident\<close> are the owner and the identity key, \<open>inv\<close> is the invariant of the manager,
  \<open>sane\<close> what it needs of an input, \<open>good\<close> an input without failures, \<open>slot\<close> where the session of an
  identifier is kept.
\<close>

locale session_manager =
  fixes M :: "'s SessionManager"
    and inv :: "'s \<Rightarrow> bool"
    and sane :: "io \<Rightarrow> bool"
    and good :: "io \<Rightarrow> bool"
    and slot :: "bytes \<Rightarrow> 'k"
    and self :: bytes
    and ident :: bytes
  assumes inv_byName: "inv s \<Longrightarrow> sane w \<Longrightarrow> mByName M w s n = (s', u) \<Longrightarrow> inv s' \<and> length u = 16"
    and inv_new: "inv s \<Longrightarrow> sane w \<Longrightarrow> mNew M w s n = (s', r) \<Longrightarrow> inv s'"
    and inv_put: "inv s \<Longrightarrow> mPut M w s p = (s', e) \<Longrightarrow> inv s'"
    and inv_delete: "inv s \<Longrightarrow> mDelete M w s p = (s', e) \<Longrightarrow> inv s'"
    and inv_setPosition: "inv s \<Longrightarrow> mSetPosition M = Some f \<Longrightarrow> inv (f q s)"
    and put_ok: "peerStorable p \<Longrightarrow> good w \<Longrightarrow> \<exists>s'. mPut M w s p = (s', None)"
    and put_get: "inv s \<Longrightarrow> peerStorable p \<Longrightarrow> good w' \<Longrightarrow> mPut M w s p = (s', None)
      \<Longrightarrow> slot i = slot (localID p) \<Longrightarrow> \<exists>p'. mGet M w' s' i = Inr p' \<and> restoredPeer ident p p'"
    and put_other: "inv s \<Longrightarrow> mPut M w s p = (s', e) \<Longrightarrow> slot i \<noteq> slot (localID p)
      \<Longrightarrow> mGet M w' s' i = mGet M w' s i"
    and put_byName: "mPut M w s p = (s', e) \<Longrightarrow> snd (mByName M w' s' n) = snd (mByName M w' s n)"
    and delete_get: "inv s \<Longrightarrow> mDelete M w s p = (s', None) \<Longrightarrow> good w' \<Longrightarrow> slot i = slot (localID p)
      \<Longrightarrow> \<exists>e. mGet M w' s' i = Inl e \<and> isNotExist e"
    and delete_ok: "inv s \<Longrightarrow> good w \<Longrightarrow> mGet M w s i = Inr p0 \<Longrightarrow> slot i = slot (localID p)
      \<Longrightarrow> inner p \<noteq> None \<Longrightarrow> \<exists>s'. mDelete M w s p = (s', None)"
    and delete_other: "inv s \<Longrightarrow> mDelete M w s p = (s', e) \<Longrightarrow> slot i \<noteq> slot (localID p)
      \<Longrightarrow> mGet M w' s' i = mGet M w' s i"
    and byName_again: "mByName M w s n = (s', u) \<Longrightarrow> mByName M w' s' n = (s', u)"
    and byName_get: "mByName M w s n = (s', u) \<Longrightarrow> mGet M w' s' i = mGet M w' s i"
    and identity: "inv s \<Longrightarrow> mIdentity M s = ident"
    and new_ok: "inv s \<Longrightarrow> ioLookup w n = Inr addr \<Longrightarrow> mByName M w s n = (s', u)
      \<Longrightarrow> mNew M w s n = (s', Inr (NewSession u self ident n addr))"
    and new_fails: "ioLookup w n = Inl failure \<Longrightarrow> mByName M w s n = (s', u)
      \<Longrightarrow> mNew M w s n = (s', Inl (wrap ''fetching key for'' failure))"
    and setPosition_get: "mSetPosition M = Some f \<Longrightarrow> mGet M w (f q s) j = mGet M w s j"
    and setPosition_byName: "mSetPosition M = Some f \<Longrightarrow> snd (mByName M w (f q s) n) = snd (mByName M w s n)"
begin

text \<open>The invariant holds in every state the manager can get into.\<close>

lemma managed_inv:
  assumes "managed M sane s t" and "inv s"
  shows "inv t"
  using assms
  by (induction rule: managed.induct)
    (auto dest: inv_byName inv_new inv_put inv_delete intro: inv_setPosition)

text \<open>A session that was saved can be read under its identifier, whatever happens to others.\<close>

lemma put_get_own:
  assumes "inv s" and "peerStorable p" and "good w" and "good w'"
  shows "\<exists>s' p'. mPut M w s p = (s', None) \<and> inv s' \<and> mGet M w' s' (localID p) = Inr p' \<and> restoredPeer ident p p'"
  using put_ok [OF assms(2,3), of s] put_get [OF assms(1,2,4)] inv_put [OF assms(1)] by blast

end

section \<open>The files fulfil the contract\<close>

definition managerInv :: "bytes \<Rightarrow> bytes \<Rightarrow> DiskSessionManager \<times> disk \<Rightarrow> bool" where
  "managerInv self k = (\<lambda>(sm, d). smMe sm = self \<and> smKey sm = k \<and> privateDisk d
     \<and> distinct (map fst (smSessions sm)) \<and> (\<forall>u \<in> snd ` set (smSessions sm). length u = 16))"

definition saneUlid :: "io \<Rightarrow> bool" where
  "saneUlid w \<longleftrightarrow> length (ioUlid w) = 16"

lemma update_new: "n \<notin> fst ` set l \<Longrightarrow> AList.update n v l = l @ [(n, v)]"
  by (induction l) auto

lemma ByName_inv:
  assumes "managerInv self k (sm, d)" and "saneUlid w" and "ByName w sm n = (sm', u)"
  shows "managerInv self k (sm', d) \<and> length u = 16"
proof (cases "map_of (smSessions sm) n")
  case None
  then have "n \<notin> fst ` set (smSessions sm)" by (simp add: map_of_eq_None_iff)
  with None assms show ?thesis by (auto simp: ByName_def managerInv_def saneUlid_def update_new)
next
  case (Some u')
  then have "(n, u') \<in> set (smSessions sm)" by (rule map_of_SomeD)
  with Some assms show ?thesis by (force simp: ByName_def managerInv_def)
qed

lemma ByName_fixed: "ByName w sm n = (sm', u) \<Longrightarrow> smMe sm' = smMe sm \<and> smKey sm' = smKey sm"
  by (auto simp: ByName_def split: option.splits)

lemma New_fst: "fst (New w sm n) = fst (ByName w sm n)"
  by (auto simp: New_def split: prod.splits sum.splits)

lemma New_inv:
  assumes "managerInv self k (sm, d)" and "saneUlid w" and "New w sm n = (sm', r)"
  shows "managerInv self k (sm', d)"
proof -
  obtain sm1 u where b: "ByName w sm n = (sm1, u)" by fastforce
  with New_fst [of w sm n] assms(3) have "sm1 = sm'" by simp
  with ByName_inv [OF assms(1,2) b] show ?thesis by simp
qed

lemma Delete_sessions:
  "Delete L w sm d s = (sm', d', e) \<Longrightarrow> smSessions sm' = smSessions sm \<or> smSessions sm' = AList.delete (Name s) (smSessions sm)"
  by (auto simp: Delete_def Let_def split: option.splits)

lemma Delete_inv:
  assumes "managerInv self k (sm, d)" and "Delete L w sm d s = (sm', d', e)"
  shows "managerInv self k (sm', d')"
proof -
  have "set (smSessions sm') \<subseteq> set (smSessions sm)" "distinct (map fst (smSessions sm'))"
    using Delete_sessions [OF assms(2)] assms(1)
    by (auto simp: managerInv_def AList.delete_eq distinct_map_filter)
  with assms Delete_frame [OF assms(2)] Delete_private [OF _ assms(2)] show ?thesis
    by (auto simp: managerInv_def)
qed

interpretation dsm: session_manager "diskManager L" "managerInv self k" saneUlid
    "\<lambda>w. libsLaw L \<and> noFault w" "sessionhash L self" self k
  for L self k
proof (unfold_locales, goal_cases)
  case (1 s w n s' u)
  then show ?case using ByName_inv by (cases s) (auto simp: diskManager_def split: prod.splits)
next
  case (2 s w n s' r)
  then show ?case using New_inv by (cases s) (auto simp: diskManager_def split: prod.splits)
next
  case (3 s w p s' e)
  then show ?case using Put_private by (cases s) (auto simp: diskManager_def managerInv_def split: prod.splits)
next
  case (4 s w p s' e)
  then show ?case using Delete_inv by (cases s) (auto simp: diskManager_def split: prod.splits)
next
  case (5 s f q)
  then show ?case by (cases s) (auto simp: diskManager_def managerInv_def SetPosition_def)
next
  case (6 p w s)
  then obtain x where "inner p = Some x" by (auto simp: peerStorable_def)
  with 6 have "snd (Put L w sm d p) = None" for sm d using Put_succeeds by blast
  then show ?case by (cases s) (auto simp: diskManager_def prod_eq_iff split: prod.splits)
next
  case (7 s p w' w s' i)
  then show ?case using Put_Get
    by (cases s) (auto simp: diskManager_def managerInv_def split: prod.splits)
next
  case (8 s w p s' e i w')
  then show ?case using Put_other
    by (cases s) (auto simp: diskManager_def managerInv_def split: prod.splits)
next
  case (9 w s p s' e w' n)
  then show ?case by (cases s) (auto simp: diskManager_def split: prod.splits)
next
  case (10 s w p s' w' i)
  then show ?case using Delete_Get
    by (cases s) (auto simp: diskManager_def managerInv_def noFault_def split: prod.splits)
next
  case (11 s w i p0 p)
  obtain sm d where s: "s = (sm, d)" by fastforce
  with 11 have "\<exists>sm' d'. Delete L w sm d p = (sm', d', None)"
    by (intro Delete_succeeds [of w L sm d i p0]) (auto simp: diskManager_def managerInv_def)
  then show ?case by (auto simp: s diskManager_def)
next
  case (12 s w p s' e i w')
  then show ?case using Delete_other
    by (cases s) (auto simp: diskManager_def managerInv_def split: prod.splits)
next
  case (13 w s n s' u w')
  then show ?case
    by (cases s) (auto simp: diskManager_def ByName_def update_conv' split: prod.splits option.splits)
next
  case (14 w s n s' u w' i)
  then show ?case using ByName_fixed by (cases s) (auto simp: diskManager_def intro!: Get_cong split: prod.splits)
next
  case (15 s)
  then show ?case by (cases s) (auto simp: diskManager_def managerInv_def Identity_def)
next
  case (16 s w n addr s' u)
  then show ?case using ByName_fixed
    by (cases s) (auto simp: diskManager_def managerInv_def New_def fetchKey_def split: prod.splits)
next
  case (17 w n r s s' u)
  then show ?case by (cases s) (auto simp: diskManager_def New_def fetchKey_def split: prod.splits)
next
  case (18 f w q s j)
  then show ?case by (cases s) (auto simp: diskManager_def SetPosition_def intro!: Get_cong)
next
  case (19 f w q s n)
  then show ?case by (cases s) (auto simp: diskManager_def SetPosition_def ByName_def split: option.splits)
qed

section \<open>Managers with the same content\<close>

text \<open>The same owner, key and index, and the same session files.\<close>

fun sameStore :: "DiskSessionManager \<times> disk \<Rightarrow> DiskSessionManager \<times> disk \<Rightarrow> bool" where
  "sameStore (sm, d) (sm', d') \<longleftrightarrow> smMe sm' = smMe sm \<and> smKey sm' = smKey sm
     \<and> map_of (smSessions sm') = map_of (smSessions sm) \<and> (\<forall>n. n \<noteq> indexName (smMe sm) \<longrightarrow> d' n = d n)"

lemma sameStore_get: "sameStore s s' \<Longrightarrow> mGet (diskManager L) w s' i = mGet (diskManager L) w s i"
  by (cases s; cases s') (auto simp: diskManager_def sessionhash_index intro!: Get_cong)

lemma sameStore_byName:
  "sameStore s s' \<Longrightarrow> snd (mByName (diskManager L) w s' n) = snd (mByName (diskManager L) w s n)"
  by (cases s; cases s') (auto simp: diskManager_def ByName_def split: option.split prod.split)

lemma sameStore_refl [simp]: "sameStore s s"
  by (cases s) simp

lemma sameStore_trans: "sameStore s t \<Longrightarrow> sameStore t u \<Longrightarrow> sameStore s u"
  by (cases s; cases t; cases u) simp

section \<open>The invariant\<close>

lemma update_lengths:
  "snd ` set (AList.update n v l) \<subseteq> insert v (snd ` set l)"
  by (induction l) auto

lemma fold_update_snd:
  "snd ` set (fold (\<lambda>(k, v) l. AList.update k v l) items l) \<subseteq> snd ` set items \<union> snd ` set l"
proof (induction items arbitrary: l)
  case (Cons i items)
  obtain n v where i: "i = (n, v)" by force
  have "snd ` set (fold (\<lambda>(k, v) l. AList.update k v l) (i # items) l)
      \<subseteq> snd ` set items \<union> snd ` set (AList.update n v l)"
    unfolding i using Cons by simp
  also have "\<dots> \<subseteq> snd ` set (i # items) \<union> snd ` set l" using update_lengths [of n v l] by (auto simp: i)
  finally show ?case .
qed simp

lemma NewSessionManager_inv:
  assumes "NewSessionManager L w self k d = (sm, e)" and "privateDisk d"
    and "\<forall>b p items. unjsonIndex L b = Inr (p, items) \<longrightarrow> (\<forall>u \<in> snd ` set items. length u = 16)"
  shows "managerInv self k (sm, d)"
proof -
  consider "sm = \<lparr>smMe = self, smKey = k, smPos = -1, smSessions = []\<rparr>"
    | b p items where "unjsonIndex L b = Inr (p, items)" "smMe sm = self" "smKey sm = k"
        "smSessions sm = fold (\<lambda>(k, v) l. AList.update k v l) items []"
    using assms(1)
    by (fastforce simp: NewSessionManager_def Load_def Let_def split: option.splits sum.splits if_splits)
  then show ?thesis
  proof cases
    case 1
    with assms(2) show ?thesis by (simp add: managerInv_def)
  next
    case (2 b p items)
    then have "\<forall>u \<in> snd ` set items. length u = 16" using assms(3) by blast
    then have "\<forall>u \<in> snd ` set (smSessions sm). length u = 16"
      unfolding 2(4) using fold_update_snd [of items "[]"] by fastforce
    with 2 assms(2) distinct_fold_update [of "[]" items] show ?thesis by (simp add: managerInv_def)
  qed
qed

text \<open>
  The life of a manager on a directory: it is opened, performs operations of the interface, writes its
  index when it is closed, and a later process opens the directory again. Any call may fail.
\<close>

inductive diskRuns :: "libs \<Rightarrow> bytes \<Rightarrow> bytes \<Rightarrow> disk \<Rightarrow> DiskSessionManager \<times> disk \<Rightarrow> bool" for L self k d where
  opened: "NewSessionManager L w self k d = (sm, e) \<Longrightarrow> diskRuns L self k d (sm, d)"
| operated: "diskRuns L self k d s \<Longrightarrow> managed (diskManager L) saneUlid s t \<Longrightarrow> diskRuns L self k d t"
| closed: "diskRuns L self k d (sm, d1) \<Longrightarrow> closeManager L w order sm d1 = (d2, e) \<Longrightarrow> diskRuns L self k d (sm, d2)"
| reopened: "diskRuns L self k d (sm, d1) \<Longrightarrow> NewSessionManager L w self k d1 = (sm', e) \<Longrightarrow> diskRuns L self k d (sm', d1)"

lemma managerInv_private: "managerInv self k (sm, d) \<Longrightarrow> privateDisk d"
  by (simp add: managerInv_def)

lemma closeManager_inv:
  assumes "managerInv self k (sm, d)" and "closeManager L w order sm d = (d', e)"
  shows "managerInv self k (sm, d')"
  using assms(1) closeManager_private [OF managerInv_private [OF assms(1)] assms(2)] by (simp add: managerInv_def)

lemma diskRuns_inv:
  assumes "diskRuns L self k d s" and "privateDisk d"
    and "\<forall>b p items. unjsonIndex L b = Inr (p, items) \<longrightarrow> (\<forall>u \<in> snd ` set items. length u = 16)"
  shows "managerInv self k s"
  using assms(1)
proof (induction rule: diskRuns.induct)
  case (opened w sm e)
  then show ?case using assms(2,3) by (rule NewSessionManager_inv)
next
  case (operated s t)
  from operated(2) operated.IH show ?case by (rule dsm.managed_inv)
next
  case (closed sm d1 w order d2 e)
  from closed.IH closed(2) show ?case by (rule closeManager_inv)
next
  case (reopened sm d1 w sm' e)
  from reopened(2) managerInv_private [OF reopened.IH] assms(3) show ?case by (rule NewSessionManager_inv)
qed

text \<open>
  C20: whatever sequence of operations the managers of an owner perform on a directory of private files, opening, operating on sessions, closing, which writes the index, and opening again, successful or failing at any system call, no file of the directory can be read or written by other users, no name has two identifiers, every identifier has 16 bytes, and the owner and identity key never change.
\<close>

theorem manager_invariant:
  assumes "privateDisk d"
    and "\<forall>b p items. unjsonIndex L b = Inr (p, items) \<longrightarrow> (\<forall>u \<in> snd ` set items. length u = 16)"
    and "diskRuns L self k d (sm', d')"
  shows "privateDisk d' \<and> distinct (map fst (smSessions sm')) \<and> (\<forall>u \<in> snd ` set (smSessions sm'). length u = 16)
    \<and> smMe sm' = self \<and> Identity sm' = k"
  using diskRuns_inv [OF assms(3,1,2)] by (simp add: managerInv_def Identity_def)

text \<open>The library of the witnesses with an index decoder that checks the identifiers.\<close>

definition strictLibs :: libs where
  "strictLibs = demoLibs\<lparr>unjsonIndex := (\<lambda>b. case ununary b of (p, items) \<Rightarrow>
     if (\<forall>u \<in> snd ` set items. length u = 16) then Inr (p, items) else Inl ErrJson)\<rparr>"

theorem manager_invariant_witness:
  "\<exists>sm sm' d1 d'. NewSessionManager strictLibs demoIo [65] [] Map.empty = (sm, None)
    \<and> mPut (diskManager strictLibs) demoIo (sm, Map.empty) demoPeer = ((sm', d1), None)
    \<and> closeManager strictLibs demoIo id sm' d1 = (d', None) \<and> d' (indexName [65]) \<noteq> None
    \<and> privateDisk d' \<and> distinct (map fst (smSessions sm')) \<and> (\<forall>u \<in> snd ` set (smSessions sm'). length u = 16)
    \<and> smMe sm' = [65] \<and> Identity sm' = []"
proof -
  let ?sm = "\<lparr>smMe = [65], smKey = [], smPos = -1, smSessions = []\<rparr>"
  have n: "NewSessionManager strictLibs demoIo [65] [] Map.empty = (?sm, None)"
    by (simp add: NewSessionManager_def Load_def demoIo_def)
  have "\<exists>x. inner demoPeer = Some x" by (simp add: demoPeer_def)
  then have "snd (Put strictLibs demoIo ?sm Map.empty demoPeer) = None"
    using Put_succeeds [OF demo_noFault] by blast
  then obtain d1 where p: "mPut (diskManager strictLibs) demoIo (?sm, Map.empty) demoPeer = ((?sm, d1), None)"
    by (cases "Put strictLibs demoIo ?sm Map.empty demoPeer") (auto simp: diskManager_def)
  have "saneUlid demoIo" by (simp add: saneUlid_def demoIo_def)
  with managed.start have m: "managed (diskManager strictLibs) saneUlid (?sm, Map.empty) (?sm, d1)"
    using p by (rule managed.put)
  obtain d' where c: "closeManager strictLibs demoIo id ?sm d1 = (d', None)" "d' (indexName [65]) \<noteq> None"
    by (simp add: closeManager_def Let_def demoIo_def)
  from diskRuns.closed [OF diskRuns.operated [OF diskRuns.opened [OF n] m] c(1)]
  have r: "diskRuns strictLibs [65] [] Map.empty (?sm, d')" .
  have "\<forall>b p items. unjsonIndex strictLibs b = Inr (p, items) \<longrightarrow> (\<forall>u \<in> snd ` set items. length u = 16)"
    by (auto simp: strictLibs_def split: prod.splits if_splits)
  from manager_invariant [OF _ this r] n p c show ?thesis by (auto simp: privateDisk_def)
qed

end
