(* ===== verification/Client.thy ===== *)
theory Client
  imports Manager
begin

text \<open>
  The chat client (\<open>src/client/client.go\<close>): starting a chat, sending, closing, and the handlers of
  incoming messages, over any session manager. The state of the client is the state of its
  manager, the events it has dispatched and the requests it has posted, in order. The lock around
  the manager (package \<open>locker\<close>) either runs a function with exclusive access and returns its error
  or fails without running it. The packages \<open>lextwt\<close>, \<open>salty\<close> and \<open>ulid\<close> are parameters.
\<close>

section \<open>External code\<close>

text \<open>Messages of package \<open>lextwt\<close>, by what the program reads of them.\<close>

record saltyEvent =
  Command :: bytes
  Args :: "bytes list"

record saltyText =
  Literal :: bytes
  UserNick :: bytes

datatype saltyElem = TextElem bytes | EventElem saltyEvent

datatype saltyMsg = TextMsg saltyText | EventMsg saltyEvent | OtherMsg

record saltyLib =
  newSaltyText :: "nat \<Rightarrow> bytes \<Rightarrow> bytes \<Rightarrow> saltyElem list \<Rightarrow> saltyText"
    \<comment> \<open>time in milliseconds, user, domain, elements\<close>
  parseSalty :: "bytes \<Rightarrow> saltyMsg result"
  ulidTime :: "bytes \<Rightarrow> nat"
  keyID :: "bytes \<Rightarrow> bytes"
    \<comment> \<open>\<open>EdX25519PublicKey.ID().String()\<close>\<close>
  saltyEncrypt :: "bytes \<Rightarrow> bytes \<Rightarrow> bytes list \<Rightarrow> bytes result"
  saltyDecrypt :: "bytes \<Rightarrow> bytes \<Rightarrow> (bytes \<times> bytes) result"

section \<open>State\<close>

datatype event =
    OnOfferSent bytes bytes bytes
  | OnOfferReceived bytes bytes bytes
  | OnSessionStarted bytes bytes
  | OnMessageReceived bytes bytes bytes saltyText
  | OnEventReceived bytes bytes bytes saltyEvent
  | OnMessageSent bytes bytes bytes saltyText bytes
  | OnCloseSent bytes bytes bytes
  | OnSessionClosed bytes bytes
  | OnSaltyTextReceived bytes saltyText
  | OnSaltyEventReceived bytes saltyEvent
  | OnSaltySent bytes Addr saltyText bytes
  | OnReceived bytes
  | OnError err

record 's client =
  clManager :: 's
  clAddr :: Addr
  clEvents :: "event list"
  clPosts :: "(bytes \<times> bytes) list"

text \<open>\<open>New\<close>, with no driver.\<close>

definition newClient :: "io \<Rightarrow> 's \<Rightarrow> bytes \<Rightarrow> 's client result" where
  "newClient w sm self =
     (case ioLookup w self of Inl e \<Rightarrow> Inl (wrap ''lookup addr'' e)
      | Inr addr \<Rightarrow> Inr \<lparr>clManager = sm, clAddr = addr, clEvents = [], clPosts = []\<rparr>)"

text \<open>Every handler of an event returns nothing, so the group of handlers never fails.\<close>

definition dispatch :: "'s client \<Rightarrow> event \<Rightarrow> 's client \<times> err option" where
  "dispatch c ev = (c\<lparr>clEvents := clEvents c @ [ev]\<rparr>, None)"

definition Use :: "io \<Rightarrow> 's client \<Rightarrow> ('s client \<Rightarrow> 's client \<times> err option) \<Rightarrow> 's client \<times> err option" where
  "Use w c fn = (case ioLock w of Some e \<Rightarrow> (c, Some e) | None \<Rightarrow> fn c)"

text \<open>
  The body of the request is handed to the network whether or not the call reports an error: a
  response may get lost.
\<close>

definition sendMsg :: "io \<Rightarrow> 's client \<Rightarrow> PeerSession \<Rightarrow> bytes \<Rightarrow> 's client \<times> err option" where
  "sendMsg w c session msg = (c\<lparr>clPosts := clPosts c @ [(Endpoint session, msg)]\<rparr>, ioPost w)"

definition readMsg :: "bytes \<Rightarrow> (bytes \<times> Msg) result" where
  "readMsg input = (case Parse input of Inl e \<Rightarrow> Inl e | Inr msg \<Rightarrow> Inr (goCopy 16 (deref (ID msg)), msg))"

definition toElems :: "bytes \<Rightarrow> saltyEvent list \<Rightarrow> saltyElem list" where
  "toElems text events = TextElem text # map EventElem events"

section \<open>Operations\<close>

text \<open>The methods of the embedded protocol session.\<close>

definition peerSend :: "prims \<Rightarrow> io \<Rightarrow> PeerSession \<Rightarrow> bytes \<Rightarrow> PeerSession \<times> bytes result" where
  "peerSend P w s plaintext =
     (case inner s of None \<Rightarrow> (s, Inl (Panic ''nil pointer dereference''))
      | Some x \<Rightarrow> (case Send P (ioSetTime w) (ioRand w 0) x plaintext of (x, r) \<Rightarrow> (s\<lparr>inner := Some x\<rparr>, r)))"

definition peerClose :: "PeerSession \<Rightarrow> PeerSession \<times> bytes result" where
  "peerClose s =
     (case inner s of None \<Rightarrow> (s, Inl (Panic ''nil pointer dereference''))
      | Some x \<Rightarrow> (case Close x of (x, r) \<Rightarrow> (s\<lparr>inner := Some x\<rparr>, r)))"

text \<open>Storing the session at the end of an operation.\<close>

definition putSession :: "'s SessionManager \<Rightarrow> io \<Rightarrow> 's client \<Rightarrow> PeerSession \<Rightarrow> 's client \<times> err option" where
  "putSession M w c session =
     (case mPut M w (clManager c) session of (s, e) \<Rightarrow> (c\<lparr>clManager := s\<rparr>, e))"

definition startChat :: "'s SessionManager \<Rightarrow> prims \<Rightarrow> libs \<Rightarrow> io \<Rightarrow> 's client \<Rightarrow> bytes \<Rightarrow> 's client \<times> err option" where
  "startChat M P L w c them =
     (case mNew M w (clManager c) them of
        (s, Inl e) \<Rightarrow> (c\<lparr>clManager := s\<rparr>, Some e)
      | (s, Inr session) \<Rightarrow>
          (let c = c\<lparr>clManager := s\<rparr> in
           case peerOffer P L (ioRand w 0) (ioSeal w) session of
             (session, Inl e) \<Rightarrow> (c, Some e)
           | (session, Inr msg) \<Rightarrow>
               (case sendMsg w c session msg of (c, Some e) \<Rightarrow> (c, Some e)
                | (c, None) \<Rightarrow> (case putSession M w c session of (c, Some e) \<Rightarrow> (c, Some e)
                  | (c, None) \<Rightarrow> dispatch c (OnOfferSent (localID session) them msg)))))"

text \<open>
  The result \<open>established\<close> is an operand of the same return statement as the call that sets it;
  the language does not fix which is evaluated first. \<open>late\<close> says that it is read after the call.
\<close>

definition clientChat :: "'s SessionManager \<Rightarrow> prims \<Rightarrow> libs \<Rightarrow> io \<Rightarrow> bool \<Rightarrow> 's client \<Rightarrow> bytes \<Rightarrow>
    's client \<times> bool \<times> err option" where
  "clientChat M P L w late c them =
     (case ioLock w of Some e \<Rightarrow> (c, False, Some e)
      | None \<Rightarrow>
       (case mByName M w (clManager c) them of (s, i) \<Rightarrow>
         (let c = c\<lparr>clManager := s\<rparr> in
          case mGet M w s i of
            Inl e \<Rightarrow> (if isNotExist e then (case startChat M P L w c them of (c, r) \<Rightarrow> (c, False, r))
                      else (c, False, Some e))
          | Inr session \<Rightarrow>
              (if PendingAck session \<noteq> [] then
                 (case sendMsg w c session (PendingAck session) of (c, Some e) \<Rightarrow> (c, False, Some e)
                  | (c, None) \<Rightarrow>
                     (let session = session\<lparr>PendingAck := []\<rparr> in
                      case putSession M w c session of (c, Some e) \<Rightarrow> (c, False, Some e)
                      | (c, None) \<Rightarrow> (case dispatch c (OnSessionStarted (localID session) them) of
                          (c, e) \<Rightarrow> (c, late, e))))
               else (c, False, None)))))"

definition clientSend :: "'s SessionManager \<Rightarrow> prims \<Rightarrow> saltyLib \<Rightarrow> io \<Rightarrow> 's client \<Rightarrow> bytes \<Rightarrow> bytes \<Rightarrow>
    saltyEvent list \<Rightarrow> 's client \<times> err option" where
  "clientSend M P S w c them text events = Use w c (\<lambda>c.
     case mByName M w (clManager c) them of (s, i) \<Rightarrow>
       (let c = c\<lparr>clManager := s\<rparr> in
        case mGet M w s i of Inl e \<Rightarrow> (c, Some e)
        | Inr session \<Rightarrow>
            (let msgID = toULID (ioSetTime w (localID session));
                 msg = newSaltyText S (ulidTime S msgID) (User (clAddr c)) (Domain (clAddr c)) (toElems text events)
             in case peerSend P w session (Literal msg) of (session, Inl e) \<Rightarrow> (c, Some e)
                | (session, Inr data) \<Rightarrow>
                    (case sendMsg w c session data of (c, Some e) \<Rightarrow> (c, Some e)
                     | (c, None) \<Rightarrow> (case putSession M w c session of (c, Some e) \<Rightarrow> (c, Some e)
                       | (c, None) \<Rightarrow> dispatch c (OnMessageSent msgID them (Literal msg) msg data))))))"

definition clientClose :: "'s SessionManager \<Rightarrow> io \<Rightarrow> 's client \<Rightarrow> bytes \<Rightarrow> 's client \<times> err option" where
  "clientClose M w c them = Use w c (\<lambda>c.
     case mByName M w (clManager c) them of (s, i) \<Rightarrow>
       (let c = c\<lparr>clManager := s\<rparr> in
        case mGet M w s i of Inl e \<Rightarrow> (c, Some e)
        | Inr session \<Rightarrow>
            (case peerClose session of (session, Inl e) \<Rightarrow> (c, Some e)
             | (session, Inr msg) \<Rightarrow>
                (case sendMsg w c session msg of (c, Some e) \<Rightarrow> (c, Some e)
                 | (c, None) \<Rightarrow> (case dispatch c (OnCloseSent (localID session) them msg) of (c, Some e) \<Rightarrow> (c, Some e)
                   | (c, None) \<Rightarrow> (case dispatch c (OnSessionClosed (localID session) them) of (c, Some e) \<Rightarrow> (c, Some e)
                     | (c, None) \<Rightarrow> (case mDelete M w (clManager c) session of (s, e) \<Rightarrow> (c\<lparr>clManager := s\<rparr>, e))))))))"

definition SendSalty :: "'s SessionManager \<Rightarrow> saltyLib \<Rightarrow> io \<Rightarrow> 's client \<Rightarrow> bytes \<Rightarrow> bytes \<Rightarrow>
    saltyEvent list \<Rightarrow> 's client \<times> err option" where
  "SendSalty M S w c them text events =
     (case ioLookup w them of Inl e \<Rightarrow> (c, Some e)
      | Inr addr \<Rightarrow> Use w c (\<lambda>c.
          let msg = newSaltyText S (ioNow w) (User addr) (Domain addr) (toElems text events)
          in case saltyEncrypt S (mIdentity M (clManager c)) (Literal msg) [keyID S (addrKey addr)] of
               Inl e \<Rightarrow> (c, Some (wrap ''error encrypting message'' e))
             | Inr b \<Rightarrow>
                 (let c = c\<lparr>clPosts := clPosts c @ [(addrEndpoint addr, b)]\<rparr>
                  in case ioPost w of Some e \<Rightarrow> (c, Some e)
                     | None \<Rightarrow> dispatch c (OnSaltySent them addr msg (Literal msg)))))"

section \<open>Incoming messages\<close>

definition isSaltPack :: "bytes \<Rightarrow> bool" where
  "isSaltPack input \<longleftrightarrow> hasPrefix input (str ''BEGIN SALTPACK ENCRYPTED MESSAGE.'')"

definition isRatchet :: "bytes \<Rightarrow> bool" where
  "isRatchet input \<longleftrightarrow> hasPrefix input (str ''!RAT!'') \<and> hasSuffix input (str ''!CHT!'')"

text \<open>
  A handler returns the client and the panic that ends the program, if there is one; an error is
  dispatched as an event.
\<close>

fun report :: "'s client \<times> err option \<Rightarrow> 's client \<times> err option" where
  "report (c, None) = (c, None)"
| "report (c, Some (Panic p)) = (c, Some (Panic p))"
| "report (c, Some e) = dispatch c (OnError e)"

definition setPos :: "'s SessionManager \<Rightarrow> int \<Rightarrow> 's client \<Rightarrow> 's client" where
  "setPos M p c = (case mSetPosition M of None \<Rightarrow> c | Some f \<Rightarrow> c\<lparr>clManager := f (p + 1) (clManager c)\<rparr>)"

definition handleSaltPack :: "'s SessionManager \<Rightarrow> saltyLib \<Rightarrow> io \<Rightarrow> int \<Rightarrow> bytes \<Rightarrow> 's client \<Rightarrow> 's client \<times> err option" where
  "handleSaltPack M S w p input c =
     (if \<not> isSaltPack input then (c, None)
      else report (Use w c (\<lambda>c.
        let c = setPos M p c in
        case saltyDecrypt S (mIdentity M (clManager c)) input of Inl e \<Rightarrow> (c, Some e)
        | Inr (text, k) \<Rightarrow> (case parseSalty S text of Inl e \<Rightarrow> (c, Some e)
            | Inr (EventMsg m) \<Rightarrow> dispatch c (OnSaltyEventReceived k m)
            | Inr (TextMsg m) \<Rightarrow> dispatch c (OnSaltyTextReceived k m)
            | Inr OtherMsg \<Rightarrow> (c, None)))))"

text \<open>Opening a sealed message with the identity of the manager.\<close>

definition unsealMsg :: "'s SessionManager \<Rightarrow> prims \<Rightarrow> libs \<Rightarrow> 's client \<Rightarrow> Msg \<Rightarrow> Msg result" where
  "unsealMsg M P L c xmsg =
     (case xmsg of SealedM s \<Rightarrow> (let k = mIdentity M (clManager c) in Unseal P s (x25519Private L k) (x25519Own L k))
      | _ \<Rightarrow> Inr xmsg)"

text \<open>The session of a message; \<open>None\<close> when there is none, which is not an error.\<close>

definition sessionFor :: "'s SessionManager \<Rightarrow> io \<Rightarrow> 's client \<Rightarrow> bytes \<Rightarrow> Msg \<Rightarrow> 's client \<times> PeerSession option result" where
  "sessionFor M w c i xmsg =
     (case xmsg of
        OfferM offer \<Rightarrow> (case mNew M w (clManager c) (o_nick offer) of
            (s, Inl e) \<Rightarrow> (c\<lparr>clManager := s\<rparr>, Inl (wrap ''get session'' e))
          | (s, Inr sess) \<Rightarrow> (c\<lparr>clManager := s\<rparr>, Inr (Some sess)))
      | _ \<Rightarrow> (case mGet M w (clManager c) i of
            Inl e \<Rightarrow> (c, if isNotExist e then Inr None else Inl (wrap ''get session'' e))
          | Inr sess \<Rightarrow> (c, Inr (Some sess))))"

text \<open>What follows once the session has received the message and is stored.\<close>

definition afterReceive :: "'s SessionManager \<Rightarrow> saltyLib \<Rightarrow> io \<Rightarrow> 's client \<Rightarrow> PeerSession \<Rightarrow> Msg \<Rightarrow>
    bool \<Rightarrow> bool \<Rightarrow> bytes \<Rightarrow> 's client \<times> err option" where
  "afterReceive M S w c sess xmsg isEstablished isClosed plaintext =
     (let i = toULID (deref (ID xmsg)) in
      if isClosed then
        (case mDelete M w (clManager c) sess of
           (s, Some e) \<Rightarrow> (c\<lparr>clManager := s\<rparr>, Some e)
         | (s, None) \<Rightarrow> dispatch (c\<lparr>clManager := s\<rparr>) (OnSessionClosed i (Name sess)))
      else if isEstablished then dispatch c (OnSessionStarted i (Name sess))
      else case parseSalty S plaintext of
          Inr (TextMsg m) \<Rightarrow> dispatch c (OnMessageReceived i (Name sess) plaintext m)
        | Inr (EventMsg m) \<Rightarrow> dispatch c (OnEventReceived i (Name sess) plaintext m)
        | _ \<Rightarrow> (c, None))"

definition ratchetBody :: "'s SessionManager \<Rightarrow> prims \<Rightarrow> libs \<Rightarrow> saltyLib \<Rightarrow> io \<Rightarrow> int \<Rightarrow> bytes \<Rightarrow> Msg \<Rightarrow>
    's client \<Rightarrow> 's client \<times> err option" where
  "ratchetBody M P L S w p i xmsg c =
     (let c = setPos M p c in
      case unsealMsg M P L c xmsg of Inl e \<Rightarrow> (c, Some e)
      | Inr xmsg \<Rightarrow> (case sessionFor M w c i xmsg of
          (c, Inl e) \<Rightarrow> (c, Some e)
        | (c, Inr None) \<Rightarrow> (c, None)
        | (c, Inr (Some sess)) \<Rightarrow>
            (case peerReceiveMsg P (ioRand w) sess xmsg of
               (sess, _, _, _, Some e) \<Rightarrow> (c, Some (wrap ''session receive'' e))
             | (sess, isEstablished, isClosed, plaintext, None) \<Rightarrow>
                 (let c = (if PendingAck sess \<noteq> [] then
                        fst (dispatch c (OnOfferReceived (toULID (deref (ID xmsg))) (Name sess) (PendingAck sess)))
                      else c)
                  in case putSession M w c sess of (c, Some e) \<Rightarrow> (c, Some e)
                     | (c, None) \<Rightarrow> afterReceive M S w c sess xmsg isEstablished isClosed plaintext))))"

definition handleRatchet :: "'s SessionManager \<Rightarrow> prims \<Rightarrow> libs \<Rightarrow> saltyLib \<Rightarrow> io \<Rightarrow> int \<Rightarrow> bytes \<Rightarrow>
    's client \<Rightarrow> 's client \<times> err option" where
  "handleRatchet M P L S w p input c =
     (if \<not> isRatchet input then (c, None)
      else case readMsg input of
          Inl e \<Rightarrow> report (c, Some (wrap ''reading msg'' e))
        | Inr (i, xmsg) \<Rightarrow> report (Use w c (ratchetBody M P L S w p i xmsg)))"

definition handleOther :: "bytes \<Rightarrow> 's client \<Rightarrow> 's client \<times> err option" where
  "handleOther input c =
     (if isRatchet input then (c, None) else if isSaltPack input then (c, None)
      else dispatch c (OnReceived input))"

text \<open>The three handlers of \<open>OnInput\<close> run in some order; a panic ends the program.\<close>

datatype handler = SaltPack | Ratchet | Other

definition runHandler :: "'s SessionManager \<Rightarrow> prims \<Rightarrow> libs \<Rightarrow> saltyLib \<Rightarrow> io \<Rightarrow> int \<Rightarrow> bytes \<Rightarrow> handler \<Rightarrow>
    's client \<Rightarrow> 's client \<times> err option" where
  "runHandler M P L S w p input h = (case h of SaltPack \<Rightarrow> handleSaltPack M S w p input
     | Ratchet \<Rightarrow> handleRatchet M P L S w p input | Other \<Rightarrow> handleOther input)"

fun Input :: "'s SessionManager \<Rightarrow> prims \<Rightarrow> libs \<Rightarrow> saltyLib \<Rightarrow> io \<Rightarrow> int \<Rightarrow> bytes \<Rightarrow> handler list \<Rightarrow>
    's client \<Rightarrow> 's client \<times> err option" where
  "Input M P L S w p input [] c = (c, None)"
| "Input M P L S w p input (h # hs) c =
     (case runHandler M P L S w p input h c of (c, Some e) \<Rightarrow> (c, Some e)
      | (c, None) \<Rightarrow> Input M P L S w p input hs c)"

section \<open>Exactly one handler acts\<close>

definition handlerFor :: "bytes \<Rightarrow> handler" where
  "handlerFor input = (if isSaltPack input then SaltPack else if isRatchet input then Ratchet else Other)"

lemma isRatchet_not_SaltPack: "isRatchet input \<Longrightarrow> \<not> isSaltPack input"
  by (cases input) (auto simp: isRatchet_def isSaltPack_def hasPrefix_def str_def)

lemma runHandler_idle: "h \<noteq> handlerFor input \<Longrightarrow> runHandler M P L S w p input h c = (c, None)"
  using isRatchet_not_SaltPack [of input]
  by (cases h) (auto simp: runHandler_def handlerFor_def handleSaltPack_def handleRatchet_def handleOther_def
      split: if_splits)

lemma Input_idle: "handlerFor input \<notin> set hs \<Longrightarrow> Input M P L S w p input hs c = (c, None)"
  by (induction hs) (auto simp: runHandler_idle)

lemma Input_one:
  assumes "distinct hs" and "set hs = {SaltPack, Ratchet, Other}"
  shows "Input M P L S w p input hs c = runHandler M P L S w p input (handlerFor input) c"
proof -
  have "handlerFor input \<in> set hs" using assms(2) by (cases "handlerFor input") auto
  then obtain as bs where hs: "hs = as @ handlerFor input # bs" by (meson split_list)
  with assms(1) have n: "handlerFor input \<notin> set as" "handlerFor input \<notin> set bs" by auto
  have "Input M P L S w p input (as @ hs') c = Input M P L S w p input hs' c" for hs'
    using n(1) by (induction as) (auto simp: runHandler_idle)
  moreover have "Input M P L S w p input (handlerFor input # bs) c = runHandler M P L S w p input (handlerFor input) c"
    by (auto simp: Input_idle [OF n(2)] split: prod.split option.split)
  ultimately show ?thesis using hs by simp
qed

text \<open>
  An incoming message is handled by exactly one of the three handlers, whatever the order in which they run: texts that start like a saltpack message by handleSaltPack, texts with the prefix and suffix of the ratchet by handleRatchet, all others by handleOther; the other two handlers change nothing.
\<close>

theorem input_one_handler:
  assumes "distinct hs" and "set hs = {SaltPack, Ratchet, Other}"
  shows "Input M P L S w p input hs c =
    (if isSaltPack input then handleSaltPack M S w p input c
     else if isRatchet input then handleRatchet M P L S w p input c
     else dispatch c (OnReceived input))"
  unfolding Input_one [OF assms] by (auto simp: runHandler_def handlerFor_def handleOther_def)

text \<open>Clients with empty directories for the witnesses.\<close>

definition demoAddr :: "bytes \<Rightarrow> bytes \<Rightarrow> Addr" where
  "demoAddr n k = \<lparr>User = n, Domain = str ''example.com'', addrEndpoint = str ''https://'' @ n, addrKey = edPublic k\<rparr>"

definition demoWorld :: "(nat \<Rightarrow> byte) \<Rightarrow> bytes \<Rightarrow> io" where
  "demoWorld f k = demoIo\<lparr>ioRand := (\<lambda>i. RandOk (\<lambda>_. f i)), ioLookup := (\<lambda>n. Inr (demoAddr n k))\<rparr>"

definition demoNode :: "bytes \<Rightarrow> bytes \<Rightarrow> (DiskSessionManager \<times> disk) client" where
  "demoNode n k = \<lparr>clManager = (\<lparr>smMe = n, smKey = k, smPos = -1, smSessions = []\<rparr>, Map.empty),
     clAddr = demoAddr n k, clEvents = [], clPosts = []\<rparr>"

definition demoSalty :: saltyLib where
  "demoSalty = \<lparr>newSaltyText = (\<lambda>t u d es. \<lparr>Literal = u @ concat (map (\<lambda>e. case e of TextElem b \<Rightarrow> b | EventElem v \<Rightarrow> Command v) es),
       UserNick = u\<rparr>),
     parseSalty = (\<lambda>b. Inr (TextMsg \<lparr>Literal = b, UserNick = []\<rparr>)), ulidTime = (\<lambda>_. 0), keyID = (\<lambda>k. k),
     saltyEncrypt = (\<lambda>k t r. Inr t), saltyDecrypt = (\<lambda>k t. Inr (t, []))\<rparr>"

theorem input_one_handler_witness:
  "Input (diskManager demoLibs) demo demoLibs demoSalty (demoWorld (\<lambda>_. 3) demoBobKey) 0 (str ''hello'')
      [Other, SaltPack, Ratchet] (demoNode [97] demoAliceKey) =
    (if isSaltPack (str ''hello'')
     then handleSaltPack (diskManager demoLibs) demoSalty (demoWorld (\<lambda>_. 3) demoBobKey) 0 (str ''hello'') (demoNode [97] demoAliceKey)
     else if isRatchet (str ''hello'')
     then handleRatchet (diskManager demoLibs) demo demoLibs demoSalty (demoWorld (\<lambda>_. 3) demoBobKey) 0 (str ''hello'')
       (demoNode [97] demoAliceKey)
     else dispatch (demoNode [97] demoAliceKey) (OnReceived (str ''hello'')))"
  by (rule input_one_handler) auto

end
