(* ===== verification/MemSession.thy ===== *)
theory MemSession
  imports Client
begin

text \<open>
  The logs of the events of a client that are kept in memory (\<open>src/session/mem/mem-session.go\<close>): which
  log an event is appended to, and reading a page of a log. The position arithmetic of package
  \<open>go.sour.is/pkg/math\<close> is a parameter.
\<close>

section \<open>State and operations\<close>

text \<open>A missing entry of the map reads as the empty log.\<close>

type_synonym logs = "bytes \<Rightarrow> event list"

definition NewMemSession :: logs where
  "NewMemSession = (\<lambda>_. [])"

text \<open>The events the log is registered for.\<close>

fun registered :: "event \<Rightarrow> bool" where
  "registered (OnEventReceived _ _ _ _) = False"
| "registered (OnCloseSent _ _ _) = False"
| "registered (OnError _) = False"
| "registered _ = True"

definition appendLog :: "logs \<Rightarrow> bytes \<Rightarrow> event \<Rightarrow> logs" where
  "appendLog l stream msg = (let log = l stream; log = log @ [msg] in l(stream := log))"

definition userLog :: "bytes \<Rightarrow> bytes" where
  "userLog them = str ''user:'' @ them"

text \<open>The empty case of \<open>OnReceived\<close> drops the event: there is no fall through to \<open>default\<close>.\<close>

fun updateLogs :: "logs \<Rightarrow> event \<Rightarrow> logs" where
  "updateLogs l (OnSessionStarted i them) = appendLog l (userLog them) (OnSessionStarted i them)"
| "updateLogs l (OnSessionClosed i them) = appendLog l (userLog them) (OnSessionClosed i them)"
| "updateLogs l (OnMessageReceived i them raw m) = appendLog l (userLog them) (OnMessageReceived i them raw m)"
| "updateLogs l (OnMessageSent i them raw m s) = appendLog l (userLog them) (OnMessageSent i them raw m s)"
| "updateLogs l (OnSaltySent them addr m raw) = appendLog l (userLog them) (OnSaltySent them addr m raw)"
| "updateLogs l (OnSaltyTextReceived k m) = appendLog l (userLog (UserNick m)) (OnSaltyTextReceived k m)"
| "updateLogs l (OnReceived raw) = l"
| "updateLogs l ev = appendLog l (str ''system'') ev"

text \<open>The error of the lock is ignored.\<close>

definition Update :: "err option \<Rightarrow> logs \<Rightarrow> event \<Rightarrow> logs" where
  "Update lock l ev = (case lock of Some e \<Rightarrow> l | None \<Rightarrow> updateLogs l ev)"

text \<open>
  The functions of package \<open>math\<close>: \<open>PagerBox(first, last, after, cnt)\<close> and \<open>Abs\<close>.
\<close>

record mathLib =
  pagerBox :: "64 word \<Rightarrow> 64 word \<Rightarrow> int \<Rightarrow> int \<Rightarrow> 64 word \<times> int"
  mathAbs :: "int \<Rightarrow> int"

text \<open>The loop over \<open>n\<close> remaining places of the page; \<open>start\<close> is unsigned and wraps.\<close>

fun readLoop :: "'a list \<Rightarrow> 64 word \<Rightarrow> 64 word \<Rightarrow> bool \<Rightarrow> nat \<Rightarrow> 64 word \<Rightarrow> 'a list \<Rightarrow> 'a list result" where
  "readLoop stream fst0 lst up 0 start lis = Inr lis"
| "readLoop stream fst0 lst up (Suc n) start lis =
     (if \<not> unat (start - 1) < length stream then Inl (Panic ''index out of range'')
      else let lis = lis @ [stream ! unat (start - 1)];
               start = (if up then start + 1 else start - 1)
           in if start < fst0 \<or> start > lst then Inr lis
              else readLoop stream fst0 lst up n start lis)"

definition ReadLog :: "mathLib \<Rightarrow> err option \<Rightarrow> logs \<Rightarrow> bytes \<Rightarrow> int \<Rightarrow> int \<Rightarrow> event list result" where
  "ReadLog A lock l streamID after cnt =
     (case lock of Some e \<Rightarrow> Inl e
      | None \<Rightarrow>
        (let stream = l streamID in
         if length stream = 0 then Inr []
         else let fst0 = 1; lst = word_of_nat (length stream) in
           if lst = 0 then Inr []
           else let (start, cnt) = pagerBox A fst0 lst after cnt in
             if cnt = 0 then Inr []
             else if mathAbs A cnt < 0 then Inl (Panic ''makeslice: len out of range'')
             else readLoop stream fst0 lst (cnt > 0) (nat (mathAbs A cnt)) start []))"

section \<open>Which log an event goes to\<close>

fun streamOf :: "event \<Rightarrow> bytes option" where
  "streamOf (OnSessionStarted i them) = Some (userLog them)"
| "streamOf (OnSessionClosed i them) = Some (userLog them)"
| "streamOf (OnMessageReceived i them raw m) = Some (userLog them)"
| "streamOf (OnMessageSent i them raw m s) = Some (userLog them)"
| "streamOf (OnSaltySent them addr m raw) = Some (userLog them)"
| "streamOf (OnSaltyTextReceived k m) = Some (userLog (UserNick m))"
| "streamOf (OnReceived raw) = None"
| "streamOf ev = Some (str ''system'')"

lemma updateLogs_stream: "updateLogs l ev s = l s @ (if streamOf ev = Some s then [ev] else [])"
  by (cases ev) (auto simp: appendLog_def Let_def)

text \<open>
  C21: the logs kept in memory are the events of the client sorted by stream: after any sequence of registered events every stream holds what it held before, followed by exactly its own events in their order; nothing is ever removed or changed, and events of type OnReceived are in no stream.
\<close>

theorem memlog_refines:
  "fold (\<lambda>ev l. Update None l ev) evs l s = l s @ filter (\<lambda>ev. streamOf ev = Some s) evs
   \<and> (\<forall>raw. streamOf (OnReceived raw) = None \<and> registered (OnReceived raw))"
  by (induction evs arbitrary: l) (simp_all add: Update_def updateLogs_stream)

section \<open>Reading a page\<close>

lemma unat_pred: "0 < unat (w :: 64 word) \<Longrightarrow> unat (w - 1) = unat w - 1"
  by (metis One_nat_def Suc_leI unat_1 unat_sub_if')

lemma unat_succ: "unat (w :: 64 word) < 2 ^ 63 \<Longrightarrow> unat (w + 1) = unat w + 1"
  by (simp add: unat_add_lem [THEN iffD1])

lemma unat_length: "length xs < 2 ^ 63 \<Longrightarrow> unat (word_of_nat (length xs) :: 64 word) = length xs"
  by (simp add: unat_of_nat take_bit_nat_eq_self)

lemma take_Suc_drop: "i < length xs \<Longrightarrow> take (Suc n) (drop i xs) = xs ! i # take n (drop (Suc i) xs)"
  by (metis Cons_nth_drop_Suc take_Suc_Cons)

lemma readLoop_up:
  assumes "length stream < 2 ^ 63" and "1 \<le> unat start" and "unat start \<le> length stream"
  shows "readLoop stream 1 (word_of_nat (length stream)) True n start lis =
    Inr (lis @ take n (drop (unat start - 1) stream))"
  using assms(2,3)
proof (induction n arbitrary: start lis)
  case (Suc n)
  have l: "unat (word_of_nat (length stream) :: 64 word) = length stream"
    using assms(1) by (rule unat_length)
  have p: "unat (start - 1) = unat start - 1" using Suc.prems(1) by (intro unat_pred) simp
  have s: "unat (start + 1) = unat start + 1" using Suc.prems(2) assms(1) by (intro unat_succ) simp
  show ?case
  proof (cases "unat start = length stream")
    case True
    moreover from this Suc.prems have "take (Suc n) (drop (unat start - 1) stream) = [stream ! (unat start - 1)]"
      by (subst take_Suc_drop) auto
    ultimately show ?thesis using Suc.prems p s l by (simp add: word_less_nat_alt)
  next
    case False
    then show ?thesis using Suc.prems Suc.IH [of "start + 1"] p s l
      by (simp add: word_less_nat_alt take_Suc_drop)
  qed
qed simp

lemma readLoop_down:
  assumes "length stream < 2 ^ 63" and "1 \<le> unat start" and "unat start \<le> length stream"
  shows "readLoop stream 1 (word_of_nat (length stream)) False n start lis =
    Inr (lis @ take n (rev (take (unat start) stream)))"
  using assms(2,3)
proof (induction n arbitrary: start lis)
  case (Suc n)
  have l: "unat (word_of_nat (length stream) :: 64 word) = length stream"
    using assms(1) by (rule unat_length)
  have p: "unat (start - 1) = unat start - 1" using Suc.prems(1) by (intro unat_pred) simp
  have t: "take (Suc n) (rev (take (unat start) stream)) =
      stream ! (unat start - 1) # take n (rev (take (unat start - 1) stream))"
    using Suc.prems by (cases "unat start") (auto simp: take_Suc_conv_app_nth)
  show ?case
  proof (cases "unat start = 1")
    case True
    then show ?thesis using Suc.prems p l t by (auto simp: word_less_nat_alt)
  next
    case False
    then show ?thesis using Suc.prems Suc.IH [of "start - 1"] p l t
      by (simp add: word_less_nat_alt)
  qed
qed simp

text \<open>A position outside the log makes the first access panic, by a wrap-around when it is 0.\<close>

lemma readLoop_outside:
  assumes "length stream < 2 ^ 63" and "\<not> (1 \<le> unat start \<and> unat start \<le> length stream)" and "0 < n"
  shows "readLoop stream fst0 lst up n start lis = Inl (Panic ''index out of range'')"
proof -
  have "\<not> unat (start - 1) < length stream"
  proof (cases "start = 0")
    case True
    have "unat (- 1 :: 64 word) = 2 ^ 64 - 1"
      by (simp add: unsigned_minus_1_eq_mask mask_eq_exp_minus_1)
    with True have "unat (start - 1) = 2 ^ 64 - 1" by simp
    with assms(1) show ?thesis by simp
  next
    case False
    then have "0 < unat start" by (simp add: unat_gt_0)
    with unat_pred [OF this] assms(2) show ?thesis by simp
  qed
  with assms(3) show ?thesis by (cases n) simp_all
qed

lemma ReadLog_reads:
  assumes "mathAbs A n = \<bar>n\<bar>" and "length (l streamID) < 2 ^ 63"
    and box: "pagerBox A 1 (word_of_nat (length (l streamID))) after cnt = (start, n)"
  shows "ReadLog A None l streamID after cnt =
    (if l streamID = [] \<or> n = 0 then Inr []
     else if unat start = 0 \<or> length (l streamID) < unat start then Inl (Panic ''index out of range'')
     else if n > 0 then Inr (take (nat n) (drop (unat start - 1) (l streamID)))
     else Inr (take (nat (- n)) (rev (take (unat start) (l streamID)))))"
proof (cases "l streamID = [] \<or> n = 0")
  case False
  have l: "unat (word_of_nat (length (l streamID)) :: 64 word) = length (l streamID)"
    using assms(2) by (rule unat_length)
  with False have nz: "(word_of_nat (length (l streamID)) :: 64 word) \<noteq> 0" by auto
  have r: "ReadLog A None l streamID after cnt =
      readLoop (l streamID) 1 (word_of_nat (length (l streamID))) (n > 0) (nat \<bar>n\<bar>) start []"
    using False nz assms(1) by (simp add: ReadLog_def Let_def box)
  show ?thesis
  proof (cases "1 \<le> unat start \<and> unat start \<le> length (l streamID)")
    case True
    then have u: "1 \<le> unat start" "unat start \<le> length (l streamID)" by simp_all
    show ?thesis using r False u readLoop_up [OF assms(2) u] readLoop_down [OF assms(2) u] by simp
  next
    case out: False
    have "0 < nat \<bar>n\<bar>" using False by simp
    from readLoop_outside [OF assms(2) out this] r False out show ?thesis by auto
  qed
qed (use box in \<open>auto simp: ReadLog_def Let_def\<close>)

text \<open>
  What the shell relies on of package \<open>math\<close> for the one page it reads, the last 20 events: the
  position is inside the log.
\<close>

definition pages :: "mathLib \<Rightarrow> bool" where
  "pages A \<longleftrightarrow> (\<forall>c. mathAbs A c = \<bar>c\<bar>) \<and>
     (\<forall>lst start n. lst \<noteq> 0 \<longrightarrow> pagerBox A 1 lst (-1) (-20) = (start, n) \<longrightarrow> n \<noteq> 0 \<longrightarrow> 1 \<le> start \<and> start \<le> lst)"

lemma ReadLog_total:
  assumes "pages A" and "length (l s) < 2 ^ 63"
  shows "\<exists>evs. ReadLog A None l s (-1) (-20) = Inr evs"
proof -
  obtain start n where box: "pagerBox A 1 (word_of_nat (length (l s))) (-1) (-20) = (start, n)" by fastforce
  have a: "mathAbs A n = \<bar>n\<bar>" using assms(1) by (simp add: pages_def)
  have l: "unat (word_of_nat (length (l s)) :: 64 word) = length (l s)" using assms(2) by (rule unat_length)
  have "1 \<le> start \<and> start \<le> word_of_nat (length (l s))" if "l s \<noteq> []" "n \<noteq> 0"
  proof -
    have "(word_of_nat (length (l s)) :: 64 word) \<noteq> 0" using that(1) l by auto
    with assms(1) box that(2) show ?thesis unfolding pages_def by blast
  qed
  then have "l s = [] \<or> n = 0 \<or> \<not> (unat start = 0 \<or> length (l s) < unat start)"
    using l by (fastforce simp: word_le_nat_alt)
  with ReadLog_reads [where l = l and streamID = s, OF a assms(2) box] show ?thesis by auto
qed

text \<open>
  C22: what reading a page of a log returns for every answer of the pager: nothing for an empty log or an empty page; with a position inside the log that many events from there, forwards or backwards, cut off at the end or the beginning of the log; and with a position outside the log, 0 included, the read panics at the first event, where the unsigned position wraps. After the first event no index is out of range. The only law of the package is that Abs is the absolute value.
\<close>

theorem ReadLog_page:
  assumes "mathAbs A n = \<bar>n\<bar>" and "length (l streamID) < 2 ^ 63"
    and box: "pagerBox A 1 (word_of_nat (length (l streamID))) after cnt = (start, n)"
  shows "ReadLog A None l streamID after cnt =
    (if l streamID = [] \<or> n = 0 then Inr []
     else if unat start = 0 \<or> length (l streamID) < unat start then Inl (Panic ''index out of range'')
     else if n > 0 then Inr (take (nat n) (drop (unat start - 1) (l streamID)))
     else Inr (take (nat (- n)) (rev (take (unat start) (l streamID)))))"
  using assms by (rule ReadLog_reads)

definition demoMath :: mathLib where
  "demoMath = \<lparr>pagerBox = (\<lambda>fst0 lst after cnt. (if cnt < 0 then lst else fst0, cnt)), mathAbs = abs\<rparr>"

definition demoLog :: logs where
  "demoLog = (\<lambda>_. [OnReceived [1], OnReceived [2], OnReceived [3]])"

lemma demoMath_pages: "pages demoMath"
  by (auto simp: pages_def demoMath_def word_le_nat_alt Suc_le_eq unat_gt_0)

theorem ReadLog_page_witness:
  "ReadLog demoMath None demoLog [] 0 (-2) = Inr [OnReceived [3], OnReceived [2]]
   \<and> ReadLog demoMath None demoLog [] 0 7 = Inr [OnReceived [1], OnReceived [2], OnReceived [3]]
   \<and> ReadLog (demoMath\<lparr>pagerBox := (\<lambda>_ _ _ cnt. (0, cnt))\<rparr>) None demoLog [] 0 7 = Inl (Panic ''index out of range'')"
proof -
  have l: "length (demoLog []) < 2 ^ 63" by (simp add: demoLog_def)
  have a: "mathAbs demoMath n = \<bar>n\<bar>" "mathAbs (demoMath\<lparr>pagerBox := b\<rparr>) n = \<bar>n\<bar>" for n b by (simp_all add: demoMath_def)
  show ?thesis
    using ReadLog_page [where l = demoLog and streamID = "[]" and after = 0 and cnt = "-2", OF a(1) l]
      ReadLog_page [where l = demoLog and streamID = "[]" and after = 0 and cnt = 7, OF a(1) l]
      ReadLog_page [where l = demoLog and streamID = "[]" and after = 0 and cnt = 7, OF a(2) l]
    by (simp add: demoLog_def demoMath_def)
qed

end
