(* ===== verification/GoStrings.thy ===== *)
theory GoStrings
  imports Message
begin

text \<open>
  The functions of the standard package \<open>strings\<close> that the user interfaces parse commands with, on
  byte strings. A white space character (\<open>unicode.IsSpace\<close>) is recognised by its UTF-8 encoding: no
  encoding starts inside the encoding of another character, and every byte of an invalid encoding
  counts as a character of its own, so that a scan byte by byte sees the same white space.
\<close>

section \<open>White space\<close>

definition spaceRunes :: "bytes list" where
  "spaceRunes = [[9], [10], [11], [12], [13], [32], [0xC2, 0x85], [0xC2, 0xA0], [0xE1, 0x9A, 0x80]]
     @ map (\<lambda>i. [0xE2, 0x80, 0x80 + word_of_nat i]) [0..<11]
     @ [[0xE2, 0x80, 0xA8], [0xE2, 0x80, 0xA9], [0xE2, 0x80, 0xAF], [0xE2, 0x81, 0x9F], [0xE3, 0x80, 0x80]]"

text \<open>The length of the white space character a text starts with, or zero.\<close>

fun spaceLen :: "bytes list \<Rightarrow> bytes \<Rightarrow> nat" where
  "spaceLen [] b = 0"
| "spaceLen (r # rs) b = (if hasPrefix b r then length r else spaceLen rs b)"

lemma hasPrefix_length: "hasPrefix b r \<Longrightarrow> length r \<le> length b"
  by (auto simp: hasPrefix_def)

lemma spaceLen_le: "spaceLen rs b \<le> length b"
  by (induction rs) (auto dest: hasPrefix_length)

lemma spaceLen_Nil [simp]: "spaceLen rs [] = 0"
  using spaceLen_le [of rs "[]"] by simp

section \<open>Trimming and splitting\<close>

function trimLeft :: "bytes list \<Rightarrow> bytes \<Rightarrow> bytes" where
  "trimLeft rs b = (if spaceLen rs b = 0 then b else trimLeft rs (drop (spaceLen rs b) b))"
  by pat_completeness auto
termination
proof (relation "measure (\<lambda>(rs, b). length b)")
  fix rs :: "bytes list" and b :: bytes
  assume "spaceLen rs b \<noteq> 0"
  with spaceLen_le [of rs b] show "((rs, drop (spaceLen rs b) b), (rs, b)) \<in> measure (\<lambda>(rs, b). length b)" by simp
qed simp

declare trimLeft.simps [simp del]

definition TrimSpace :: "bytes \<Rightarrow> bytes" where
  "TrimSpace b = rev (trimLeft (map rev spaceRunes) (rev (trimLeft spaceRunes b)))"

text \<open>\<open>cur\<close> is the field that is being read.\<close>

function fieldsLoop :: "bytes \<Rightarrow> bytes \<Rightarrow> bytes list" where
  "fieldsLoop cur b =
     (if b = [] then (if cur = [] then [] else [cur])
      else let n = spaceLen spaceRunes b in
        if n = 0 then fieldsLoop (cur @ [hd b]) (tl b)
        else (if cur = [] then [] else [cur]) @ fieldsLoop [] (drop n b))"
  by pat_completeness auto
termination by (relation "measure (\<lambda>(cur, b). length b)") auto

declare fieldsLoop.simps [simp del]

definition Fields :: "bytes \<Rightarrow> bytes list" where
  "Fields b = fieldsLoop [] b"

definition TrimPrefix :: "bytes \<Rightarrow> bytes \<Rightarrow> bytes" where
  "TrimPrefix b p = (if hasPrefix b p then drop (length p) b else b)"

text \<open>The parts before and after the first separator; without one, the whole text and nothing.\<close>

fun cutLoop :: "bytes \<Rightarrow> bytes \<Rightarrow> bytes \<Rightarrow> bytes \<times> bytes" where
  "cutLoop sep pre b = (if hasPrefix b sep then (pre, drop (length sep) b)
     else case b of [] \<Rightarrow> (pre, []) | c # b' \<Rightarrow> cutLoop sep (pre @ [c]) b')"

declare cutLoop.simps [simp del]

definition Cut :: "bytes \<Rightarrow> bytes \<Rightarrow> bytes \<times> bytes" where
  "Cut b sep = cutLoop sep [] b"

section \<open>What fields are\<close>

lemma fields_nonempty: "f \<in> set (fieldsLoop cur b) \<Longrightarrow> f \<noteq> []"
proof (induction cur b rule: fieldsLoop.induct)
  case (1 cur b)
  then show ?case by (subst (asm) (3) fieldsLoop.simps) (auto simp: Let_def split: if_splits)
qed

lemma Fields_nonempty: "f \<in> set (Fields b) \<Longrightarrow> f \<noteq> []"
  by (simp add: Fields_def fields_nonempty)

end
