(* ===== verification/Terminal.thy ===== *)
theory Terminal
  imports MemSession GoStrings
begin

text \<open>
  How the user interfaces print the events of a client: the shell (\<open>src/interactive/interactive.go\<close>)
  and the full screen interface (\<open>src/ui/chat.go\<close>). The texts of package \<open>lextwt\<close> messages and of
  errors are parameters; the clock is computed from the time and the offset of the local zone.
\<close>

section \<open>External code\<close>

record fmtLib =
  zone :: "nat \<Rightarrow> int"
    \<comment> \<open>the offset of the local time zone in seconds, at a time in milliseconds\<close>
  stampSecs :: "saltyText \<Rightarrow> int"
    \<comment> \<open>\<open>Timestamp.DateTime()\<close> as seconds of its own time zone\<close>
  literalText :: "saltyText \<Rightarrow> bytes"
  userText :: "saltyText \<Rightarrow> bytes"
  textEvents :: "saltyText \<Rightarrow> saltyEvent list"
  errText :: "err \<Rightarrow> bytes"
  addrText :: "Addr \<Rightarrow> bytes"
    \<comment> \<open>\<open>Addr.String()\<close>\<close>
  sprint :: "event \<Rightarrow> bytes"
    \<comment> \<open>\<open>fmt.Sprint\<close> of an event without a format of its own\<close>

section \<open>Escape sequences and the clock\<close>

definition esc :: "string \<Rightarrow> bytes" where
  "esc s = 27 # str s"

definition CLEAR_LINE :: bytes where
  "CLEAR_LINE = esc ''[1A'' @ esc ''[2K'' @ [13]"

definition COLOR_GREY :: bytes where
  "COLOR_GREY = esc ''[90m''"

definition COLOR_RED :: bytes where
  "COLOR_RED = esc ''[31m''"

definition COLOR_BLUE :: bytes where
  "COLOR_BLUE = esc ''[34m''"

definition RESET_COLOR :: bytes where
  "RESET_COLOR = esc ''[0m''"

definition newline :: bytes where
  "newline = [10]"

text \<open>The layout \<open>15:04:05\<close> of package \<open>time\<close>.\<close>

definition twoDigits :: "int \<Rightarrow> bytes" where
  "twoDigits n = [48 + word_of_int (n div 10), 48 + word_of_int (n mod 10)]"

definition clockText :: "int \<Rightarrow> bytes" where
  "clockText secs = (let s = secs mod 86400 in
     twoDigits (s div 3600) @ str '':'' @ twoDigits (s div 60 mod 60) @ str '':'' @ twoDigits (s mod 60))"

definition getTime :: "saltyLib \<Rightarrow> fmtLib \<Rightarrow> bytes \<Rightarrow> bytes" where
  "getTime S F u = (let t = ulidTime S u in clockText (int t div 1000 + zone F t))"

text \<open>\<open>strings.Join\<close>.\<close>

fun join :: "bytes \<Rightarrow> bytes list \<Rightarrow> bytes" where
  "join sep [] = []"
| "join sep [x] = x"
| "join sep (x # y # ys) = x @ sep @ join sep (y # ys)"

section \<open>The lines of events\<close>

text \<open>The formats that both interfaces use.\<close>

definition notice :: "string \<Rightarrow> bytes \<Rightarrow> bytes" where
  "notice what them = COLOR_GREY @ str ''::: '' @ str what @ str '' '' @ them @ str '' :::'' @ RESET_COLOR"

definition spoken :: "bytes \<Rightarrow> bytes \<Rightarrow> bytes \<Rightarrow> bytes \<Rightarrow> bytes" where
  "spoken ts colour who msg =
     COLOR_GREY @ ts @ str '' <'' @ colour @ who @ COLOR_GREY @ str ''> '' @ RESET_COLOR @ msg"

definition called :: "saltyEvent \<Rightarrow> bytes" where
  "called e = Command e @ str ''('' @ join (str '', '') (Args e) @ str '')''"

fun formatMsg :: "saltyLib \<Rightarrow> fmtLib \<Rightarrow> bytes \<Rightarrow> event \<Rightarrow> bytes" where
  "formatMsg S F me (OnOfferSent i them raw) = notice ''offer sent'' them"
| "formatMsg S F me (OnOfferReceived i them pendingAck) = notice ''offer from'' them"
| "formatMsg S F me (OnSessionStarted i them) = notice ''session started with'' them"
| "formatMsg S F me (OnSessionClosed i them) = notice ''session closed with'' them"
| "formatMsg S F me (OnMessageReceived i them raw m) = spoken (getTime S F i) COLOR_RED them (literalText F m)"
| "formatMsg S F me (OnMessageSent i them raw m s) = spoken (getTime S F i) COLOR_RED me (literalText F m)"
| "formatMsg S F me (OnSaltySent them addr m raw) = spoken (clockText (stampSecs F m)) COLOR_BLUE me (literalText F m)"
| "formatMsg S F me (OnSaltyTextReceived k m) =
     spoken (clockText (stampSecs F m)) COLOR_BLUE (userText F m) (literalText F m)"
| "formatMsg S F me (OnSaltyEventReceived k e) = COLOR_GREY @ str ''::: salty: '' @ called e @ RESET_COLOR"
| "formatMsg S F me (OnReceived raw) = COLOR_GREY @ str ''::: unknown message: '' @ raw @ RESET_COLOR"
| "formatMsg S F me (OnError e) = errText F e"
| "formatMsg S F me ev = sprint F ev"

text \<open>The full screen interface also prints the events inside a message.\<close>

definition eventLines :: "fmtLib \<Rightarrow> bytes \<Rightarrow> saltyText \<Rightarrow> bytes" where
  "eventLines F ts m =
     concat (map (\<lambda>e. COLOR_GREY @ ts @ str '' :: event: '' @ called e @ RESET_COLOR @ newline) (textEvents F m))"

fun uiFormatMsg :: "saltyLib \<Rightarrow> fmtLib \<Rightarrow> bytes \<Rightarrow> event \<Rightarrow> bytes" where
  "uiFormatMsg S F me (OnMessageReceived i them raw m) =
     eventLines F (getTime S F i) m @ spoken (getTime S F i) COLOR_RED them (literalText F m)"
| "uiFormatMsg S F me (OnSaltyTextReceived k m) =
     eventLines F (clockText (stampSecs F m)) m
     @ spoken (clockText (stampSecs F m)) COLOR_BLUE (userText F m) (literalText F m)"
| "uiFormatMsg S F me (OnSaltyEventReceived k e) = COLOR_GREY @ str ''::: event: '' @ called e @ RESET_COLOR"
| "uiFormatMsg S F me ev = formatMsg S F me ev"

end
