(* ===== verification/Shell.thy ===== *)
theory Shell
  imports Terminal
begin

text \<open>
  The interactive shell (\<open>src/interactive/interactive.go\<close>): the handlers that print the events of the
  client, the commands of a line, and the loop that reads lines while the client receives messages.
  Lines and incoming messages are handled one after the other.
\<close>

section \<open>State\<close>

datatype printout = Stdout bytes | Stderr bytes

record 's shell =
  prompt :: bytes
  shClient :: "'s client"
  shLogs :: logs
  shThem :: bytes
  shOut :: "printout list"

text \<open>The code the shell is linked with.\<close>

record 's linked =
  kM :: "'s SessionManager"
  kP :: prims
  kL :: libs
  kS :: saltyLib
  kF :: fmtLib
  kA :: mathLib

text \<open>
  The input of one step: that of the client, the lock of the logs at every update and at a read,
  the order of the sessions and of the handlers.
\<close>

record shellIo =
  sIo :: io
  sLate :: bool
  sUpdate :: "nat \<Rightarrow> err option"
  sRead :: "err option"
  sOrder :: "(bytes \<times> bytes) list \<Rightarrow> (bytes \<times> bytes) list"
  sHandlers :: "handler list"

definition svcNew :: "'s client \<Rightarrow> 's shell" where
  "svcNew c = \<lparr>prompt = [], shClient = c, shLogs = NewMemSession, shThem = [], shOut = []\<rparr>"

section \<open>Printing\<close>

definition print :: "bytes \<Rightarrow> 's shell \<Rightarrow> 's shell" where
  "print b st = st\<lparr>shOut := shOut st @ [Stdout b]\<rparr>"

definition logLine :: "bytes \<Rightarrow> 's shell \<Rightarrow> 's shell" where
  "logLine b st = st\<lparr>shOut := shOut st @ [Stderr (COLOR_GREY @ b @ RESET_COLOR @ newline)]\<rparr>"

definition promptFor :: "bytes \<Rightarrow> bytes \<Rightarrow> bytes" where
  "promptFor me them = (if them = [] then str ''['' @ me @ str '']> ''
     else str ''['' @ me @ str '' -> '' @ them @ str '']> '')"

definition setPrompt :: "bytes \<Rightarrow> bytes \<Rightarrow> 's shell \<Rightarrow> 's shell" where
  "setPrompt me them st = st\<lparr>prompt := promptFor me them\<rparr>"

section \<open>The handlers of events\<close>

text \<open>How an event is printed: after an empty line or not, with the prompt or not.\<close>

fun style :: "event \<Rightarrow> (bool \<times> bool) option" where
  "style (OnOfferSent _ _ _) = Some (False, True)"
| "style (OnMessageSent _ _ _ _ _) = Some (False, False)"
| "style (OnSaltySent _ _ _ _) = Some (False, False)"
| "style (OnError _) = Some (False, True)"
| "style (OnEventReceived _ _ _ _) = None"
| "style (OnCloseSent _ _ _) = None"
| "style _ = Some (True, True)"

text \<open>The handler of \<open>OnSessionClosed\<close> resets the prompt; the current peer stays.\<close>

fun resetPrompt :: "bytes \<Rightarrow> event \<Rightarrow> 's shell \<Rightarrow> 's shell" where
  "resetPrompt me (OnSessionClosed i them) st = (if shThem st = them then setPrompt me [] st else st)"
| "resetPrompt me _ st = st"

definition onEvent :: "saltyLib \<Rightarrow> fmtLib \<Rightarrow> bytes \<Rightarrow> event \<Rightarrow> 's shell \<Rightarrow> 's shell" where
  "onEvent S F me ev st =
     (let st = resetPrompt me ev st in
      case style ev of None \<Rightarrow> st
      | Some (nl, pr) \<Rightarrow>
          print ((if nl then newline else []) @ CLEAR_LINE @ formatMsg S F me ev @ newline
            @ (if pr then prompt st else [])) st)"

text \<open>The log in memory has handlers of its own for the same events.\<close>

definition logEvent :: "err option \<Rightarrow> event \<Rightarrow> 's shell \<Rightarrow> 's shell" where
  "logEvent lock ev st = (if registered ev then st\<lparr>shLogs := Update lock (shLogs st) ev\<rparr> else st)"

fun feed :: "saltyLib \<Rightarrow> fmtLib \<Rightarrow> (nat \<Rightarrow> err option) \<Rightarrow> bytes \<Rightarrow> nat \<Rightarrow> event list \<Rightarrow> 's shell \<Rightarrow> 's shell" where
  "feed S F lock me k [] st = st"
| "feed S F lock me k (ev # evs) st = feed S F lock me (Suc k) evs (onEvent S F me ev (logEvent (lock k) ev st))"

text \<open>An operation of the client, with the handlers of the events it dispatches.\<close>

definition operate :: "'s linked \<Rightarrow> shellIo \<Rightarrow> bytes \<Rightarrow> 's shell \<Rightarrow> 's client \<times> err option \<Rightarrow> 's shell \<times> err option" where
  "operate E w me st cr = (case cr of (c, r) \<Rightarrow>
     (feed (kS E) (kF E) (sUpdate w) me 0 (drop (length (clEvents (shClient st))) (clEvents c)) (st\<lparr>shClient := c\<rparr>), r))"

section \<open>Commands\<close>

datatype status =
    Reading            \<comment> \<open>waiting for a line\<close>
  | Detached           \<comment> \<open>the loop over lines has ended, the client runs on\<close>
  | Stopped            \<comment> \<open>the context of the client is cancelled\<close>
  | Crashed err        \<comment> \<open>a panic has ended the program\<close>

text \<open>What the loop does with the error of a command; \<open>pre\<close> comes before its text.\<close>

fun logged :: "fmtLib \<Rightarrow> string \<Rightarrow> 's shell \<times> err option \<Rightarrow> 's shell \<times> status" where
  "logged F pre (st, None) = (st, Reading)"
| "logged F pre (st, Some (Panic p)) = (st, Crashed (Panic p))"
| "logged F pre (st, Some e) = (logLine (str pre @ errText F e) st, Reading)"

definition showLog :: "'s linked \<Rightarrow> bytes \<Rightarrow> event list \<Rightarrow> 's shell \<Rightarrow> 's shell" where
  "showLog E me = fold (\<lambda>ev. print (formatMsg (kS E) (kF E) me ev @ newline))"

definition logName :: "bytes \<Rightarrow> bytes \<Rightarrow> bytes" where
  "logName them input =
     (let logname = (if hasPrefix input (str ''/log '') then TrimPrefix input (str ''/log '') else [])
      in if logname = [] then (if them \<noteq> [] then str ''user:'' @ them else str ''system'') else logname)"

definition doLog :: "'s linked \<Rightarrow> shellIo \<Rightarrow> bytes \<Rightarrow> bytes \<Rightarrow> 's shell \<Rightarrow> 's shell \<times> status" where
  "doLog E w me input st =
     (let logname = logName (shThem st) input;
          header = print (newline @ str ''LOG: '' @ logname @ newline)
      in case ReadLog (kA E) (sRead w) (shLogs st) logname (-1) (-20) of
           Inl (Panic p) \<Rightarrow> (st, Crashed (Panic p))
         | Inl e \<Rightarrow> (header (print (errText (kF E) e @ newline) st), Reading)
         | Inr l \<Rightarrow> (showLog E me l (header st), Reading))"

definition listSessions :: "'s linked \<Rightarrow> shellIo \<Rightarrow> 's shell \<Rightarrow> 's shell \<times> err option" where
  "listSessions E w st =
     (case ioLock (sIo w) of Some e \<Rightarrow> (st, Some e)
      | None \<Rightarrow> (fold (\<lambda>(n, i). logLine (str ''sess: '' @ n)) (mSessions (kM E) (sOrder w) (clManager (shClient st)))
          (logLine (str ''usage: /chat|close username'') st), None))"

text \<open>A panic of \<open>Chat\<close> ends the program, every other error is lost.\<close>

fun onlyPanic :: "err option \<Rightarrow> err option" where
  "onlyPanic (Some (Panic p)) = Some (Panic p)"
| "onlyPanic _ = None"

definition doChat :: "'s linked \<Rightarrow> shellIo \<Rightarrow> bytes \<Rightarrow> bytes \<Rightarrow> 's shell \<Rightarrow> 's shell \<times> err option" where
  "doChat E w me input st =
     (let sp = Fields input in
      if length sp \<le> 1 then listSessions E w st
      else if me = sp ! 1 then (st, Some ErrSelf)
      else let st = st\<lparr>shThem := sp ! 1\<rparr> in
        case ReadLog (kA E) (sRead w) (shLogs st) (str ''user:'' @ shThem st) (-1) (-20) of
          Inl e \<Rightarrow> (st, Some e)
        | Inr l \<Rightarrow>
            (let st = setPrompt me (shThem st) (showLog E me l st) in
             case clientChat (kM E) (kP E) (kL E) (sIo w) (sLate w) (shClient st) (shThem st) of
               (c, _, r) \<Rightarrow> operate E w me st (c, onlyPanic r)))"

definition doClose :: "'s linked \<Rightarrow> shellIo \<Rightarrow> bytes \<Rightarrow> bytes \<Rightarrow> 's shell \<Rightarrow> 's shell \<times> err option" where
  "doClose E w me input st =
     (let sp = Fields input;
          target = (if length sp > 1 then sp ! 1 else shThem st)
      in if target = [] then (st, None)
         else let st = setPrompt me [] (st\<lparr>shThem := []\<rparr>);
                  st = print (esc ''[1A'' @ [13] @ esc ''[2K'' @ str ''<'' @ me @ str ''> '' @ input @ newline) st
              in operate E w me st (clientClose (kM E) (sIo w) (shClient st) target))"

definition doSalty :: "'s linked \<Rightarrow> shellIo \<Rightarrow> bytes \<Rightarrow> bytes \<Rightarrow> 's shell \<Rightarrow> 's shell \<times> err option" where
  "doSalty E w me input st =
     (let (target, msg) = Cut (TrimPrefix input (str ''/salty '')) (str '' '')
      in operate E w me st (SendSalty (kM E) (kS E) (sIo w) (shClient st) target msg []))"

definition doDefault :: "'s linked \<Rightarrow> shellIo \<Rightarrow> bytes \<Rightarrow> bytes \<Rightarrow> 's shell \<Rightarrow> 's shell \<times> err option" where
  "doDefault E w me input st =
     operate E w me st (clientSend (kM E) (kP E) (kS E) (sIo w) (shClient st) (shThem st) input [])"

definition handleLine :: "'s linked \<Rightarrow> shellIo \<Rightarrow> bytes \<Rightarrow> bytes \<Rightarrow> 's shell \<Rightarrow> 's shell \<times> status" where
  "handleLine E w me line st =
     (let input = TrimSpace line in
      if input = [] then (st, Reading)
      else if hasPrefix input (str ''/log'') then doLog E w me input st
      else if hasPrefix input (str ''/chat'') then logged (kF E) ''ERR: '' (doChat E w me input st)
      else if hasPrefix input (str ''/close'') then logged (kF E) ''ERR: '' (doClose E w me input st)
      else if hasPrefix input (str ''/quit'') then (st, Stopped)
      else if hasPrefix input (str ''/salty'') then logged (kF E) ''ERR: '' (doSalty E w me input st)
      else if shThem st = [] then (logLine (str ''usage: /chat username'') st, Reading)
      else logged (kF E) '''' (doDefault E w me input st))"

section \<open>Reading the standard input\<close>

text \<open>
  What the loop of \<open>ctxReader.Read\<close> meets next: the context is done, or after a tick a read of the
  standard input gives some bytes and an error.
\<close>

datatype tick = CtxDone | Polled bytes "err option"

partial_function (option) ctxRead :: "(nat \<Rightarrow> tick) \<Rightarrow> nat \<Rightarrow> (bytes \<times> err option) option" where
  "ctxRead up n = (case up n of CtxDone \<Rightarrow> Some ([], Some ErrEOF)
     | Polled b e \<Rightarrow> (if b \<noteq> [] then Some (b, e) else ctxRead up (Suc n)))"

section \<open>The loop\<close>

text \<open>Back at the head of the loop the prompt is printed.\<close>

definition ready :: "'s shell \<times> status \<Rightarrow> 's shell \<times> status" where
  "ready r = (case r of (st, Reading) \<Rightarrow> (print (prompt st) st, Reading) | _ \<Rightarrow> r)"

definition startShell :: "'s linked \<Rightarrow> shellIo \<Rightarrow> bytes \<Rightarrow> bytes \<Rightarrow> 's shell \<Rightarrow> 's shell \<times> status" where
  "startShell E w me them st =
     (let st = setPrompt me them st in
      if them \<noteq> [] then
        (let initial = str ''/chat '' @ them
         in ready (handleLine E w me initial (logLine initial (st\<lparr>shThem := []\<rparr>))))
      else ready (st\<lparr>shThem := []\<rparr>, Reading))"

text \<open>
  What can happen: a line is read, the scanner gives up (a line is longer than its buffer), the
  context is cancelled, or the message bus delivers a message.
\<close>

datatype shellEvent =
    Scanned shellIo bytes
  | ScanEnded
  | Cancelled
  | Delivered shellIo int bytes

definition incoming :: "'s linked \<Rightarrow> shellIo \<Rightarrow> bytes \<Rightarrow> int \<Rightarrow> bytes \<Rightarrow> 's shell \<Rightarrow> 's shell \<times> err option" where
  "incoming E w me pos payload st =
     operate E w me st (Input (kM E) (kP E) (kL E) (kS E) (sIo w) pos payload (sHandlers w) (shClient st))"

fun shellStep :: "'s linked \<Rightarrow> bytes \<Rightarrow> shellEvent \<Rightarrow> 's shell \<times> status \<Rightarrow> 's shell \<times> status" where
  "shellStep E me (Scanned w line) (st, s) = (if s = Reading then ready (handleLine E w me line st) else (st, s))"
| "shellStep E me ScanEnded (st, s) = (st, if s = Reading then Detached else s)"
| "shellStep E me Cancelled (st, s) = (st, if s = Reading \<or> s = Detached then Stopped else s)"
| "shellStep E me (Delivered w pos payload) (st, s) =
     (if s = Reading \<or> s = Detached then
        (case incoming E w me pos payload st of (st, Some e) \<Rightarrow> (st, Crashed e) | (st, None) \<Rightarrow> (st, s))
      else (st, s))"

definition Interactive :: "'s linked \<Rightarrow> shellIo \<Rightarrow> bytes \<Rightarrow> bytes \<Rightarrow> shellEvent list \<Rightarrow> 's client \<Rightarrow> 's shell \<times> status" where
  "Interactive E w me them events c = fold (shellStep E me) events (startShell E w me them (svcNew c))"

section \<open>When reading returns\<close>

fun returns :: "tick \<Rightarrow> (bytes \<times> err option) option" where
  "returns CtxDone = Some ([], Some ErrEOF)"
| "returns (Polled b e) = (if b = [] then None else Some (b, e))"

lemma ctxRead_step: "ctxRead up n = (case returns (up n) of Some y \<Rightarrow> Some y | None \<Rightarrow> ctxRead up (Suc n))"
  by (subst ctxRead.simps) (auto split: tick.split)

lemma ctxRead_first:
  assumes "\<forall>i < n. returns (up (k + i)) = None" and "returns (up (k + n)) = Some y"
  shows "ctxRead up k = Some y"
  using assms
proof (induction n arbitrary: k)
  case 0
  then show ?case by (simp add: ctxRead_step [of up k])
next
  case (Suc n)
  have "\<forall>i < n. returns (up (Suc k + i)) = None"
  proof (intro allI impI)
    fix i assume "i < n"
    then show "returns (up (Suc k + i)) = None" using Suc.prems(1) [rule_format, of "Suc i"] by simp
  qed
  moreover have "returns (up k) = None" using Suc.prems(1) [rule_format, of 0] by simp
  ultimately show ?case using Suc.IH [of "Suc k"] Suc.prems(2) by (simp add: ctxRead_step [of up k])
qed

lemma ctxRead_returned: "ctxRead up k = Some y \<Longrightarrow> \<exists>n \<ge> k. returns (up n) = Some y"
proof (induction up k y rule: ctxRead.raw_induct [rotated, consumes 1])
  case (1 ctxRead up k y)
  show ?case
  proof (cases "returns (up k)")
    case None
    then have "ctxRead up (Suc k) = Some y" using 1(2) by (cases "up k") (auto split: if_splits)
    from 1(1) [OF this] show ?thesis by (meson Suc_leD)
  next
    case (Some z)
    then have "y = z" using 1(2) by (cases "up k") (auto split: if_splits)
    with Some show ?thesis by blast
  qed
qed

text \<open>
  C25: reading the standard input ends exactly when the context is cancelled or a read delivers bytes, and then gives what the first such event gives; in particular the end of the input, a read of no bytes with the error io.EOF, is never reported, and without a cancelled context the call does not return.
\<close>

theorem ctxReader_returns:
  "(\<forall>n y. (\<forall>i < n. returns (up i) = None) \<longrightarrow> returns (up n) = Some y \<longrightarrow> ctxRead up 0 = Some y)
   \<and> ((\<forall>n. returns (up n) = None) \<longrightarrow> ctxRead up 0 = None)
   \<and> ((\<forall>n. up n = Polled [] (Some ErrEOF)) \<longrightarrow> ctxRead up 0 = None)"
proof -
  have "(\<forall>n. returns (up n) = None) \<Longrightarrow> ctxRead up 0 = None"
    by (metis ctxRead_returned not_Some_eq option.distinct(1))
  then show ?thesis using ctxRead_first [where k = 0 and up = up] by simp
qed

theorem ctxReader_returns_witness:
  "ctxRead (\<lambda>n. if n < 2 then Polled [] None else Polled [104, 105] None) 0 = Some ([104, 105], None)
   \<and> ctxRead (\<lambda>n. Polled [] (Some ErrEOF)) 0 = None"
  using ctxReader_returns [of "\<lambda>n. if n < 2 then Polled [] None else Polled [104, 105] None"]
    ctxReader_returns [of "\<lambda>n. Polled [] (Some ErrEOF)"]
  by (auto dest!: spec [of _ "2 :: nat"])

end
