(* ===== verification/ShellRuns.thy ===== *)
theory ShellRuns
  imports Shell
begin

text \<open>
  The shell refines a machine that only knows commands: its logs, its prompt and what it prints have
  no influence on the client, and reading a log never ends it. The logs are the events of the
  client, and the prompt names nobody but the current peer.
\<close>

section \<open>Events are only appended\<close>

text \<open>No operation of the client takes an event back or changes its address.\<close>

definition grows :: "'s client \<Rightarrow> 's client \<Rightarrow> bool" where
  "grows c c' \<longleftrightarrow> (\<exists>evs. clEvents c' = clEvents c @ evs) \<and> clAddr c' = clAddr c"

lemma grows_refl [simp]: "grows c c"
  by (simp add: grows_def)

lemma grows_trans: "grows c c' \<Longrightarrow> grows c' c'' \<Longrightarrow> grows c c''"
  by (auto simp: grows_def)

lemma grows_manager [simp]: "grows c (c'\<lparr>clManager := s\<rparr>) = grows c c'" "grows (c\<lparr>clManager := s\<rparr>) c' = grows c c'"
  by (simp_all add: grows_def)

lemma grows_length: "grows c c' \<Longrightarrow> length (clEvents c) \<le> length (clEvents c')"
  by (auto simp: grows_def)

lemma dispatch_grows: "dispatch c ev = (c', e) \<Longrightarrow> grows c c'"
  by (auto simp: dispatch_def grows_def)

lemma sendMsg_grows: "sendMsg w c sess msg = (c', e) \<Longrightarrow> grows c c'"
  by (auto simp: sendMsg_def grows_def)

lemma putSession_grows: "putSession M w c sess = (c', e) \<Longrightarrow> grows c c'"
  by (auto simp: putSession_def grows_def split: prod.splits)

lemma report_grows: "report (c, r) = (c', e) \<Longrightarrow> grows c c'"
  by (cases "(c, r)" rule: report.cases) (auto simp: dispatch_def grows_def)

lemma setPos_grows [simp]: "grows c (setPos M p c)"
  by (simp add: setPos_def split: option.split)

lemmas grows_dest = dispatch_grows sendMsg_grows putSession_grows

lemma startChat_grows:
  assumes "startChat M P L w c them = (c', e)"
  shows "grows c c'"
  using assms
  by (auto simp: startChat_def Let_def split: prod.splits sum.splits option.splits
      dest!: grows_dest intro: grows_trans)

lemma clientChat_grows:
  assumes "clientChat M P L w late c them = (c', est, e)"
  shows "grows c c'"
  using assms
  by (auto simp: clientChat_def Let_def split: prod.splits sum.splits option.splits if_splits
      dest!: grows_dest startChat_grows intro: grows_trans)

lemma clientSend_grows:
  assumes "clientSend M P S w c them text events = (c', e)"
  shows "grows c c'"
  using assms
  by (auto simp: clientSend_def Use_def Let_def split: prod.splits sum.splits option.splits
      dest!: grows_dest intro: grows_trans)

lemma clientClose_grows:
  assumes "clientClose M w c them = (c', e)"
  shows "grows c c'"
  using assms
  by (auto simp: clientClose_def Use_def Let_def dispatch_def sendMsg_def grows_def
      split: prod.splits sum.splits option.splits)

lemma SendSalty_grows:
  assumes "SendSalty M S w c them text events = (c', e)"
  shows "grows c c'"
  using assms
  by (auto simp: SendSalty_def Use_def Let_def dispatch_def grows_def split: sum.splits option.splits)

lemma afterReceive_grows: "grows c (fst (afterReceive M S w c sess xm est cl pt))"
  by (auto simp: afterReceive_def dispatch_def Let_def grows_def
      split: prod.splits sum.splits saltyMsg.splits option.splits)

lemma sessionFor_grows: "sessionFor M w c i xm = (c', r) \<Longrightarrow> grows c c'"
  by (auto simp: sessionFor_def split: Msg.splits prod.splits sum.splits)

lemma ratchetBody_grows:
  assumes "ratchetBody M P L S w p i xmsg c = (c', e)"
  shows "grows c c'"
proof (cases "unsealMsg M P L (setPos M p c) xmsg")
  case (Inl e)
  then show ?thesis using assms by (auto simp: ratchetBody_def Let_def)
next
  case (Inr xm)
  obtain c1 so where s: "sessionFor M w (setPos M p c) i xm = (c1, so)" by fastforce
  then have g: "grows c c1" using grows_trans [OF setPos_grows sessionFor_grows] by blast
  show ?thesis
  proof (cases "\<exists>sess. so = Inr (Some sess)")
    case False
    then show ?thesis using assms Inr s g
      by (auto simp: ratchetBody_def Let_def split: sum.splits option.splits)
  next
    case True
    then obtain sess where so: "so = Inr (Some sess)" by blast
    obtain sess' est cl pt e1 where rm: "peerReceiveMsg P (ioRand w) sess xm = (sess', est, cl, pt, e1)"
      by (cases "peerReceiveMsg P (ioRand w) sess xm") auto
    define c2 where "c2 = (if PendingAck sess' \<noteq> [] then
        fst (dispatch c1 (OnOfferReceived (toULID (deref (ID xm))) (Name sess') (PendingAck sess'))) else c1)"
    obtain c3 e3 where put: "putSession M w c2 sess' = (c3, e3)" by fastforce
    have "grows c1 c2" by (simp add: c2_def dispatch_def grows_def)
    with g putSession_grows [OF put] have g3: "grows c c3" using grows_trans by blast
    have "(c', e) = (case e1 of Some e \<Rightarrow> (c1, Some (wrap ''session receive'' e)) | None \<Rightarrow>
        (case e3 of Some e \<Rightarrow> (c3, Some e) | None \<Rightarrow> afterReceive M S w c3 sess' xm est cl pt))"
      using assms Inr s so rm put
      by (simp add: ratchetBody_def Let_def c2_def [symmetric] split: option.splits)
    then have "c' = fst \<dots>" by (metis fst_conv)
    then show ?thesis
      using g g3 grows_trans [OF g3 afterReceive_grows [of c3 M S w sess' xm est cl pt]]
      by (cases e1; cases e3) auto
  qed
qed

lemma handleRatchet_grows:
  assumes "handleRatchet M P L S w p input c = (c', e)"
  shows "grows c c'"
proof (cases "\<exists>i xmsg. isRatchet input \<and> readMsg input = Inr (i, xmsg) \<and> ioLock w = None")
  case True
  then obtain i xmsg where r: "isRatchet input" "readMsg input = Inr (i, xmsg)" "ioLock w = None" by blast
  obtain c1 e1 where b: "ratchetBody M P L S w p i xmsg c = (c1, e1)" by fastforce
  with assms r have "report (c1, e1) = (c', e)" by (simp add: handleRatchet_def Use_def)
  with ratchetBody_grows [OF b] report_grows grows_trans show ?thesis by blast
qed (use assms in \<open>auto simp: handleRatchet_def Use_def split: if_splits sum.splits option.splits dest!: report_grows\<close>)

lemma handleSaltPack_grows:
  assumes "handleSaltPack M S w p input c = (c', e)"
  shows "grows c c'"
proof (cases "isSaltPack input")
  case True
  obtain c1 e1 where u: "Use w c (\<lambda>c. let c = setPos M p c in
        case saltyDecrypt S (mIdentity M (clManager c)) input of Inl e \<Rightarrow> (c, Some e)
        | Inr (text, k) \<Rightarrow> (case parseSalty S text of Inl e \<Rightarrow> (c, Some e)
            | Inr (EventMsg m) \<Rightarrow> dispatch c (OnSaltyEventReceived k m)
            | Inr (TextMsg m) \<Rightarrow> dispatch c (OnSaltyTextReceived k m)
            | Inr OtherMsg \<Rightarrow> (c, None))) = (c1, e1)" by fastforce
  then have "grows c c1"
    by (auto simp: Use_def Let_def setPos_def split: option.splits sum.splits prod.splits saltyMsg.splits
        dest!: dispatch_grows)
  moreover have "report (c1, e1) = (c', e)" using assms True u by (simp add: handleSaltPack_def)
  ultimately show ?thesis using report_grows grows_trans by blast
qed (use assms in \<open>simp add: handleSaltPack_def\<close>)

lemma runHandler_grows: "runHandler M P L S w p input h c = (c', e) \<Longrightarrow> grows c c'"
  by (cases h) (auto simp: runHandler_def handleOther_def split: if_splits
      dest: handleSaltPack_grows handleRatchet_grows dispatch_grows)

lemma Input_grows: "Input M P L S w p input hs c = (c', e) \<Longrightarrow> grows c c'"
proof (induction hs arbitrary: c)
  case (Cons h hs)
  obtain c1 e1 where h: "runHandler M P L S w p input h c = (c1, e1)" by fastforce
  from Cons.prems h Cons.IH [of c1] have "grows c1 c'" by (cases e1) auto
  with runHandler_grows [OF h] show ?case by (rule grows_trans)
qed simp

section \<open>What the handlers of events keep\<close>

lemma print_simps [simp]:
  "shClient (print b st) = shClient st" "shThem (print b st) = shThem st" "shLogs (print b st) = shLogs st"
  "prompt (print b st) = prompt st"
  "shClient (logLine b st) = shClient st" "shThem (logLine b st) = shThem st" "shLogs (logLine b st) = shLogs st"
  "prompt (logLine b st) = prompt st"
  "shClient (setPrompt me n st) = shClient st" "shThem (setPrompt me n st) = shThem st"
  "shLogs (setPrompt me n st) = shLogs st" "prompt (setPrompt me n st) = promptFor me n"
  by (simp_all add: print_def logLine_def setPrompt_def)

text \<open>The parts of the state that are not printed.\<close>

definition core :: "'s shell \<Rightarrow> 's client \<times> bytes \<times> logs \<times> bytes" where
  "core st = (shClient st, shThem st, shLogs st, prompt st)"

lemma core_print [simp]: "core (print b st) = core st" "core (logLine b st) = core st"
  by (simp_all add: core_def)

lemma core_fold_print: "(\<And>x st. core (f x st) = core st) \<Longrightarrow> core (fold f xs st) = core st"
  by (induction xs arbitrary: st) simp_all

lemma core_showLog [simp]: "core (showLog E me l st) = core st"
  unfolding showLog_def by (rule core_fold_print) simp

lemma core_parts:
  "core st = core st' \<Longrightarrow> shClient st = shClient st' \<and> shThem st = shThem st' \<and> shLogs st = shLogs st' \<and> prompt st = prompt st'"
  by (simp add: core_def)

lemmas showLog_parts [simp] = core_parts [OF core_showLog, THEN conjunct1]
  core_parts [OF core_showLog, THEN conjunct2, THEN conjunct1]
  core_parts [OF core_showLog, THEN conjunct2, THEN conjunct2, THEN conjunct1]
  core_parts [OF core_showLog, THEN conjunct2, THEN conjunct2, THEN conjunct2]

lemma onEvent_keeps [simp]:
  "shClient (onEvent S F me ev st) = shClient st" "shThem (onEvent S F me ev st) = shThem st"
  "shLogs (onEvent S F me ev st) = shLogs st"
  by (cases ev; simp add: onEvent_def Let_def)+

lemma onEvent_prompt: "prompt (onEvent S F me ev st) \<in> {prompt st, promptFor me []}"
  by (cases ev) (simp_all add: onEvent_def Let_def)

lemma logEvent_keeps [simp]:
  "shClient (logEvent lock ev st) = shClient st" "shThem (logEvent lock ev st) = shThem st"
  "prompt (logEvent lock ev st) = prompt st"
  by (simp_all add: logEvent_def)

lemma logEvent_logs:
  "shLogs (logEvent lock ev st) s = shLogs st s @ (if lock = None \<and> registered ev \<and> streamOf ev = Some s then [ev] else [])"
  by (simp add: logEvent_def Update_def updateLogs_stream split: option.split)

lemma feed_keeps [simp]: "shClient (feed S F lock me k evs st) = shClient st" "shThem (feed S F lock me k evs st) = shThem st"
  by (induction evs arbitrary: k st) simp_all

lemma feed_prompt: "prompt (feed S F lock me k evs st) \<in> {prompt st, promptFor me []}"
proof (induction evs arbitrary: k st)
  case (Cons ev evs)
  from Cons.IH [of "Suc k" "onEvent S F me ev (logEvent (lock k) ev st)"] onEvent_prompt [of S F me ev "logEvent (lock k) ev st"]
  show ?case by auto
qed simp

lemma feed_logs_length: "length (shLogs (feed S F lock me k evs st) s) \<le> length (shLogs st s) + length evs"
proof (induction evs arbitrary: k st)
  case (Cons ev evs)
  show ?case using Cons.IH [of "Suc k" "onEvent S F me ev (logEvent (lock k) ev st)"] by (simp add: logEvent_logs split: if_splits)
qed simp

lemma feed_logs:
  assumes "\<And>k. lock k = None"
  shows "shLogs (feed S F lock me k evs st) s = shLogs st s @ filter (\<lambda>ev. registered ev \<and> streamOf ev = Some s) evs"
  by (induction evs arbitrary: k st) (simp_all add: assms logEvent_logs)

text \<open>
  The logs follow the client: they get the new events, each its own stream, when no update fails.
\<close>

definition tracks :: "shellIo \<Rightarrow> 's shell \<Rightarrow> 's shell \<Rightarrow> bool" where
  "tracks w st st' \<longleftrightarrow> (\<exists>evs. clEvents (shClient st') = clEvents (shClient st) @ evs
     \<and> (\<forall>s. length (shLogs st' s) \<le> length (shLogs st s) + length evs)
     \<and> ((\<forall>k. sUpdate w k = None) \<longrightarrow>
          (\<forall>s. shLogs st' s = shLogs st s @ filter (\<lambda>ev. registered ev \<and> streamOf ev = Some s) evs)))"

definition capped :: "'s shell \<Rightarrow> bool" where
  "capped st \<longleftrightarrow> (\<forall>s. length (shLogs st s) \<le> length (clEvents (shClient st)))"

lemma tracks_capped: "tracks w st st' \<Longrightarrow> capped st \<Longrightarrow> capped st'"
proof -
  assume t: "tracks w st st'" and c: "capped st"
  from t obtain evs where e: "clEvents (shClient st') = clEvents (shClient st) @ evs"
    and l: "\<And>s. length (shLogs st' s) \<le> length (shLogs st s) + length evs" unfolding tracks_def by blast
  have "length (shLogs st' s) \<le> length (clEvents (shClient st'))" for s
    using l [of s] c e by (auto simp: capped_def intro: order_trans)
  then show ?thesis by (simp add: capped_def)
qed

lemma tracks_core: "core st2 = core st1 \<Longrightarrow> tracks w st st2 = tracks w st st1"
  by (simp add: core_def tracks_def)

lemma tracks_refl [simp]: "tracks w st st"
  by (auto simp: tracks_def)

lemma operate_fst:
  assumes "operate E w me st (c, r) = (st', r')"
  shows "shClient st' = c" and "shThem st' = shThem st" and "r' = r" and "prompt st' \<in> {prompt st, promptFor me []}"
  using assms feed_prompt [of "kS E" "kF E" "sUpdate w" me 0 _ "st\<lparr>shClient := c\<rparr>"] by (auto simp: operate_def)

lemma operate_tracks:
  assumes "operate E w me st (c, r) = (st', r')" and "grows (shClient st) c"
  shows "tracks w st st'"
proof -
  from assms(2) obtain evs where e: "clEvents c = clEvents (shClient st) @ evs" by (auto simp: grows_def)
  with assms(1) have st': "st' = feed (kS E) (kF E) (sUpdate w) me 0 evs (st\<lparr>shClient := c\<rparr>)" by (simp add: operate_def)
  have "length (shLogs st' s) \<le> length (shLogs st s) + length evs" for s
    using feed_logs_length [of "kS E" "kF E" "sUpdate w" me 0 evs "st\<lparr>shClient := c\<rparr>" s] by (simp add: st')
  moreover have "\<forall>k. sUpdate w k = None \<Longrightarrow>
      shLogs st' s = shLogs st s @ filter (\<lambda>ev. registered ev \<and> streamOf ev = Some s) evs" for s
    using feed_logs [of "sUpdate w" "kS E" "kF E" me 0 evs "st\<lparr>shClient := c\<rparr>" s] by (simp add: st')
  ultimately show ?thesis using e unfolding tracks_def by (intro exI [of _ evs]) (simp add: st')
qed

section \<open>The machine of commands\<close>

datatype command =
    Nothing
  | ShowLog
  | ListSessions
  | Refuse
  | OpenChat bytes
  | CloseChat bytes
  | Leave
  | SaltyTo bytes bytes
  | NoPeer
  | Say bytes

text \<open>The command in a line, for a user \<open>me\<close> who talks to \<open>them\<close>.\<close>

definition parseLine :: "bytes \<Rightarrow> bytes \<Rightarrow> bytes \<Rightarrow> command" where
  "parseLine me them line =
     (let input = TrimSpace line; sp = Fields input in
      if input = [] then Nothing
      else if hasPrefix input (str ''/log'') then ShowLog
      else if hasPrefix input (str ''/chat'') then
        (if length sp \<le> 1 then ListSessions else if me = sp ! 1 then Refuse else OpenChat (sp ! 1))
      else if hasPrefix input (str ''/close'') then
        (let target = (if length sp > 1 then sp ! 1 else them) in if target = [] then Nothing else CloseChat target)
      else if hasPrefix input (str ''/quit'') then Leave
      else if hasPrefix input (str ''/salty'') then
        (case Cut (TrimPrefix input (str ''/salty '')) (str '' '') of (target, msg) \<Rightarrow> SaltyTo target msg)
      else if them = [] then NoPeer else Say input)"

text \<open>Only a panic ends the shell.\<close>

definition ended :: "err option \<Rightarrow> status" where
  "ended r = (case onlyPanic r of Some e \<Rightarrow> Crashed e | None \<Rightarrow> Reading)"

fun execute :: "'s linked \<Rightarrow> shellIo \<Rightarrow> command \<Rightarrow> 's client \<times> bytes \<Rightarrow> ('s client \<times> bytes) \<times> status" where
  "execute E w ListSessions (c, them) = ((c, them), ended (ioLock (sIo w)))"
| "execute E w (OpenChat n) (c, them) =
     (case clientChat (kM E) (kP E) (kL E) (sIo w) (sLate w) c n of (c, _, r) \<Rightarrow> ((c, n), ended r))"
| "execute E w (CloseChat n) (c, them) = (case clientClose (kM E) (sIo w) c n of (c, r) \<Rightarrow> ((c, []), ended r))"
| "execute E w Leave (c, them) = ((c, them), Stopped)"
| "execute E w (SaltyTo n msg) (c, them) =
     (case SendSalty (kM E) (kS E) (sIo w) c n msg [] of (c, r) \<Rightarrow> ((c, them), ended r))"
| "execute E w (Say msg) (c, them) =
     (case clientSend (kM E) (kP E) (kS E) (sIo w) c them msg [] of (c, r) \<Rightarrow> ((c, them), ended r))"
| "execute E w _ (c, them) = ((c, them), Reading)"

fun commandStep :: "'s linked \<Rightarrow> bytes \<Rightarrow> shellEvent \<Rightarrow> ('s client \<times> bytes) \<times> status \<Rightarrow> ('s client \<times> bytes) \<times> status" where
  "commandStep E me (Scanned w line) ((c, them), s) =
     (if s = Reading then execute E w (parseLine me them line) (c, them) else ((c, them), s))"
| "commandStep E me ScanEnded ((c, them), s) = ((c, them), if s = Reading then Detached else s)"
| "commandStep E me Cancelled ((c, them), s) = ((c, them), if s = Reading \<or> s = Detached then Stopped else s)"
| "commandStep E me (Delivered w pos payload) ((c, them), s) =
     (if s = Reading \<or> s = Detached then
        (case Input (kM E) (kP E) (kL E) (kS E) (sIo w) pos payload (sHandlers w) c of
           (c, Some e) \<Rightarrow> ((c, them), Crashed e) | (c, None) \<Rightarrow> ((c, them), s))
      else ((c, them), s))"

definition commands :: "'s linked \<Rightarrow> shellIo \<Rightarrow> bytes \<Rightarrow> bytes \<Rightarrow> shellEvent list \<Rightarrow> 's client \<Rightarrow> ('s client \<times> bytes) \<times> status" where
  "commands E w me them events c = fold (commandStep E me) events
     (if them = [] then ((c, []), Reading) else execute E w (parseLine me [] (str ''/chat '' @ them)) (c, []))"

definition view :: "'s shell \<times> status \<Rightarrow> ('s client \<times> bytes) \<times> status" where
  "view r = (case r of (st, s) \<Rightarrow> ((shClient st, shThem st), s))"

section \<open>A line\<close>

lemma logged_core: "logged F pre (st, r) = (st', s) \<Longrightarrow> core st' = core st \<and> s = ended r"
  by (cases r rule: onlyPanic.cases) (auto simp: ended_def)

lemma ended_onlyPanic [simp]: "ended (onlyPanic r) = ended r"
  by (cases r rule: onlyPanic.cases) (simp_all add: ended_def)

text \<open>The prompt names the current peer or nobody.\<close>

definition truthful :: "bytes \<Rightarrow> 's shell \<Rightarrow> bool" where
  "truthful me st \<longleftrightarrow> prompt st \<in> {promptFor me [], promptFor me (shThem st)}"

text \<open>A line of the shell does what its command does.\<close>

definition follows :: "'s linked \<Rightarrow> shellIo \<Rightarrow> bytes \<Rightarrow> command \<Rightarrow> 's shell \<Rightarrow> 's shell \<Rightarrow> status \<Rightarrow> bool" where
  "follows E w me cmd st st' s \<longleftrightarrow>
     ((shClient st', shThem st'), s) = execute E w cmd (shClient st, shThem st)
     \<and> tracks w st st'
     \<and> (truthful me st \<or> (\<exists>n. cmd = OpenChat n) \<longrightarrow> truthful me st')"

lemma truthful_core: "core st' = core st \<Longrightarrow> truthful me st' = truthful me st"
  by (simp add: core_def truthful_def)

lemma follows_core: "core st2 = core st1 \<Longrightarrow> follows E w me cmd st st2 s = follows E w me cmd st st1 s"
  using tracks_core [of st2 st1] truthful_core [of st2 st1 me] by (auto simp: follows_def dest: core_parts)

lemma follows_idle:
  assumes "core st' = core st" and "execute E w cmd (shClient st, shThem st) = ((shClient st, shThem st), s)"
    and "\<And>n. cmd \<noteq> OpenChat n"
  shows "follows E w me cmd st st' s"
  using assms by (simp add: follows_core [OF assms(1)]) (simp add: follows_def)

text \<open>An operation of the client after changes of the shell's own state.\<close>

lemma follows_operate:
  assumes "operate E w me st1 (c, r) = (st2, r2)" and "logged F pre (st2, r2) = (st', s)"
    and "shClient st1 = shClient st" and "shLogs st1 = shLogs st" and "grows (shClient st) c"
    and "execute E w cmd (shClient st, shThem st) = ((c, shThem st1), ended r)"
    and "truthful me st \<or> (\<exists>n. cmd = OpenChat n) \<Longrightarrow> truthful me st1"
  shows "follows E w me cmd st st' s"
proof -
  note o = operate_fst [OF assms(1)]
  have l: "core st' = core st2" "s = ended r" using logged_core [OF assms(2)] o(3) by simp_all
  have c: "tracks w st st2"
    using operate_tracks [OF assms(1)] assms(3-5) by (simp add: tracks_def)
  have "truthful me st1 \<Longrightarrow> truthful me st2" using o by (auto simp: truthful_def)
  then show ?thesis
    unfolding follows_core [OF l(1)] using assms(3,5,6,7) o l(2) c by (simp add: follows_def)
qed

lemma doLog_follows:
  assumes "ReadLog (kA E) (sRead w) (shLogs st) (logName (shThem st) input) (-1) (-20) = Inr evs"
    and "doLog E w me input st = (st', s)"
  shows "follows E w me ShowLog st st' s"
proof (rule follows_idle)
  show "core st' = core st" using assms by (auto simp: doLog_def Let_def)
qed (use assms in \<open>auto simp: doLog_def Let_def\<close>)

lemma listSessions_follows:
  assumes "logged F pre (listSessions E w st) = (st', s)"
  shows "follows E w me ListSessions st st' s"
proof -
  have f: "core (fold (\<lambda>(n, i). logLine (str ''sess: '' @ n)) l st) = core st" for l :: "(bytes \<times> bytes) list" and st :: "'a shell"
    by (rule core_fold_print) (simp split: prod.split)
  obtain st1 where l: "listSessions E w st = (st1, ioLock (sIo w))" and c: "core st1 = core st"
    by (cases "ioLock (sIo w)") (simp_all add: listSessions_def f)
  from logged_core [of F pre st1] assms l c show ?thesis by (intro follows_idle) auto
qed

lemma doChat_follows:
  assumes "ReadLog (kA E) (sRead w) (shLogs st) (str ''user:'' @ Fields input ! 1) (-1) (-20) = Inr evs"
    and "logged F pre (doChat E w me input st) = (st', s)"
    and "1 < length (Fields input)" and "me \<noteq> Fields input ! 1"
  shows "follows E w me (OpenChat (Fields input ! 1)) st st' s"
proof -
  let ?n = "Fields input ! 1"
  define st1 where "st1 = setPrompt me ?n (showLog E me evs (st\<lparr>shThem := ?n\<rparr>))"
  obtain c est r where ch: "clientChat (kM E) (kP E) (kL E) (sIo w) (sLate w) (shClient st) ?n = (c, est, r)"
    by (metis prod_cases3)
  obtain st2 r2 where o: "operate E w me st1 (c, onlyPanic r) = (st2, r2)" by fastforce
  have s1: "shClient st1 = shClient st" "shLogs st1 = shLogs st" "shThem st1 = ?n" "truthful me st1"
    by (simp_all add: st1_def truthful_def)
  have "doChat E w me input st = (st2, r2)"
    using assms(1,3,4) ch o s1 by (simp add: doChat_def Let_def st1_def)
  with assms(2) have "logged F pre (st2, r2) = (st', s)" by simp
  with o show ?thesis by (rule follows_operate) (use s1 ch clientChat_grows [OF ch] in simp_all)
qed

lemma doClose_follows:
  assumes "logged F pre (doClose E w me input st) = (st', s)"
    and "target = (if length (Fields input) > 1 then Fields input ! 1 else shThem st)" and "target \<noteq> []"
  shows "follows E w me (CloseChat target) st st' s"
proof -
  define st1 where "st1 = print (esc ''[1A'' @ [13] @ esc ''[2K'' @ str ''<'' @ me @ str ''> '' @ input @ newline)
    (setPrompt me [] (st\<lparr>shThem := []\<rparr>))"
  obtain c r where ch: "clientClose (kM E) (sIo w) (shClient st) target = (c, r)" by fastforce
  obtain st2 r2 where o: "operate E w me st1 (c, r) = (st2, r2)" by fastforce
  have s1: "shClient st1 = shClient st" "shLogs st1 = shLogs st" "shThem st1 = []" "truthful me st1"
    by (simp_all add: st1_def truthful_def)
  have "doClose E w me input st = (st2, r2)"
    using assms(2,3) ch o s1 by (simp add: doClose_def Let_def st1_def)
  with assms(1) have "logged F pre (st2, r2) = (st', s)" by simp
  with o show ?thesis by (rule follows_operate) (use s1 ch clientClose_grows [OF ch] in simp_all)
qed

lemma doSalty_follows:
  assumes "logged F pre (doSalty E w me input st) = (st', s)"
    and "Cut (TrimPrefix input (str ''/salty '')) (str '' '') = (target, msg)"
  shows "follows E w me (SaltyTo target msg) st st' s"
proof -
  obtain c r where ch: "SendSalty (kM E) (kS E) (sIo w) (shClient st) target msg [] = (c, r)" by fastforce
  obtain st2 r2 where o: "operate E w me st (c, r) = (st2, r2)" by fastforce
  with assms ch have "logged F pre (st2, r2) = (st', s)" by (simp add: doSalty_def)
  with o show ?thesis by (rule follows_operate) (use ch SendSalty_grows [OF ch] in simp_all)
qed

lemma doDefault_follows:
  assumes "logged F pre (doDefault E w me input st) = (st', s)"
  shows "follows E w me (Say input) st st' s"
proof -
  obtain c r where ch: "clientSend (kM E) (kP E) (kS E) (sIo w) (shClient st) (shThem st) input [] = (c, r)" by fastforce
  obtain st2 r2 where o: "operate E w me st (c, r) = (st2, r2)" by fastforce
  with assms ch have "logged F pre (st2, r2) = (st', s)" by (simp add: doDefault_def)
  with o show ?thesis by (rule follows_operate) (use ch clientSend_grows [OF ch] in simp_all)
qed

lemma handleLine_follows:
  assumes p: "pages (kA E)" and r: "sRead w = None" and c: "capped st" and n: "length (clEvents (shClient st)) < 2 ^ 63"
    and h: "handleLine E w me line st = (st', s)"
  shows "follows E w me (parseLine me (shThem st) line) st st' s"
proof -
  define input where "input = TrimSpace line"
  have rd: "\<exists>evs. ReadLog (kA E) (sRead w) (shLogs st) m (-1) (-20) = Inr evs" for m
    unfolding r using p by (rule ReadLog_total) (use c n in \<open>auto simp: capped_def intro: le_less_trans\<close>)
  note d = h [unfolded handleLine_def Let_def input_def [symmetric]]
  note q = parseLine_def [of me "shThem st" line, unfolded Let_def input_def [symmetric]]
  consider "input = []" | "input \<noteq> []" "hasPrefix input (str ''/log'')"
    | "input \<noteq> []" "\<not> hasPrefix input (str ''/log'')" "hasPrefix input (str ''/chat'')"
    | "input \<noteq> []" "\<not> hasPrefix input (str ''/log'')" "\<not> hasPrefix input (str ''/chat'')" "hasPrefix input (str ''/close'')"
    | "input \<noteq> []" "\<not> hasPrefix input (str ''/log'')" "\<not> hasPrefix input (str ''/chat'')" "\<not> hasPrefix input (str ''/close'')"
    by blast
  then show ?thesis
  proof cases
    case 1
    then show ?thesis using d q by (auto intro: follows_idle)
  next
    case 2
    then show ?thesis using d q rd doLog_follows [of E w st input _ me st' s] by fastforce
  next
    case 3
    then have l: "logged (kF E) ''ERR: '' (doChat E w me input st) = (st', s)" using d by simp
    consider "length (Fields input) \<le> 1" | "1 < length (Fields input)" "me = Fields input ! 1"
      | "1 < length (Fields input)" "me \<noteq> Fields input ! 1" by linarith
    then show ?thesis
    proof cases
      case 1
      then show ?thesis using l q 3 listSessions_follows [of "kF E" "''ERR: ''" E w st st' s me] by (simp add: doChat_def)
    next
      case 2
      then show ?thesis using l q 3 by (auto simp: doChat_def intro!: follows_idle)
    next
      case c3: 3
      then show ?thesis using l q 3 rd doChat_follows [OF _ l] by fastforce
    qed
  next
    case 4
    then have l: "logged (kF E) ''ERR: '' (doClose E w me input st) = (st', s)" using d by simp
    let ?t = "if length (Fields input) > 1 then Fields input ! 1 else shThem st"
    show ?thesis
    proof (cases "?t = []")
      case True
      then show ?thesis using l q 4 by (auto simp: doClose_def Let_def split: if_splits intro!: follows_idle)
    next
      case False
      then show ?thesis using q 4 doClose_follows [OF l refl False] by simp
    qed
  next
    case 5
    obtain t m where cut: "Cut (TrimPrefix input (str ''/salty '')) (str '' '') = (t, m)" by fastforce
    show ?thesis
    proof (cases "hasPrefix input (str ''/quit'') \<or> \<not> hasPrefix input (str ''/salty'') \<and> shThem st = []")
      case True
      then show ?thesis using d q 5 by (auto intro!: follows_idle split: if_splits)
    next
      case False
      then show ?thesis
        using d q 5 cut doSalty_follows [OF _ cut] doDefault_follows [of "kF E" "''''" E w me input st st' s]
        by (auto split: if_splits)
    qed
  qed
qed

section \<open>Runs\<close>

fun readable :: "shellEvent \<Rightarrow> bool" where
  "readable (Scanned w line) \<longleftrightarrow> sRead w = None"
| "readable _ \<longleftrightarrow> True"

fun updates :: "shellEvent \<Rightarrow> bool" where
  "updates (Scanned w line) \<longleftrightarrow> (\<forall>k. sUpdate w k = None)"
| "updates (Delivered w pos payload) \<longleftrightarrow> (\<forall>k. sUpdate w k = None)"
| "updates _ \<longleftrightarrow> True"

text \<open>The logs hold the events from number \<open>n\<close> on, each stream its own.\<close>

definition logsFrom :: "nat \<Rightarrow> 's shell \<Rightarrow> bool" where
  "logsFrom n st \<longleftrightarrow> n \<le> length (clEvents (shClient st))
     \<and> (\<forall>s. shLogs st s = filter (\<lambda>ev. registered ev \<and> streamOf ev = Some s) (drop n (clEvents (shClient st))))"

lemma tracks_logsFrom: "tracks w st st' \<Longrightarrow> \<forall>k. sUpdate w k = None \<Longrightarrow> logsFrom n st \<Longrightarrow> logsFrom n st'"
  by (auto simp: tracks_def logsFrom_def)

lemma logsFrom_core: "core st' = core st \<Longrightarrow> logsFrom n st' = logsFrom n st"
  by (simp add: core_def logsFrom_def)

lemma capped_core: "core st' = core st \<Longrightarrow> capped st' = capped st"
  by (simp add: core_def capped_def)

lemma ready_core: "ready (st, s) = (st', s') \<Longrightarrow> core st' = core st \<and> s' = s"
  by (auto simp: ready_def split: status.splits)

lemma view_core: "core st' = core st \<Longrightarrow> view (st', s) = view (st, s)"
  by (auto simp: view_def dest: core_parts)

lemma ready_follows:
  assumes "follows E w me cmd st0 st s" and "ready (st, s) = (st', s')"
  shows "follows E w me cmd st0 st' s'"
  using ready_core [OF assms(2)] assms(1) follows_core [of st' st] by metis

text \<open>What a step keeps, next to doing what its command does.\<close>

definition stepped :: "'s linked \<Rightarrow> bytes \<Rightarrow> shellEvent \<Rightarrow> 's shell \<Rightarrow> status \<Rightarrow> 's shell \<Rightarrow> status \<Rightarrow> bool" where
  "stepped E me ev st s st' s' \<longleftrightarrow> view (st', s') = commandStep E me ev (view (st, s)) \<and> capped st'
     \<and> (truthful me st \<longrightarrow> truthful me st') \<and> (\<forall>n. updates ev \<longrightarrow> logsFrom n st \<longrightarrow> logsFrom n st')"

lemma shellStep_stepped:
  assumes "pages (kA E)" and "readable ev" and "capped st" and "length (clEvents (shClient st)) < 2 ^ 63"
    and "shellStep E me ev (st, s) = (st', s')"
  shows "stepped E me ev st s st' s'"
proof (cases ev)
  case (Scanned w line)
  show ?thesis
  proof (cases "s = Reading")
    case True
    obtain st1 s1 where h: "handleLine E w me line st = (st1, s1)" by fastforce
    with assms(5) Scanned True have "ready (st1, s1) = (st', s')" by simp
    with handleLine_follows [OF assms(1) _ assms(3,4) h] assms(2) Scanned
    have f: "follows E w me (parseLine me (shThem st) line) st st' s'" by (auto intro: ready_follows)
    with True Scanned show ?thesis using assms(3)
      by (auto simp: stepped_def follows_def view_def intro: tracks_capped tracks_logsFrom)
  qed (use assms Scanned in \<open>auto simp: stepped_def view_def\<close>)
next
  case (Delivered w pos payload)
  show ?thesis
  proof (cases "s = Reading \<or> s = Detached")
    case True
    obtain c r where i: "Input (kM E) (kP E) (kL E) (kS E) (sIo w) pos payload (sHandlers w) (shClient st) = (c, r)" by fastforce
    obtain st1 r1 where o: "operate E w me st (c, r) = (st1, r1)" by fastforce
    note f = operate_fst [OF o]
    have t: "tracks w st st1" using o Input_grows [OF i] by (rule operate_tracks)
    have "st' = st1" "s' = (case r of Some e \<Rightarrow> Crashed e | None \<Rightarrow> s)"
      using assms(5) Delivered True i o f(3) by (auto simp: incoming_def split: option.splits)
    then show ?thesis
      using Delivered True i f t assms(3) tracks_capped [OF t] tracks_logsFrom [OF t]
      by (auto simp: stepped_def view_def truthful_def split: option.splits)
  qed (use assms Delivered in \<open>auto simp: stepped_def view_def\<close>)
qed (use assms in \<open>auto simp: stepped_def view_def\<close>)

lemma execute_grows: "grows c (fst (fst (execute E w cmd (c, them))))"
  by (cases cmd) (auto split: prod.split dest: clientChat_grows clientClose_grows clientSend_grows SendSalty_grows)

lemma commandStep_grows: "grows (fst (fst v)) (fst (fst (commandStep E me ev v)))"
proof -
  obtain c them s where v: "v = ((c, them), s)" by (metis surj_pair)
  show ?thesis unfolding v
    by (cases ev) (auto simp: execute_grows split: prod.split option.split dest: Input_grows)
qed

lemma commands_grow: "grows (fst (fst v)) (fst (fst (fold (commandStep E me) events v)))"
proof (induction events arbitrary: v)
  case (Cons ev events)
  from commandStep_grows Cons.IH [of "commandStep E me ev v"] show ?case unfolding fold.simps comp_def by (rule grows_trans)
qed simp

text \<open>
  The shell simulates the machine of commands, and keeps the prompt truthful and the logs complete.
\<close>

abbreviation few :: "('s client \<times> bytes) \<times> status \<Rightarrow> bool" where
  "few v \<equiv> length (clEvents (fst (fst v))) < 2 ^ 63"

lemma few_before: "few (commandStep E me ev v) \<Longrightarrow> few v"
  using grows_length [OF commandStep_grows [of v E me ev]] by simp

lemma step_sim:
  assumes "capped (fst u)" and "pages (kA E) \<and> readable ev" and "few (view u)"
  shows "stepped E me ev (fst u) (snd u) (fst (shellStep E me ev u)) (snd (shellStep E me ev u))"
  using shellStep_stepped [of E ev "fst u" me "snd u"] assms by (simp add: view_def split: prod.splits)

interpretation sh: simulation view "shellStep E me" "commandStep E me" "\<lambda>u. capped (fst u)"
  "\<lambda>ev. pages (kA E) \<and> readable ev" few
  by unfold_locales (use step_sim few_before in \<open>fastforce simp: stepped_def\<close>)+

interpretation prompts: simulation view "shellStep E me" "commandStep E me" "\<lambda>u. capped (fst u) \<and> truthful me (fst u)"
  "\<lambda>ev. pages (kA E) \<and> readable ev" few
  by unfold_locales (use step_sim few_before in \<open>fastforce simp: stepped_def\<close>)+

interpretation keeps_logs: simulation view "shellStep E me" "commandStep E me" "\<lambda>u. capped (fst u) \<and> logsFrom n (fst u)"
  "\<lambda>ev. (pages (kA E) \<and> readable ev) \<and> updates ev" few
  by unfold_locales (use step_sim few_before in \<open>fastforce simp: stepped_def\<close>)+

lemma svcNew_simps [simp]:
  "shClient (svcNew c) = c" "shLogs (svcNew c) = (\<lambda>_. [])" "shThem (svcNew c) = []"
  by (simp_all add: svcNew_def NewMemSession_def)

lemma Interactive_run:
  assumes "pages (kA E)" and "sRead w = None" and "\<forall>ev \<in> set events. readable ev"
    and "length (clEvents (fst (fst (commands E w me them events c)))) < 2 ^ 63"
    and "Interactive E w me them events c = (st, s)"
  shows "view (st, s) = commands E w me them events c"
    and "them = [] \<or> (\<exists>n. parseLine me [] (str ''/chat '' @ them) = OpenChat n) \<Longrightarrow> truthful me st"
    and "\<forall>k. sUpdate w k = None \<Longrightarrow> \<forall>ev \<in> set events. updates ev \<Longrightarrow> logsFrom (length (clEvents c)) st"
    and "capped st"
proof -
  let ?cmd = "parseLine me [] (str ''/chat '' @ them)"
  let ?s0 = "if them = [] then ((c, []), Reading) else execute E w ?cmd (c, [])"
  define st0 where "st0 = (if them = [] then (setPrompt me [] (svcNew c))\<lparr>shThem := []\<rparr>
    else logLine (str ''/chat '' @ them) ((setPrompt me them (svcNew c))\<lparr>shThem := []\<rparr>))"
  have st0: "shClient st0 = c" "shThem st0 = []" "capped st0" "logsFrom (length (clEvents c)) st0"
    by (simp_all add: st0_def capped_def logsFrom_def setPrompt_def)
  have len: "length (clEvents c) < 2 ^ 63"
    using assms(4) grows_length [OF commands_grow [of ?s0 E me events]] execute_grows [of c E w ?cmd "[]"] grows_length
    by (fastforce simp: commands_def split: if_splits)
  obtain st1 s1 where i: "startShell E w me them (svcNew c) = (st1, s1)" by fastforce
  have f: "view (st1, s1) = ?s0 \<and> tracks w st0 st1 \<and> (them = [] \<or> (\<exists>n. ?cmd = OpenChat n) \<longrightarrow> truthful me st1)"
  proof (cases "them = []")
    case True
    then have "ready (st0, Reading) = (st1, s1)" using i by (simp add: startShell_def st0_def)
    from ready_core [OF this] True st0 show ?thesis
      using tracks_core [of st1 st0] truthful_core [of st1 st0 me]
      by (auto simp: view_def truthful_def st0_def dest!: core_parts)
  next
    case False
    obtain st2 s2 where h: "handleLine E w me (str ''/chat '' @ them) st0 = (st2, s2)" by fastforce
    then have r: "ready (st2, s2) = (st1, s1)" using i False by (simp add: startShell_def st0_def Let_def)
    have "follows E w me (parseLine me (shThem st0) (str ''/chat '' @ them)) st0 st2 s2"
      using assms(1,2) st0(3) _ h by (rule handleLine_follows) (use st0(1) len in simp)
    from ready_follows [OF this r] False st0 show ?thesis by (auto simp: follows_def view_def)
  qed
  have run: "fold (shellStep E me) events (st1, s1) = (st, s)" using assms(5) i by (simp add: Interactive_def)
  have v: "view (st1, s1) = ?s0" using f by simp
  have c1: "capped st1" using f st0(3) tracks_capped by blast
  have few: "few (fold (commandStep E me) events (view (st1, s1)))" using assms(4) unfolding v commands_def .
  have al: "\<forall>ev \<in> set events. pages (kA E) \<and> readable ev" using assms(1,3) by simp
  have "view (st, s) = fold (commandStep E me) events (view (st1, s1)) \<and> capped st"
    using sh.runs [OF _ al few] c1 unfolding run by simp
  then show "view (st, s) = commands E w me them events c" "capped st" unfolding v commands_def by simp_all
  show "truthful me st" if "them = [] \<or> (\<exists>n. ?cmd = OpenChat n)"
  proof -
    have "capped (fst (st1, s1)) \<and> truthful me (fst (st1, s1))" using c1 f that by simp
    from prompts.runs [OF this al few] show ?thesis unfolding run by simp
  qed
  show "logsFrom (length (clEvents c)) st" if u: "\<forall>k. sUpdate w k = None" "\<forall>ev \<in> set events. updates ev"
  proof -
    have "capped (fst (st1, s1)) \<and> logsFrom (length (clEvents c)) (fst (st1, s1))"
      using c1 f tracks_logsFrom [OF _ u(1) st0(4)] by simp
    from keeps_logs.runs [OF this _ few] al u(2) show ?thesis unfolding run by simp
  qed
qed

section \<open>Concrete runs\<close>

definition demoFmt :: fmtLib where
  "demoFmt = \<lparr>zone = (\<lambda>_. 3600), stampSecs = (\<lambda>_. 0), literalText = Literal, userText = UserNick,
     textEvents = (\<lambda>_. []), errText = (\<lambda>_. str ''error''), addrText = User, sprint = (\<lambda>_. [])\<rparr>"

definition demoLinked :: "(DiskSessionManager \<times> disk) linked" where
  "demoLinked = \<lparr>kM = diskManager demoLibs, kP = demo, kL = demoLibs, kS = demoSalty, kF = demoFmt, kA = demoMath\<rparr>"

text \<open>The lock of the manager fails in this input, that of the logs does not.\<close>

definition demoShellIo :: shellIo where
  "demoShellIo = \<lparr>sIo = (demoWorld (\<lambda>_. 3) demoBobKey)\<lparr>ioLock := Some ErrContext\<rparr>, sLate = False, sUpdate = (\<lambda>_. None),
     sRead = None, sOrder = (\<lambda>l. l), sHandlers = [SaltPack, Ratchet, Other]\<rparr>"

definition demoEvents :: "shellEvent list" where
  "demoEvents = [Delivered demoShellIo 0 (str ''hello''), Scanned demoShellIo (str '' /log ''), ScanEnded]"

abbreviation demoUser :: "(DiskSessionManager \<times> disk) client" where
  "demoUser \<equiv> demoNode [97] demoAliceKey"

lemma demo_commands:
  "snd (commands demoLinked demoShellIo [97] [] demoEvents demoUser) = Detached"
  "clEvents (fst (fst (commands demoLinked demoShellIo [97] [] demoEvents demoUser))) = [OnReceived (str ''hello'')]"
  "clEvents (fst (fst (commands demoLinked demoShellIo [97] [98] [] demoUser))) = []"
  by code_simp+

lemma demo_shell:
  "pages (kA demoLinked)" "sRead demoShellIo = None" "\<forall>ev \<in> set demoEvents. readable ev" "\<forall>ev \<in> set demoEvents. updates ev"
  "\<forall>k. sUpdate demoShellIo k = None"
  by (simp_all add: demoLinked_def demoMath_pages demoShellIo_def demoEvents_def)

section \<open>Theorems\<close>

text \<open>
  C8: the interactive shell refines a machine that only knows commands: after any interleaving of lines and incoming messages the client, the current peer and whether the shell still runs are what the parsed commands make of them; the logs, the prompt and the screen have no influence on them, and reading a log never ends the shell.
\<close>

theorem shell_refines:
  assumes "pages (kA E)" and "sRead w = None" and "\<forall>ev \<in> set events. readable ev"
    and "length (clEvents (fst (fst (commands E w me them events c)))) < 2 ^ 63"
  shows "view (Interactive E w me them events c) = commands E w me them events c"
  using Interactive_run(1) [OF assms] by (metis surj_pair)

theorem shell_refines_witness:
  "snd (view (Interactive demoLinked demoShellIo [97] [] demoEvents demoUser)) = Detached
   \<and> clEvents (fst (fst (view (Interactive demoLinked demoShellIo [97] [] demoEvents demoUser)))) = [OnReceived (str ''hello'')]"
proof -
  have "length (clEvents (fst (fst (commands demoLinked demoShellIo [97] [] demoEvents demoUser)))) < 2 ^ 63"
    by (simp add: demo_commands)
  from shell_refines [OF demo_shell(1-3) this] show ?thesis by (simp add: demo_commands)
qed

text \<open>
  As long as no update of the logs fails, every log of the shell holds exactly the events of its own stream that the client has dispatched since the shell was made, in their order.
\<close>

theorem shell_logs:
  assumes "pages (kA E)" and "sRead w = None" and "\<forall>ev \<in> set events. readable ev"
    and "length (clEvents (fst (fst (commands E w me them events c)))) < 2 ^ 63"
    and "\<forall>k. sUpdate w k = None" and "\<forall>ev \<in> set events. updates ev"
    and "Interactive E w me them events c = (st, s)"
  shows "shLogs st name = filter (\<lambda>ev. registered ev \<and> streamOf ev = Some name)
    (drop (length (clEvents c)) (clEvents (shClient st)))"
  using Interactive_run(3) [OF assms(1-4,7,5,6)] by (simp add: logsFrom_def)

theorem shell_logs_witness:
  "\<exists>st s. Interactive demoLinked demoShellIo [97] [] demoEvents demoUser = (st, s) \<and> shLogs st (str ''system'') = []"
proof -
  have l: "length (clEvents (fst (fst (commands demoLinked demoShellIo [97] [] demoEvents demoUser)))) < 2 ^ 63"
    by (simp add: demo_commands)
  obtain st s where i: "Interactive demoLinked demoShellIo [97] [] demoEvents demoUser = (st, s)" by fastforce
  have "clEvents (shClient st) = [OnReceived (str ''hello'')]"
    using demo_commands(2) unfolding Interactive_run(1) [OF demo_shell(1-3) l i, symmetric] by (simp add: view_def)
  with shell_logs [OF demo_shell(1-3) l demo_shell(5,4) i, of "str ''system''"] i show ?thesis
    by (simp add: demoNode_def)
qed

lemma promptFor_inject:
  assumes "promptFor me a = promptFor me b"
  shows "a = b"
  using assms by (auto simp: promptFor_def str_def split: if_splits)

text \<open>
  C9: the prompt never lies about the receiver: whenever the prompt of the shell names a peer, a line that is not a command is sent to that peer, provided that a peer given at the start can be chatted with.
\<close>

theorem shell_prompt:
  assumes "pages (kA E)" and "sRead w = None" and "\<forall>ev \<in> set events. readable ev"
    and "length (clEvents (fst (fst (commands E w me them events c)))) < 2 ^ 63"
    and "them = [] \<or> (\<exists>n. parseLine me [] (str ''/chat '' @ them) = OpenChat n)"
    and "Interactive E w me them events c = (st, Reading)"
    and "prompt st = promptFor me peer" and "peer \<noteq> []"
    and "sRead w' = None" and "parseLine me peer line = Say msg"
  shows "shClient (fst (shellStep E me (Scanned w' line) (st, Reading))) =
    fst (clientSend (kM E) (kP E) (kS E) (sIo w') (shClient st) peer msg [])"
proof -
  have "truthful me st" by (rule Interactive_run(2) [OF assms(1-4,6,5)])
  with assms(7,8) have t: "shThem st = peer" by (auto simp: truthful_def dest!: promptFor_inject)
  have v: "view (st, Reading) = commands E w me them events c" by (rule Interactive_run(1) [OF assms(1-4,6)])
  have n: "length (clEvents (shClient st)) < 2 ^ 63" using assms(4) unfolding v [symmetric] by (simp add: view_def)
  obtain st1 s1 where h: "handleLine E w' me line st = (st1, s1)" by fastforce
  obtain st2 s2 where r: "ready (st1, s1) = (st2, s2)" by fastforce
  have "follows E w' me (parseLine me (shThem st) line) st st1 s1"
    using assms(1,9) _ n h by (rule handleLine_follows) (rule Interactive_run(4) [OF assms(1-4,6)])
  from ready_follows [OF this r] h r t assms(10) show ?thesis
    by (auto simp: follows_def split: prod.splits)
qed

theorem shell_prompt_witness:
  "\<exists>st. Interactive demoLinked demoShellIo [97] [98] [] demoUser = (st, Reading) \<and> prompt st = str ''[a -> b]> ''
   \<and> shClient (fst (shellStep demoLinked [97] (Scanned demoShellIo (str '' hi '')) (st, Reading))) =
       fst (clientSend (diskManager demoLibs) demo demoSalty (sIo demoShellIo) (shClient st) [98] (str ''hi'') [])"
proof -
  have l: "length (clEvents (fst (fst (commands demoLinked demoShellIo [97] [98] [] demoUser)))) < 2 ^ 63"
    by (simp add: demo_commands)
  obtain st s where i: "Interactive demoLinked demoShellIo [97] [98] [] demoUser = (st, s)" by fastforce
  have "prompt (fst (Interactive demoLinked demoShellIo [97] [98] [] demoUser)) = promptFor [97] [98]"
    "snd (Interactive demoLinked demoShellIo [97] [98] [] demoUser) = Reading"
    "parseLine [97] [] (str ''/chat '' @ [98]) = OpenChat [98]"
    "parseLine [97] [98] (str '' hi '') = Say (str ''hi'')" "promptFor [97] [98] = str ''[a -> b]> ''"
    by code_simp+
  with i have p: "prompt st = promptFor [97] [98]" "s = Reading" "\<exists>n. parseLine [97] [] (str ''/chat '' @ [98]) = OpenChat n"
    "parseLine [97] [98] (str '' hi '') = Say (str ''hi'')" "promptFor [97] [98] = str ''[a -> b]> ''" by auto
  show ?thesis
    using shell_prompt [OF demo_shell(1,2) _ l disjI2 [OF p(3)] i [unfolded p(2)] p(1) _ demo_shell(2) p(4)] i p
    by (auto simp: demoLinked_def)
qed

end
