(* ===== verification/Ui.thy ===== *)
theory Ui
  imports ShellRuns
begin

text \<open>
  The full screen interface (\<open>src/ui/chat.go\<close>): its model, the handlers of the events of the client,
  what the key \<open>Enter\<close> does with the text of the input field, and the frame that is drawn around the
  widgets. The widgets of the packages \<open>bubbles\<close> and \<open>lipgloss\<close> are parameters: the text of the
  input field and the heights of the frame are part of the input of an update.
\<close>

section \<open>The model\<close>

text \<open>
  \<open>uContent\<close> is the shared builder of the lines, \<open>uShown\<close> what the viewport was given of it.
\<close>

record 's model =
  uClient :: "'s client"
  uThem :: bytes
  uContent :: bytes
  uReady :: bool
  uShown :: bytes
  uWidth :: int
  uHeight :: int
  uInputWidth :: int
  uPrompt :: bytes

definition uiMe :: "'s linked \<Rightarrow> 's model \<Rightarrow> bytes" where
  "uiMe E m = addrText (kF E) (clAddr (uClient m))"

definition uiSetPrompt :: "'s linked \<Rightarrow> 's model \<Rightarrow> 's model" where
  "uiSetPrompt E m = m\<lparr>uPrompt := (if uThem m = [] then uiMe E m @ str ''> '' else uiMe E m @ str '' -> '' @ uThem m @ str ''> '')\<rparr>"

definition InitialModel :: "'s linked \<Rightarrow> 's client \<Rightarrow> bytes \<Rightarrow> 's model" where
  "InitialModel E c them = uiSetPrompt E \<lparr>uClient = c, uThem = them, uContent = [], uReady = False, uShown = [],
     uWidth = 0, uHeight = 0, uInputWidth = 20, uPrompt = str ''foo? ''\<rparr>"

section \<open>Updates\<close>

definition uiPut :: "bytes \<Rightarrow> 's model \<Rightarrow> 's model" where
  "uiPut b m = m\<lparr>uContent := uContent m @ b @ newline\<rparr>"

text \<open>
  The handlers work on a copy of the model: of what they change only the builder is shared.
\<close>

definition uiEvent :: "'s linked \<Rightarrow> event \<Rightarrow> 's model \<Rightarrow> 's model" where
  "uiEvent E ev m = (case style ev of None \<Rightarrow> m | Some _ \<Rightarrow> uiPut (uiFormatMsg (kS E) (kF E) (uiMe E m) ev) m)"

definition uiOperate :: "'s linked \<Rightarrow> 's model \<Rightarrow> 's client \<times> err option \<Rightarrow> 's model \<times> err option" where
  "uiOperate E m cr = (case cr of (c, r) \<Rightarrow>
     (fold (uiEvent E) (drop (length (clEvents (uClient m))) (clEvents c)) (m\<lparr>uClient := c\<rparr>), r))"

text \<open>An error of a command is written after \<open>pre\<close>, or dropped; a panic ends the program.\<close>

definition uiLogged :: "fmtLib \<Rightarrow> string option \<Rightarrow> 's model \<times> err option \<Rightarrow> 's model \<times> status" where
  "uiLogged F pre mr = (case mr of (m, r) \<Rightarrow>
     (case r of None \<Rightarrow> m | Some e \<Rightarrow>
        (case onlyPanic r of Some _ \<Rightarrow> m | None \<Rightarrow>
           (case pre of None \<Rightarrow> m | Some p \<Rightarrow> uiPut (str p @ errText F e) m)),
      ended r))"

definition uiChat :: "'s linked \<Rightarrow> shellIo \<Rightarrow> bytes \<Rightarrow> 's model \<Rightarrow> 's model \<times> err option" where
  "uiChat E w input m =
     (let sp = Fields input in
      if length sp \<le> 1 then
        (case ioLock (sIo w) of Some e \<Rightarrow> (m, Some e)
         | None \<Rightarrow> (fold (\<lambda>(n, i). uiPut (str ''sess:  '' @ n)) (mSessions (kM E) (sOrder w) (clManager (uClient m)))
             (uiPut (str ''usage: /chat|close username'') m), None))
      else
        (let m = (if uiMe E m = sp ! 1 then uiPut (str ''ERR: cant racthet with self'') m else m);
             m = uiSetPrompt E (m\<lparr>uThem := sp ! 1\<rparr>)
         in case clientChat (kM E) (kP E) (kL E) (sIo w) (sLate w) (uClient m) (uThem m) of
              (c, _, r) \<Rightarrow> uiOperate E m (c, r)))"

definition uiClose :: "'s linked \<Rightarrow> shellIo \<Rightarrow> bytes \<Rightarrow> 's model \<Rightarrow> 's model \<times> err option" where
  "uiClose E w input m =
     (let sp = Fields input;
          target = (if length sp > 1 then sp ! 1 else uThem m)
      in if target = [] then (m, None)
         else let m = uiSetPrompt E (m\<lparr>uThem := []\<rparr>)
              in uiOperate E m (clientClose (kM E) (sIo w) (uClient m) target))"

definition uiSalty :: "'s linked \<Rightarrow> shellIo \<Rightarrow> bytes \<Rightarrow> 's model \<Rightarrow> 's model \<times> err option" where
  "uiSalty E w input m =
     (let (target, msg) = Cut (TrimPrefix input (str ''/salty '')) (str '' '')
      in uiOperate E m (SendSalty (kM E) (kS E) (sIo w) (uClient m) target msg []))"

definition uiEnter :: "'s linked \<Rightarrow> shellIo \<Rightarrow> bytes \<Rightarrow> 's model \<Rightarrow> 's model \<times> status" where
  "uiEnter E w input m =
     (if input = [] then (m, Reading)
      else if hasPrefix input (str ''/chat'') then uiLogged (kF E) (Some ''ERR: '') (uiChat E w input m)
      else if hasPrefix input (str ''/close'') then uiLogged (kF E) (Some ''ERR: '') (uiClose E w input m)
      else if hasPrefix input (str ''/salty'') then uiLogged (kF E) (Some ''ERR:  '') (uiSalty E w input m)
      else if hasPrefix input (str ''/quit'') then (m, Stopped)
      else if uThem m = [] then (uiPut (str ''usage: /chat username'') m, Reading)
      else uiLogged (kF E) None
        (uiOperate E m (clientSend (kM E) (kP E) (kS E) (sIo w) (uClient m) (uThem m) input [])))"

text \<open>The messages of the program; \<open>margin\<close> is the height of the frame.\<close>

datatype teaMsg =
    KeyQuit
  | KeyEnter shellIo bytes
  | WindowSize int int int
  | OtherInput

definition resized :: "int \<Rightarrow> int \<Rightarrow> int \<Rightarrow> 's model \<Rightarrow> 's model" where
  "resized width height margin m =
     (if \<not> uReady m then
        m\<lparr>uInputWidth := width, uWidth := width, uHeight := height - margin, uShown := uContent m, uReady := True\<rparr>
      else m\<lparr>uWidth := width, uHeight := height - margin\<rparr>)"

text \<open>Every update that does not quit hands the content to the viewport.\<close>

definition shown :: "'s model \<times> status \<Rightarrow> 's model \<times> status" where
  "shown r = (case r of (m, Reading) \<Rightarrow> (m\<lparr>uShown := uContent m\<rparr>, Reading) | _ \<Rightarrow> r)"

fun uiUpdate :: "'s linked \<Rightarrow> teaMsg \<Rightarrow> 's model \<Rightarrow> 's model \<times> status" where
  "uiUpdate E KeyQuit m = (m, Stopped)"
| "uiUpdate E (KeyEnter w input) m = shown (uiEnter E w input m)"
| "uiUpdate E (WindowSize width height margin) m = shown (resized width height margin m, Reading)"
| "uiUpdate E OtherInput m = shown (m, Reading)"

section \<open>The frame\<close>

definition goMax :: "int \<Rightarrow> int \<Rightarrow> int" where
  "goMax a b = (if a > b then a else b)"

text \<open>\<open>strings.Repeat\<close>, which panics on a negative count.\<close>

definition Repeat :: "bytes \<Rightarrow> int \<Rightarrow> bytes result" where
  "Repeat s n = (if n < 0 then Inl (Panic ''strings: negative Repeat count'') else Inr (concat (replicate (nat n) s)))"

text \<open>The packages that draw: a rendered title, its width, and placing texts next to each other.\<close>

record drawLib =
  renderedTitle :: bytes
  titleWidth :: int
  joinHorizontal :: "bytes list \<Rightarrow> bytes"
  viewportView :: "int \<Rightarrow> int \<Rightarrow> bytes \<Rightarrow> bytes"
  inputView :: "int \<Rightarrow> bytes \<Rightarrow> bytes"

definition dash :: bytes where
  "dash = [0xE2, 0x94, 0x80]"

definition headerView :: "drawLib \<Rightarrow> 's model \<Rightarrow> bytes result" where
  "headerView D m = (case Repeat dash (goMax 0 (uWidth m - titleWidth D)) of Inl e \<Rightarrow> Inl e
     | Inr line \<Rightarrow> Inr (joinHorizontal D [renderedTitle D, line]))"

definition footerView :: "drawLib \<Rightarrow> 's model \<Rightarrow> bytes result" where
  "footerView D m = (case Repeat dash (goMax 0 (uWidth m)) of Inl e \<Rightarrow> Inl e
     | Inr line \<Rightarrow> Inr (joinHorizontal D [line]))"

definition View :: "drawLib \<Rightarrow> 's model \<Rightarrow> bytes result" where
  "View D m =
     (if \<not> uReady m then Inr (newline @ str ''  Initializing...'')
      else case headerView D m of Inl e \<Rightarrow> Inl e
        | Inr h \<Rightarrow> (case footerView D m of Inl e \<Rightarrow> Inl e
            | Inr f \<Rightarrow> Inr (h @ newline @ viewportView D (uWidth m) (uHeight m) (uShown m) @ newline @ f @ newline
                @ inputView D (uInputWidth m) (uPrompt m))))"

section \<open>Runs\<close>

text \<open>An update of the program, or a message from the bus.\<close>

datatype uiInput = Tea teaMsg | Arrived shellIo int bytes

fun uiStep :: "'s linked \<Rightarrow> uiInput \<Rightarrow> 's model \<times> status \<Rightarrow> 's model \<times> status" where
  "uiStep E (Tea msg) (m, s) = (if s = Reading then uiUpdate E msg m else (m, s))"
| "uiStep E (Arrived w pos payload) (m, s) =
     (if s = Reading then
        (case uiOperate E m (Input (kM E) (kP E) (kL E) (kS E) (sIo w) pos payload (sHandlers w) (uClient m)) of
           (m, Some e) \<Rightarrow> (m, Crashed e) | (m, None) \<Rightarrow> (m, s))
      else (m, s))"

definition uiRun :: "'s linked \<Rightarrow> bytes \<Rightarrow> uiInput list \<Rightarrow> 's client \<Rightarrow> 's model \<times> status" where
  "uiRun E them inputs c = fold (uiStep E) inputs (InitialModel E c them, Reading)"

section \<open>The same machine of commands\<close>

text \<open>
  The commands of the interface differ from those of the shell: the text is not trimmed, there is no
  log, and a chat with oneself is only complained about.
\<close>

definition uiParse :: "bytes \<Rightarrow> bytes \<Rightarrow> command" where
  "uiParse them input =
     (let sp = Fields input in
      if input = [] then Nothing
      else if hasPrefix input (str ''/chat'') then (if length sp \<le> 1 then ListSessions else OpenChat (sp ! 1))
      else if hasPrefix input (str ''/close'') then
        (let target = (if length sp > 1 then sp ! 1 else them) in if target = [] then Nothing else CloseChat target)
      else if hasPrefix input (str ''/salty'') then
        (case Cut (TrimPrefix input (str ''/salty '')) (str '' '') of (target, msg) \<Rightarrow> SaltyTo target msg)
      else if hasPrefix input (str ''/quit'') then Leave
      else if them = [] then NoPeer else Say input)"

fun uiCommandStep :: "'s linked \<Rightarrow> uiInput \<Rightarrow> ('s client \<times> bytes) \<times> status \<Rightarrow> ('s client \<times> bytes) \<times> status" where
  "uiCommandStep E (Tea (KeyEnter w input)) ((c, them), s) =
     (if s = Reading then execute E w (uiParse them input) (c, them) else ((c, them), s))"
| "uiCommandStep E (Tea KeyQuit) ((c, them), s) = ((c, them), if s = Reading then Stopped else s)"
| "uiCommandStep E (Tea _) ((c, them), s) = ((c, them), s)"
| "uiCommandStep E (Arrived w pos payload) ((c, them), s) =
     (if s = Reading then
        (case Input (kM E) (kP E) (kL E) (kS E) (sIo w) pos payload (sHandlers w) c of
           (c, Some e) \<Rightarrow> ((c, them), Crashed e) | (c, None) \<Rightarrow> ((c, them), s))
      else ((c, them), s))"

text \<open>What of the model does not depend on the screen.\<close>

definition uiCore :: "'s model \<Rightarrow> 's client \<times> bytes \<times> bytes" where
  "uiCore m = (uClient m, uThem m, uPrompt m)"

lemma uiPut_core [simp]: "uiCore (uiPut b m) = uiCore m"
  by (simp add: uiCore_def uiPut_def)

lemma uiEvent_core [simp]: "uiCore (uiEvent E ev m) = uiCore m"
  by (simp add: uiEvent_def split: option.split)

lemma uiFold_core: "(\<And>x m. uiCore (f x m) = uiCore m) \<Longrightarrow> uiCore (fold f xs m) = uiCore m"
  by (induction xs arbitrary: m) simp_all

text \<open>The prompt names exactly the current peer.\<close>

definition uiTruthful :: "'s linked \<Rightarrow> 's model \<Rightarrow> bool" where
  "uiTruthful E m \<longleftrightarrow> uPrompt m = uPrompt (uiSetPrompt E m)"

definition uiFollows :: "'s linked \<Rightarrow> shellIo \<Rightarrow> command \<Rightarrow> 's model \<Rightarrow> 's model \<Rightarrow> status \<Rightarrow> bool" where
  "uiFollows E w cmd m m' s \<longleftrightarrow> ((uClient m', uThem m'), s) = execute E w cmd (uClient m, uThem m)
     \<and> (uiTruthful E m \<longrightarrow> uiTruthful E m')"

lemma uiTruthful_core: "uiCore m' = uiCore m \<Longrightarrow> uiTruthful E m' = uiTruthful E m"
  by (simp add: uiCore_def uiTruthful_def uiSetPrompt_def uiMe_def)

lemma uiFollows_core: "uiCore m2 = uiCore m1 \<Longrightarrow> uiFollows E w cmd m m2 s = uiFollows E w cmd m m1 s"
  using uiTruthful_core [of m2 m1 E] by (simp add: uiCore_def uiFollows_def)

lemma uiOperate_core:
  assumes "uiOperate E m (c, r) = (m', r')"
  shows "uiCore m' = (c, uThem m, uPrompt m)" and "r' = r"
proof -
  have "uiCore (fold (uiEvent E) evs (m\<lparr>uClient := c\<rparr>)) = (c, uThem m, uPrompt m)" for evs
  proof -
    have "uiCore (fold (uiEvent E) evs (m\<lparr>uClient := c\<rparr>)) = uiCore (m\<lparr>uClient := c\<rparr>)"
      by (rule uiFold_core) (rule uiEvent_core)
    then show ?thesis by (simp add: uiCore_def)
  qed
  with assms show "uiCore m' = (c, uThem m, uPrompt m)" "r' = r" by (auto simp: uiOperate_def)
qed

lemma uiLogged_core:
  assumes "uiLogged F pre (m, r) = (m', s)"
  shows "uiCore m' = uiCore m" and "s = ended r"
  using assms by (auto simp: uiLogged_def split: option.splits)

lemma uiFollows_idle:
  assumes "uiCore m' = uiCore m" and "execute E w cmd (uClient m, uThem m) = ((uClient m, uThem m), s)"
  shows "uiFollows E w cmd m m' s"
  using assms by (simp add: uiFollows_core [OF assms(1)]) (simp add: uiFollows_def)

lemma uiFollows_operate:
  assumes "uiLogged F pre (uiOperate E m1 (c, r)) = (m', s)" and "uClient m1 = uClient m" and "grows (uClient m) c"
    and "execute E w cmd (uClient m, uThem m) = ((c, uThem m1), ended r)"
    and "uiTruthful E m \<Longrightarrow> uiTruthful E m1"
  shows "uiFollows E w cmd m m' s"
proof -
  obtain m2 r2 where o: "uiOperate E m1 (c, r) = (m2, r2)" by fastforce
  note oc = uiOperate_core [OF o] and lc = uiLogged_core [OF assms(1) [unfolded o]]
  have "uiTruthful E m1 \<Longrightarrow> uiTruthful E m2" using oc(1) assms(2,3)
    by (auto simp: uiTruthful_def uiSetPrompt_def uiMe_def uiCore_def grows_def)
  then show ?thesis unfolding uiFollows_core [OF lc(1)]
    using oc lc(2) assms(4,5) by (auto simp: uiFollows_def uiCore_def)
qed

lemma uiSetPrompt_simps [simp]:
  "uClient (uiSetPrompt E m) = uClient m" "uThem (uiSetPrompt E m) = uThem m" "uiTruthful E (uiSetPrompt E m)"
  by (simp_all add: uiTruthful_def uiSetPrompt_def uiMe_def)

lemma uiPut_simps [simp]: "uClient (uiPut b m) = uClient m" "uThem (uiPut b m) = uThem m"
  by (simp_all add: uiPut_def)

lemma uiChat_follows:
  assumes "uiLogged F pre (uiChat E w input m) = (m', s)"
  shows "uiFollows E w (if length (Fields input) \<le> 1 then ListSessions else OpenChat (Fields input ! 1)) m m' s"
proof (cases "length (Fields input) \<le> 1")
  case True
  have f: "uiCore (fold (\<lambda>(n, i). uiPut (str ''sess:  '' @ n)) l m) = uiCore m" for l :: "(bytes \<times> bytes) list" and m :: "'a model"
    by (rule uiFold_core) (simp split: prod.split)
  obtain m1 where l: "uiChat E w input m = (m1, ioLock (sIo w))" and c: "uiCore m1 = uiCore m"
    using True by (cases "ioLock (sIo w)") (simp_all add: uiChat_def f)
  have "uiCore m' = uiCore m1" "s = ended (ioLock (sIo w))" using uiLogged_core [OF assms [unfolded l]] by simp_all
  with c True show ?thesis by (auto intro!: uiFollows_idle)
next
  case False
  let ?n = "Fields input ! 1"
  define m1 where "m1 = uiSetPrompt E ((if uiMe E m = ?n then uiPut (str ''ERR: cant racthet with self'') m else m)\<lparr>uThem := ?n\<rparr>)"
  have s1: "uClient m1 = uClient m" "uThem m1 = ?n" "uiTruthful E m1" by (simp_all add: m1_def)
  obtain c est r where ch: "clientChat (kM E) (kP E) (kL E) (sIo w) (sLate w) (uClient m) ?n = (c, est, r)"
    by (metis prod_cases3)
  have "uiChat E w input m = uiOperate E m1 (c, r)"
    using False ch s1 by (simp add: uiChat_def Let_def m1_def)
  with assms have "uiLogged F pre (uiOperate E m1 (c, r)) = (m', s)" by simp
  then show ?thesis by (rule uiFollows_operate) (use False s1 ch clientChat_grows [OF ch] in simp_all)
qed

lemma uiClose_follows:
  assumes "uiLogged F pre (uiClose E w input m) = (m', s)"
    and "target = (if length (Fields input) > 1 then Fields input ! 1 else uThem m)"
  shows "uiFollows E w (if target = [] then Nothing else CloseChat target) m m' s"
proof (cases "target = []")
  case True
  with assms show ?thesis using uiLogged_core [of F pre m None] by (auto simp: uiClose_def Let_def ended_def intro!: uiFollows_idle)
next
  case False
  define m1 where "m1 = uiSetPrompt E (m\<lparr>uThem := []\<rparr>)"
  have s1: "uClient m1 = uClient m" "uThem m1 = []" "uiTruthful E m1" by (simp_all add: m1_def)
  obtain c r where ch: "clientClose (kM E) (sIo w) (uClient m) target = (c, r)" by fastforce
  have "uiClose E w input m = uiOperate E m1 (c, r)"
    using False assms(2) ch s1 by (simp add: uiClose_def Let_def flip: m1_def)
  with assms(1) have "uiLogged F pre (uiOperate E m1 (c, r)) = (m', s)" by simp
  then show ?thesis by (rule uiFollows_operate) (use False s1 ch clientClose_grows [OF ch] in simp_all)
qed

lemma uiSalty_follows:
  assumes "uiLogged F pre (uiSalty E w input m) = (m', s)"
    and "Cut (TrimPrefix input (str ''/salty '')) (str '' '') = (target, msg)"
  shows "uiFollows E w (SaltyTo target msg) m m' s"
proof -
  obtain c r where ch: "SendSalty (kM E) (kS E) (sIo w) (uClient m) target msg [] = (c, r)" by fastforce
  with assms have "uiLogged F pre (uiOperate E m (c, r)) = (m', s)" by (simp add: uiSalty_def)
  then show ?thesis by (rule uiFollows_operate) (use ch SendSalty_grows [OF ch] in simp_all)
qed

lemma uiSend_follows:
  assumes "uiLogged F pre (uiOperate E m (clientSend (kM E) (kP E) (kS E) (sIo w) (uClient m) (uThem m) input [])) = (m', s)"
  shows "uiFollows E w (Say input) m m' s"
proof -
  obtain c r where ch: "clientSend (kM E) (kP E) (kS E) (sIo w) (uClient m) (uThem m) input [] = (c, r)" by fastforce
  with assms have "uiLogged F pre (uiOperate E m (c, r)) = (m', s)" by simp
  then show ?thesis by (rule uiFollows_operate) (use ch clientSend_grows [OF ch] in simp_all)
qed

lemma uiEnter_follows:
  assumes "uiEnter E w input m = (m', s)"
  shows "uiFollows E w (uiParse (uThem m) input) m m' s"
proof -
  obtain t msg where cut: "Cut (TrimPrefix input (str ''/salty '')) (str '' '') = (t, msg)" by fastforce
  note q = uiParse_def [of "uThem m" input, unfolded Let_def]
  consider "input = []" | "input \<noteq> []" "hasPrefix input (str ''/chat'')"
    | "input \<noteq> []" "\<not> hasPrefix input (str ''/chat'')" "hasPrefix input (str ''/close'')"
    | "input \<noteq> []" "\<not> hasPrefix input (str ''/chat'')" "\<not> hasPrefix input (str ''/close'')"
    by blast
  then show ?thesis
  proof cases
    case 1
    then show ?thesis using assms q by (auto simp: uiEnter_def intro: uiFollows_idle)
  next
    case 2
    then show ?thesis using assms q uiChat_follows [of "kF E" _ E w input m m' s] by (auto simp: uiEnter_def)
  next
    case 3
    then show ?thesis using assms q uiClose_follows [OF _ refl, of "kF E" _ E w input m m' s] by (simp add: uiEnter_def)
  next
    case 4
    then show ?thesis using assms q cut uiSalty_follows [OF _ cut] uiSend_follows
      by (auto simp: uiEnter_def split: if_splits intro: uiFollows_idle)
  qed
qed

definition uiView :: "'s model \<times> status \<Rightarrow> ('s client \<times> bytes) \<times> status" where
  "uiView r = (case r of (m, s) \<Rightarrow> ((uClient m, uThem m), s))"

lemma shown_core: "shown (m, s) = (m', s') \<Longrightarrow> uiCore m' = uiCore m \<and> s' = s"
  by (auto simp: shown_def uiCore_def split: status.splits)

lemma uiStep_follows:
  assumes "uiStep E i (m, s) = (m', s')"
  shows "uiView (m', s') = uiCommandStep E i (uiView (m, s)) \<and> (uiTruthful E m \<longrightarrow> uiTruthful E m')"
proof (cases "s = Reading")
  case True
  show ?thesis
  proof (cases i)
    case (Arrived w pos payload)
    obtain c r where i: "Input (kM E) (kP E) (kL E) (kS E) (sIo w) pos payload (sHandlers w) (uClient m) = (c, r)" by fastforce
    obtain m1 r1 where o: "uiOperate E m (c, r) = (m1, r1)" by fastforce
    note oc = uiOperate_core [OF o]
    have "uiTruthful E m \<Longrightarrow> uiTruthful E m1" using oc(1) Input_grows [OF i]
      by (auto simp: uiTruthful_def uiSetPrompt_def uiMe_def uiCore_def grows_def)
    then show ?thesis using assms True Arrived i o oc by (auto simp: uiView_def uiCore_def split: option.splits)
  next
    case (Tea msg)
    then have u: "uiUpdate E msg m = (m', s')" using assms True by simp
    show ?thesis
    proof (cases msg)
      case (KeyEnter w input)
      obtain m1 s1 where e: "uiEnter E w input m = (m1, s1)" by fastforce
      then have sh: "shown (m1, s1) = (m', s')" using u KeyEnter by simp
      have "uiFollows E w (uiParse (uThem m) input) m m' s'"
        using uiEnter_follows [OF e] shown_core [OF sh] uiFollows_core [of m' m1] by metis
      then show ?thesis using Tea KeyEnter True by (simp add: uiFollows_def uiView_def)
    next
      case (WindowSize width height margin)
      have "uiCore (resized width height margin m) = uiCore m" by (simp add: resized_def uiCore_def)
      with u WindowSize have "uiCore m' = uiCore m" "s' = s" using True by (auto dest!: shown_core)
      then show ?thesis using Tea WindowSize True uiTruthful_core [of m' m E] by (auto simp: uiView_def uiCore_def)
    next
      case OtherInput
      with u have "uiCore m' = uiCore m" "s' = s" using True by (auto dest!: shown_core)
      then show ?thesis using Tea OtherInput True uiTruthful_core [of m' m E] by (auto simp: uiView_def uiCore_def)
    qed (use u Tea True in \<open>auto simp: uiView_def\<close>)
  qed
next
  case False
  then have "m' = m" "s' = s" using assms by (cases i; simp)+
  moreover have "uiCommandStep E i (uiView (m, s)) = uiView (m, s)"
    using False by (cases "(E, i, uiView (m, s))" rule: uiCommandStep.cases) (auto simp: uiView_def)
  ultimately show ?thesis by simp
qed

interpretation ui: simulation uiView "uiStep E" "uiCommandStep E" "\<lambda>u. uiTruthful E (fst u)" "\<lambda>_. True" "\<lambda>_. True"
  by unfold_locales (metis prod.collapse uiStep_follows, simp)

lemma View_draws: "\<exists>b. View D m = Inr b"
  by (auto simp: View_def headerView_def footerView_def Repeat_def goMax_def split: sum.splits if_splits)

text \<open>
  C10: the full screen interface refines the same machine of commands as the shell: after any sequence of keys, other messages of the terminal and incoming messages, the client, the current peer and whether the program still runs are what the commands make of them; the prompt always names exactly the current peer, and drawing the screen never panics, whatever the size of the window.
\<close>

theorem ui_refines:
  "uiView (uiRun E them inputs c) = fold (uiCommandStep E) inputs ((c, them), Reading)
   \<and> (let m = fst (uiRun E them inputs c); self = addrText (kF E) (clAddr (uClient m)) in
       uPrompt m = (if uThem m = [] then self @ str ''> '' else self @ str '' -> '' @ uThem m @ str ''> '')
       \<and> (\<forall>D. \<not> isPanic (View D m)))"
proof -
  obtain m s where r: "uiRun E them inputs c = (m, s)" by fastforce
  have i: "uiView (InitialModel E c them, Reading) = ((c, them), Reading)" "uiTruthful E (InitialModel E c them)"
    by (simp_all add: InitialModel_def uiView_def)
  from ui.runs [of E "(InitialModel E c them, Reading)" inputs] r i
  have f: "uiView (m, s) = fold (uiCommandStep E) inputs ((c, them), Reading)" "uiTruthful E m"
    by (simp_all add: uiRun_def)
  have v: "\<not> isPanic (View D m)" for D using View_draws [of D m] by auto
  show ?thesis using f v by (simp add: r uiTruthful_def uiSetPrompt_def uiMe_def Let_def)
qed

text \<open>
  Both user interfaces understand a line in the same way: a trimmed line that asks neither for a log nor for a chat with oneself makes the shell and the full screen interface perform the same operation, with the same client, current peer and status afterwards.
\<close>

theorem ui_like_shell:
  assumes "pages (kA E)" and "sRead w = None" and "capped st" and "length (clEvents (shClient st)) < 2 ^ 63"
    and "TrimSpace input = input" and "\<not> hasPrefix input (str ''/log'')"
    and "parseLine self (shThem st) input \<noteq> Refuse"
    and "uClient m = shClient st" and "uThem m = shThem st"
  shows "uiView (uiEnter E w input m) = view (handleLine E w self input st)"
proof -
  obtain m' s' where u: "uiEnter E w input m = (m', s')" by fastforce
  obtain st' s where h: "handleLine E w self input st = (st', s)" by fastforce
  have "uiParse (uThem m) input = parseLine self (shThem st) input"
  proof -
    have "hasPrefix input (str ''/quit'') \<Longrightarrow> \<not> hasPrefix input (str ''/salty'')"
      by (auto simp: hasPrefix_def str_def take_Suc_conv_app_nth numeral_eq_Suc)
    then show ?thesis using assms(5-7,9) by (auto simp: uiParse_def parseLine_def Let_def split: if_splits)
  qed
  with uiEnter_follows [OF u] handleLine_follows [OF assms(1-4) h] show ?thesis
    using assms(8,9) by (simp add: u h uiFollows_def follows_def uiView_def view_def)
qed

theorem ui_like_shell_witness:
  "uiView (uiEnter demoLinked demoShellIo (str ''/chat b'') (InitialModel demoLinked demoUser [])) =
     view (handleLine demoLinked demoShellIo [97] (str ''/chat b'') (svcNew demoUser))"
proof -
  have p: "TrimSpace (str ''/chat b'') = str ''/chat b''" "\<not> hasPrefix (str ''/chat b'') (str ''/log'')"
    "parseLine [97] [] (str ''/chat b'') = OpenChat [98]" by code_simp+
  show ?thesis
  proof (rule ui_like_shell [OF demo_shell(1,2) _ _ p(1,2)])
    show "parseLine [97] (shThem (svcNew demoUser)) (str ''/chat b'') \<noteq> Refuse" using p(3) by simp
  qed (simp_all add: capped_def demoNode_def InitialModel_def)
qed

end
