(* ===== verification/Chat.thy ===== *)
theory Chat
  imports XSession
begin

text \<open>
  Two sessions that exchange texts: a step relation over \<open>Send\<close> and \<open>Receive\<close> with the texts under
  way, and the proof that it refines the conversation of the two ratchets (theory \<open>Conversation\<close>).
\<close>

section \<open>The step relation\<close>

text \<open>The ciphertext inside the text of a data message.\<close>

definition payloadOf :: "bytes \<Rightarrow> bytes" where
  "payloadOf msg = (case unmarshalMessage msg of Inr (t, DataM d) \<Rightarrow> d_payload d | _ \<Rightarrow> [])"

definition payloads :: "channel \<Rightarrow> channel" where
  "payloads q = map (\<lambda>(pt, msg). (pt, payloadOf msg)) q"

type_synonym chatState = "Session \<times> Session \<times> channel \<times> channel"

text \<open>The outcome of \<open>Receive\<close> as a result.\<close>

fun outcome :: "received \<Rightarrow> bytes result" where
  "outcome (est, closed, plaintext, None) = Inr plaintext"
| "outcome (est, closed, plaintext, Some e) = Inl e"

inductive chatAct :: "prims \<Rightarrow> (bytes \<Rightarrow> bytes) \<Rightarrow> chatState \<Rightarrow> (bytes \<times> bytes result) list \<Rightarrow> chatState \<Rightarrow> bool" where
  send: "Send P setTime rnd X pt = (X', Inr msg)
    \<Longrightarrow> chatAct P setTime (X, Y, qx, qy) [] (X', Y, qx @ [(pt, msg)], qy)"
| deliver: "ratchet X = Some x \<Longrightarrow> ratchet Y = Some y \<Longrightarrow> admissible x y (headerOf (payloadOf msg))
    \<Longrightarrow> freshKey P f y (payloads qy) \<Longrightarrow> Receive P (\<lambda>_. RandOk f) Y msg = (Y', r)
    \<Longrightarrow> chatAct P setTime (X, Y, q1 @ (pt, msg) # q2, qy) [(pt, outcome r)] (X, Y', q1 @ q2, qy)"
| swap: "chatAct P setTime (Y, X, qy, qx) l (Y', X', qy', qx')
    \<Longrightarrow> chatAct P setTime (X, Y, qx, qy) l (X', Y', qx', qy')"

inductive chat :: "prims \<Rightarrow> (bytes \<Rightarrow> bytes) \<Rightarrow> chatState \<Rightarrow> (bytes \<times> bytes result) list \<Rightarrow> chatState \<Rightarrow> bool" where
  start: "chat P setTime s [] s"
| more: "chat P setTime s l s' \<Longrightarrow> chatAct P setTime s' l' s'' \<Longrightarrow> chat P setTime s (l @ l') s''"

section \<open>Refinement\<close>

text \<open>The ratchets and ciphertexts behind two active sessions.\<close>

fun absChat :: "chatState \<Rightarrow> session" where
  "absChat (X, Y, qx, qy) = (the (ratchet X), the (ratchet Y), payloads qx, payloads qy)"

definition dataText :: "bytes \<Rightarrow> bool" where
  "dataText msg \<longleftrightarrow> (\<exists>d. unmarshalMessage msg = Inr (sessData, DataM d))"

fun chatInv :: "chatState \<Rightarrow> bool" where
  "chatInv (X, Y, qx, qy) \<longleftrightarrow> ratchet X \<noteq> None \<and> ratchet Y \<noteq> None
     \<and> (\<forall>(pt, msg) \<in> set qx \<union> set qy. dataText msg)"

lemma chatInv_swap: "chatInv (Y, X, qy, qx) = chatInv (X, Y, qx, qy)"
  by (auto simp: Un_commute)

lemma payloads_simps [simp]:
  "payloads [] = []" "payloads (q @ q') = payloads q @ payloads q'"
  "payloads ((pt, msg) # q) = (pt, payloadOf msg) # payloads q"
  by (simp_all add: payloads_def)

lemma Send_refines:
  assumes "\<forall>u. length (setTime u) = 16" and "ratchet X = Some x"
    and "Send P setTime rnd X pt = (X', Inr msg)"
  obtains x' where "Encrypt P rnd x pt = (x', Inr (payloadOf msg))" and "X' = X\<lparr>ratchet := Some x'\<rparr>"
    and "unmarshalMessage msg =
      Inr (sessData, DataM \<lparr>d_uuid = encTime setTime (RemoteUUID X), d_payload = payloadOf msg\<rparr>)"
proof -
  obtain x' r where e: "Encrypt P rnd x pt = (x', r)" by fastforce
  with assms(2,3) obtain ct where r: "r = Inr ct" by (cases r) (auto simp: Send_def)
  let ?d = "\<lparr>d_uuid = encTime setTime (RemoteUUID X), d_payload = ct\<rparr>"
  have m: "marshalMessage sessData (DataM ?d) = Inr msg" "X' = X\<lparr>ratchet := Some x'\<rparr>"
    using assms(2,3) e r by (simp_all add: Send_def)
  have "msgValid (DataM ?d)"
    using assms(1) Encrypt_nonempty [OF e [unfolded r]] by (simp add: dataValid_def encTime_def)
  with m(1) have u: "unmarshalMessage msg = Inr (sessData, DataM ?d)"
    using unmarshal_marshal [of "DataM ?d"] by auto
  then have "payloadOf msg = ct" by (simp add: payloadOf_def)
  with e r m(2) u that show thesis by simp
qed

lemma Receive_refines:
  assumes "dataText msg" and "ratchet Y = Some y" and "Receive P rs Y msg = (Y', r)"
  shows "\<exists>y'. Decrypt P (rs 0) y (payloadOf msg) = (y', outcome r) \<and> Y' = Y\<lparr>ratchet := Some y'\<rparr>"
proof -
  obtain d where u: "unmarshalMessage msg = Inr (sessData, DataM d)" using assms(1) by (auto simp: dataText_def)
  obtain y' o' where "Decrypt P (rs 0) y (d_payload d) = (y', o')" by fastforce
  with u assms(2,3) show ?thesis
    by (cases o') (auto simp: Receive_def ReceiveMsg_def receiveData_def payloadOf_def)
qed

text \<open>Every step of the chat is a step of the conversation.\<close>

lemma chatAct_refines:
  assumes "chatAct P setTime s l s'" and "\<forall>u. length (setTime u) = 16" and "chatInv s"
  shows "act P (absChat s) l (absChat s') \<and> chatInv s'"
  using assms
proof (induction rule: chatAct.induct)
  case (send P setTime rnd X pt X' msg Y qx qy)
  then obtain x where x: "ratchet X = Some x" by auto
  obtain x' where e: "Encrypt P rnd x pt = (x', Inr (payloadOf msg))" and X': "X' = X\<lparr>ratchet := Some x'\<rparr>"
    and "unmarshalMessage msg =
      Inr (sessData, DataM \<lparr>d_uuid = encTime setTime (RemoteUUID X), d_payload = payloadOf msg\<rparr>)"
    using send.prems(1) x send.hyps by (rule Send_refines)
  then have d: "dataText msg" by (auto simp: dataText_def)
  from act.send [OF e] show ?case using X' d x send.prems(2) by auto
next
  case (deliver X x Y y msg P f qy Y' r setTime q1 pt q2)
  then have "dataText msg" by simp
  then obtain y' where e: "Decrypt P (RandOk f) y (payloadOf msg) = (y', outcome r)"
    and Y': "Y' = Y\<lparr>ratchet := Some y'\<rparr>"
    using Receive_refines deliver.hyps(2,5) by blast
  from act.deliver [OF deliver.hyps(3,4) e] show ?case using Y' deliver by auto
next
  case (swap P setTime Y X qy qx l Y' X' qy' qx')
  then have "chatInv (Y, X, qy, qx)" by (subst chatInv_swap)
  with swap have "act P (absChat (Y, X, qy, qx)) l (absChat (Y', X', qy', qx'))" "chatInv (Y', X', qy', qx')"
    by blast+
  then show ?case using act.swap chatInv_swap by simp
qed

lemma chat_refines:
  assumes "chat P setTime s l s'" and "\<forall>u. length (setTime u) = 16" and "chatInv s"
  shows "talk P (absChat s) l (absChat s') \<and> chatInv s'"
  using assms
proof (induction rule: chat.induct)
  case (start P setTime s)
  then show ?case by (simp add: talk.start)
next
  case (more P setTime s l s' l' s'')
  then have t: "talk P (absChat s) l (absChat s')" "chatInv s'" by blast+
  from chatAct_refines [OF more.hyps(2) more.prems(1) t(2)] t(1) show ?case
    by (blast intro: talk.more)
qed

section \<open>Correctness\<close>

text \<open>
  C7: end to end: after the handshake of two parties that accept each other, in every exchange of texts by Send and Receive (any number, in both directions, out of order or lost within the limits of the ratchet) every text that is received yields exactly the plaintext that was sent.
\<close>

theorem chat_correct:
  assumes "aesLaw P" and "hmacLaw P" and "dhLaw P" and "sha512Law P"
    and "edKey P (IdentityKey A)" and "edKey P (IdentityKey B)"
    and "VerifyPeer A (edPublic (IdentityKey B))" and "VerifyPeer B (edPublic (IdentityKey A))"
    and "length (LocalUUID A) = 16" and "length (LocalUUID B) = 16" and "ratchet A = None"
    and "x25519_base P (map f' [0..<32]) \<noteq> x25519_base P (map f [0..<32])"
    and "\<forall>u. length (setTime u) = 16"
    and "Offer P (RandOk f) A = (A1, Inr offerMsg)"
    and "Acknowledge P (\<lambda>i. RandOk (g i)) B offerMsg = (B1, ackMsg, None)"
    and "Receive P (\<lambda>i. RandOk f') A1 ackMsg = (A2, True, False, [], None)"
    and "chat P setTime (B1, A2, [], []) l s" and "(pt, r) \<in> set l"
  shows "r = Inr pt"
proof -
  obtain drA drB where d: "ratchet A2 = Some drA" "ratchet B1 = Some drB" and p: "paired P drA drB [] []"
    using handshake_ok [OF assms(1-12), of g] assms(14-16) by auto
  then have "chatInv (B1, A2, [], [])" by simp
  with chat_refines [OF assms(17,13)] have "talk P (absChat (B1, A2, [], [])) l (absChat s)" by blast
  then have "talk P (drB, drA, [], []) l (absChat s)" using d by simp
  with assms(1-3) p have "honest l" by (rule paired_honest)
  with assms(18) show ?thesis by (auto simp: honest_def)
qed

lemma Send_ok:
  assumes "\<forall>u. length (setTime u) = 16" and "ratchet X = Some x" and "Encrypt P rnd x pt = (x', Inr ct)"
  obtains msg where "Send P setTime rnd X pt = (X\<lparr>ratchet := Some x'\<rparr>, Inr msg)" and "payloadOf msg = ct"
proof -
  let ?d = "\<lparr>d_uuid = encTime setTime (RemoteUUID X), d_payload = ct\<rparr>"
  have "msgValid (DataM ?d)"
    using assms(1) Encrypt_nonempty [OF assms(3)] by (simp add: dataValid_def encTime_def)
  then obtain s where "marshalMessage sessData (DataM ?d) = Inr s"
    "unmarshalMessage s = Inr (sessData, DataM ?d)" by (rule transport) simp
  then show thesis using that assms(2,3) by (simp add: Send_def payloadOf_def)
qed

text \<open>One text, sent and received.\<close>

lemma chat_once:
  assumes "\<forall>u. length (setTime u) = 16" and "ratchet X = Some x" and "ratchet Y = Some y"
    and "Encrypt P rnd x pt = (x', Inr ct)" and "admissible x' y (headerOf ct)" and "freshKey P f y []"
  shows "\<exists>r s. chat P setTime (X, Y, [], []) [(pt, r)] s"
proof -
  obtain msg where s: "Send P setTime rnd X pt = (X\<lparr>ratchet := Some x'\<rparr>, Inr msg)" and m: "payloadOf msg = ct"
    using assms(1,2,4) by (rule Send_ok)
  let ?X = "X\<lparr>ratchet := Some x'\<rparr>"
  obtain Y' r where r: "Receive P (\<lambda>_. RandOk f) Y msg = (Y', r)" by (cases "Receive P (\<lambda>_. RandOk f) Y msg") blast
  have "chatAct P setTime (X, Y, [], []) [] (?X, Y, [] @ [(pt, msg)], [])" using s by (rule chatAct.send)
  with chat.start have "chat P setTime (X, Y, [], []) ([] @ []) (?X, Y, [] @ [(pt, msg)], [])"
    by (rule chat.more)
  moreover have "chatAct P setTime (?X, Y, [] @ (pt, msg) # [], []) [(pt, outcome r)] (?X, Y', [] @ [], [])"
    by (rule chatAct.deliver [OF _ assms(3) _ _ r]) (use assms(5,6) m in simp_all)
  ultimately have "chat P setTime (X, Y, [], []) (([] @ []) @ [(pt, outcome r)]) (?X, Y', [] @ [], [])"
    using chat.more by fastforce
  then show ?thesis unfolding append_Nil by blast
qed

theorem chat_correct_witness:
  "\<exists>A1 offerMsg B1 ackMsg A2 r s.
    Offer demo (RandOk (\<lambda>_. 3)) demoA = (A1, Inr offerMsg)
    \<and> Acknowledge demo (\<lambda>i. RandOk (\<lambda>_. word_of_nat i)) demoB offerMsg = (B1, ackMsg, None)
    \<and> Receive demo (\<lambda>i. RandOk (\<lambda>_. 4)) A1 ackMsg = (A2, True, False, [], None)
    \<and> chat demo (goCopy 16) (B1, A2, [], []) [([72, 105], r)] s \<and> r = Inr [72, 105]"
proof -
  have ps: "edKey demo (IdentityKey demoA)" "edKey demo (IdentityKey demoB)"
    "VerifyPeer demoA (edPublic (IdentityKey demoB))" "VerifyPeer demoB (edPublic (IdentityKey demoA))"
    "length (LocalUUID demoA) = 16" "length (LocalUUID demoB) = 16" "ratchet demoA = None"
    by (simp_all add: demoA_def demoB_def demo_edKey)
  have k: "x25519_base demo (map (\<lambda>_. 4) [0..<32]) \<noteq> x25519_base demo (map (\<lambda>_. 3) [0..<32])"
    by (simp add: demo_def map_replicate_const)
  from handshake_ok [OF demo_laws(3,2,1) demo_sha512Law ps k, of "\<lambda>i _. word_of_nat i"]
  obtain A1 offerMsg B1 ackMsg A2 drA drB where
    o: "Offer demo (RandOk (\<lambda>_. 3)) demoA = (A1, Inr offerMsg)"
    and a: "Acknowledge demo (\<lambda>i. RandOk (\<lambda>_. word_of_nat i)) demoB offerMsg = (B1, ackMsg, None)"
    and r: "Receive demo (\<lambda>i. RandOk (\<lambda>_. 4)) A1 ackMsg = (A2, True, False, [], None)"
    and d: "ratchet A2 = Some drA" "ratchet B1 = Some drB"
    and p: "paired demo drA drB [] []" "dr_sendNo drB = 1" "dr_prevSendNo drB = 0"
    by blast
  obtain drB' ct where e: "Encrypt demo (RandOk (\<lambda>_. 0)) drB [72, 105] = (drB', Inr ct)"
    and ad: "admissible drB' drA (headerOf ct)"
    by (rule answered_send [OF demo_laws(3,2,1) p(1)]) (simp_all add: p(2,3))
  obtain c where f: "freshKey demo (\<lambda>_. c) drA []"
  proof (cases "r_dhPub (dr_dhr drA) = replicate 32 5")
    case True
    then show thesis by (intro that [of 6]) (simp add: freshKey_def demo_def map_replicate_const)
  next
    case False
    then show thesis by (intro that [of 5]) (simp add: freshKey_def demo_def map_replicate_const)
  qed
  have st: "\<forall>u. length (goCopy 16 u) = 16" by simp
  obtain x s where c: "chat demo (goCopy 16) (B1, A2, [], []) [([72, 105], x)] s"
    using chat_once [OF st d(2,1) e ad f] by blast
  have "x = Inr [72, 105]"
    by (rule chat_correct [OF demo_laws(3,2,1) demo_sha512Law ps k st o a r c]) simp
  with o a r c show ?thesis by blast
qed

end
