(* ===== verification/Restore.thy ===== *)
theory Restore
  imports Marshal
begin

text \<open>
  Conversations whose ends are saved and restored between any two steps. Restoring loses the length
  of the previous chain and most skipped message keys; if messages arrive in the order in which
  they were sent, that makes no difference: the invariant of a session survives, so every message is
  still decrypted to what was encrypted.
\<close>

section \<open>Messages in order\<close>

text \<open>
  The messages under way from \<open>x\<close> to \<open>y\<close> when nothing is lost or reordered: first the rest of the
  chain that \<open>y\<close> is on, from the next number that \<open>y\<close> expects, then the chain that \<open>x\<close> is on, if
  that is another one. No header announces messages of an earlier chain.
\<close>

definition chainOf :: "bytes \<times> bytes \<Rightarrow> bytes" where
  "chainOf m = h_dhPub (headerOf (snd m))"

definition numberOf :: "bytes \<times> bytes \<Rightarrow> int" where
  "numberOf m = h_msgNo (headerOf (snd m))"

definition inOrder :: "doubleRatchet \<Rightarrow> doubleRatchet \<Rightarrow> channel \<Rightarrow> bool" where
  "inOrder x y q \<longleftrightarrow> (\<forall>m \<in> set q. h_prevNo (headerOf (snd m)) = 0)
     \<and> (\<exists>q1 q2. q = q1 @ q2 \<and> (\<forall>m \<in> set q1. chainOf m = dr_peerDhPub y)
          \<and> (\<forall>m \<in> set q2. chainOf m = r_dhPub (dr_dhr x))
          \<and> (if r_dhPub (dr_dhr x) = dr_peerDhPub y
             then q2 = [] \<and> map numberOf q1 = [dr_recvNo y..dr_sendNo x - 1]
             else (\<exists>e. map numberOf q1 = [dr_recvNo y..e]) \<and> map numberOf q2 = [0..dr_sendNo x - 1]))"

fun linked :: "prims \<Rightarrow> session \<Rightarrow> bool" where
  "linked P (x, y, qx, qy) \<longleftrightarrow>
     (paired P x y qx qy \<or> paired P y x qy qx) \<and> inOrder x y qx \<and> inOrder y x qy"

lemma linked_swap: "linked P (y, x, qy, qx) = linked P (x, y, qx, qy)"
  by auto

lemma inOrderE:
  assumes "inOrder x y q"
  obtains q1 q2 where "q = q1 @ q2" and "\<forall>m \<in> set q. h_prevNo (headerOf (snd m)) = 0"
    and "\<forall>m \<in> set q1. chainOf m = dr_peerDhPub y" and "\<forall>m \<in> set q2. chainOf m = r_dhPub (dr_dhr x)"
    and "if r_dhPub (dr_dhr x) = dr_peerDhPub y
         then q2 = [] \<and> map numberOf q1 = [dr_recvNo y..dr_sendNo x - 1]
         else (\<exists>e. map numberOf q1 = [dr_recvNo y..e]) \<and> map numberOf q2 = [0..dr_sendNo x - 1]"
  using assms unfolding inOrder_def by blast

lemma upto_Cons: "i # is = [s..e] \<Longrightarrow> i = s \<and> is = [s + 1..e]"
  by (subst (asm) upto.simps) (auto split: if_splits)

lemma numbers_own: "(\<forall>m \<in> set q. chainOf m = pub) \<Longrightarrow> numbers pub q = map numberOf q"
  by (induction q) (auto simp: chainOf_def numberOf_def)

lemma numbers_other: "(\<forall>m \<in> set q. chainOf m \<noteq> pub) \<Longrightarrow> numbers pub q = []"
  by (induction q) (auto simp: chainOf_def)

lemma inOrder_cong:
  assumes "dr_dhr x' = dr_dhr x" and "dr_sendNo x' = dr_sendNo x"
    and "dr_peerDhPub y' = dr_peerDhPub y" and "dr_recvNo y' = dr_recvNo y"
  shows "inOrder x' y' q = inOrder x y q"
  unfolding inOrder_def assms ..

text \<open>Everything of the chain that \<open>y\<close> is on is still to come.\<close>

lemma inOrder_pending:
  assumes "inOrder x y q" and "n \<in> set (numbers (dr_peerDhPub y) q)"
  shows "dr_recvNo y \<le> n"
proof -
  from assms(1) obtain q1 q2 where q: "q = q1 @ q2" and c: "\<forall>m \<in> set q1. chainOf m = dr_peerDhPub y"
    and n: "\<exists>e. map numberOf q1 = [dr_recvNo y..e]"
    and o: "numbers (dr_peerDhPub y) q2 = []"
    unfolding inOrder_def using numbers_other by (metis numbers_Nil)
  from n obtain e where "map numberOf q1 = [dr_recvNo y..e]" ..
  with assms(2) o numbers_own [OF c] q show ?thesis by simp
qed

section \<open>Restoring\<close>

lemma paired_restore_left:
  assumes "paired P x y qx qy" and "inOrder y x qy" and "restoredRatchet (Some x) (Some x')"
  shows "paired P x' y qx qy"
proof -
  from assms(3) obtain kb where x': "x' = x\<lparr>dr_prevSendNo := 0, dr_msgKeyBuffer := kb\<rparr>"
    and kb: "kbInv kb" by (auto simp: restoredBuffer_def)
  have "sink P c x qy \<Longrightarrow> sink P c x' qy" for c
    using inOrder_pending [OF assms(2)] kb unfolding sink_def x' receives_def by fastforce
  moreover have "source P c x' qx = source P c x qx" for c
    by (simp add: source_def x' sends_def)
  ultimately show ?thesis
    using assms(1) kb by (auto simp: paired_def leads_def answers_def silent_def x')
qed

lemma paired_restore_right:
  assumes "paired P x y qx qy" and "inOrder x y qx" and "restoredRatchet (Some y) (Some y')"
  shows "paired P x y' qx qy"
proof -
  from assms(3) obtain kb where y': "y' = y\<lparr>dr_prevSendNo := 0, dr_msgKeyBuffer := kb\<rparr>"
    and kb: "kbInv kb" by (auto simp: restoredBuffer_def)
  have "sink P c y qx \<Longrightarrow> sink P c y' qx" for c
    using inOrder_pending [OF assms(2)] kb unfolding sink_def y' receives_def by fastforce
  moreover have "source P c y' qy = source P c y qy" for c
    by (simp add: source_def y' sends_def)
  ultimately show ?thesis
    using assms(1) kb by (auto simp: paired_def leads_def hears_def answers_def silent_def y')
qed

lemma linked_restore:
  assumes "linked P (x, y, qx, qy)" and "restoredRatchet (Some x) (Some x')"
  shows "linked P (x', y, qx, qy)"
proof -
  have o: "inOrder x' y qx = inOrder x y qx" "inOrder y x' qy = inOrder y x qy"
    by (rule inOrder_cong; use assms(2) in auto)+
  from assms(1) have i: "inOrder x y qx" "inOrder y x qy" by simp_all
  from assms(1) consider "paired P x y qx qy" | "paired P y x qy qx" by auto
  then have "paired P x' y qx qy \<or> paired P y x' qy qx"
  proof cases
    case 1
    then have "paired P x' y qx qy" using i(2) assms(2) by (rule paired_restore_left)
    then show ?thesis ..
  next
    case 2
    then have "paired P y x' qy qx" using i(2) assms(2) by (rule paired_restore_right)
    then show ?thesis ..
  qed
  with i o show ?thesis by simp
qed

section \<open>Sending\<close>

text \<open>What a peer of a session sends carries the next number of its chain.\<close>

lemma source_sent:
  assumes "aesLaw P" and "hmacLaw P" and "source P c x q" and "Encrypt P rnd x pt = (x', Inr msg)"
    and "length (r_dhPub (dr_dhr x)) = 32" and "0 \<le> dr_prevSendNo x"
  shows "headerOf msg = sendHeader x \<and> (\<exists>k. x' = x\<lparr>dr_chainKeySend := k, dr_sendNo := dr_sendNo x + 1\<rparr>)"
proof -
  have "sends P c x" using assms(3) by (simp add: source_def)
  then have "headerValid (sendHeader x)" using assms(4-6) by (rule Encrypt_header_valid)
  with assms(1-3) obtain msg' k where
    "Encrypt P rnd x pt = (x\<lparr>dr_chainKeySend := k, dr_sendNo := dr_sendNo x + 1\<rparr>, Inr msg')"
    "headerOf msg' = sendHeader x"
    by (rule source_send)
  with assms(4) show ?thesis by auto
qed

lemma linked_source:
  assumes "dhLaw P" and "paired P x y qx qy \<or> paired P y x qy qx" and "Encrypt P rnd x pt = (x', Inr msg)"
  shows "\<exists>c. source P c x qx \<and> length (r_dhPub (dr_dhr x)) = 32 \<and> 0 \<le> dr_prevSendNo x \<and> 0 \<le> dr_sendNo x
    \<and> (r_dhPub (dr_dhr x) = dr_peerDhPub y \<longrightarrow> dr_recvNo y \<le> dr_sendNo x)"
  using assms(2)
proof
  assume p: "paired P x y qx qy"
  then obtain ck where "dhAhead P (dr_dhr x) (dr_dhr y) ck" "source P ck x qx"
    by (auto simp: paired_def leads_def)
  with p keysOk_base_length [OF assms(1) dhAheadD(1)] show ?thesis
    by (auto simp: paired_def source_def sends_def)
next
  assume p: "paired P y x qy qx"
  then obtain ck where a: "dhAhead P (dr_dhr y) (dr_dhr x) ck" by (auto simp: paired_def leads_def)
  have "\<not> silent x y qx"
    using Encrypt_no_peer [of x P rnd pt] dhAheadD(4) [OF a] assms(3) by (auto simp: silent_def)
  with p keysOk_base_length [OF assms(1) dhAheadD(2) [OF a]] show ?thesis
    by (auto simp: paired_def answers_def source_def sends_def)
qed

lemma inOrder_send:
  assumes "inOrder x y q" and "headerOf msg = sendHeader x" and "dr_prevSendNo x = 0" and "0 \<le> dr_sendNo x"
    and "r_dhPub (dr_dhr x) = dr_peerDhPub y \<longrightarrow> dr_recvNo y \<le> dr_sendNo x"
  shows "inOrder (x\<lparr>dr_chainKeySend := k, dr_sendNo := dr_sendNo x + 1\<rparr>) y (q @ [(pt, msg)])"
proof -
  let ?m = "(pt, msg)"
  have m: "chainOf ?m = r_dhPub (dr_dhr x)" "numberOf ?m = dr_sendNo x" "h_prevNo (headerOf msg) = 0"
    using assms(2,3) by (simp_all add: chainOf_def numberOf_def sendHeader_def)
  from assms(1) obtain q1 q2 where q: "q = q1 @ q2" and p: "\<forall>m \<in> set q. h_prevNo (headerOf (snd m)) = 0"
    and c: "\<forall>m \<in> set q1. chainOf m = dr_peerDhPub y" "\<forall>m \<in> set q2. chainOf m = r_dhPub (dr_dhr x)"
    and n: "if r_dhPub (dr_dhr x) = dr_peerDhPub y
             then q2 = [] \<and> map numberOf q1 = [dr_recvNo y..dr_sendNo x - 1]
             else (\<exists>e. map numberOf q1 = [dr_recvNo y..e]) \<and> map numberOf q2 = [0..dr_sendNo x - 1]"
    by (rule inOrderE)
  show ?thesis
  proof (cases "r_dhPub (dr_dhr x) = dr_peerDhPub y")
    case True
    then have "[dr_recvNo y..dr_sendNo x] = [dr_recvNo y..dr_sendNo x - 1] @ [dr_sendNo x]"
      using assms(5) by (simp add: upto_rec2)
    with True n m q c p show ?thesis
      unfolding inOrder_def by (intro conjI exI [of _ "q1 @ [?m]"] exI [of _ "[]"]) auto
  next
    case False
    then have "[0..dr_sendNo x] = [0..dr_sendNo x - 1] @ [dr_sendNo x]"
      using assms(4) by (simp add: upto_rec2)
    with False n m q c p show ?thesis
      unfolding inOrder_def by (intro conjI exI [of _ q1] exI [of _ "q2 @ [?m]"]) auto
  qed
qed

lemma linked_send:
  assumes "aesLaw P" and "hmacLaw P" and "dhLaw P" and "linked P (x, y, qx, qy)"
    and "Encrypt P rnd x pt = (x', Inr msg)" and "dr_prevSendNo x = 0"
  shows "linked P (x', y, qx @ [(pt, msg)], qy)"
proof -
  have p: "paired P x y qx qy \<or> paired P y x qy qx" and i: "inOrder x y qx" "inOrder y x qy"
    using assms(4) by simp_all
  from linked_source [OF assms(3) p assms(5)] obtain c where s: "source P c x qx"
    and l: "length (r_dhPub (dr_dhr x)) = 32" "0 \<le> dr_prevSendNo x" "0 \<le> dr_sendNo x"
    and n: "r_dhPub (dr_dhr x) = dr_peerDhPub y \<longrightarrow> dr_recvNo y \<le> dr_sendNo x" by blast
  obtain k where h: "headerOf msg = sendHeader x" and x': "x' = x\<lparr>dr_chainKeySend := k, dr_sendNo := dr_sendNo x + 1\<rparr>"
    using source_sent [OF assms(1,2) s assms(5) l(1,2)] by blast
  have "inOrder x' y (qx @ [(pt, msg)])" unfolding x' using i(1) h assms(6) l(3) n by (rule inOrder_send)
  moreover have "inOrder y x' qy = inOrder y x qy" by (rule inOrder_cong) (simp_all add: x')
  moreover have "paired P x' y (qx @ [(pt, msg)]) qy \<or> paired P y x' qy (qx @ [(pt, msg)])"
    using p paired_left_send [OF assms(1-3)] paired_right_send [OF assms(1-3)] assms(5) by blast
  ultimately show ?thesis using i(2) by simp
qed

section \<open>Receiving\<close>

text \<open>The next message in order is of the chain \<open>y\<close> is on, or the first of the chain \<open>x\<close> is on.\<close>

lemma inOrder_head:
  assumes "inOrder x y (m # q)"
  shows "chainOf m = dr_peerDhPub y \<and> numberOf m = dr_recvNo y
      \<or> chainOf m = r_dhPub (dr_dhr x) \<and> chainOf m \<noteq> dr_peerDhPub y \<and> numberOf m = 0"
proof -
  from assms obtain q1 q2 where q: "m # q = q1 @ q2" and "\<forall>m \<in> set (m # q). h_prevNo (headerOf (snd m)) = 0"
    and c: "\<forall>m \<in> set q1. chainOf m = dr_peerDhPub y" "\<forall>m \<in> set q2. chainOf m = r_dhPub (dr_dhr x)"
    and n: "if r_dhPub (dr_dhr x) = dr_peerDhPub y
             then q2 = [] \<and> map numberOf q1 = [dr_recvNo y..dr_sendNo x - 1]
             else (\<exists>e. map numberOf q1 = [dr_recvNo y..e]) \<and> map numberOf q2 = [0..dr_sendNo x - 1]"
    by (rule inOrderE)
  show ?thesis
  proof (cases q1)
    case Nil
    with q n c upto_Cons show ?thesis by (auto split: if_splits)
  next
    case (Cons a as)
    with q n have "\<exists>e. numberOf m # map numberOf as = [dr_recvNo y..e]" by (auto split: if_splits)
    with Cons q c upto_Cons show ?thesis by auto
  qed
qed

text \<open>So it is admissible.\<close>

lemma inOrder_admissible:
  assumes "inOrder x y ((pt, msg) # q)" and "0 \<le> dr_recvNo y"
  shows "admissible x y (headerOf msg)"
  using inOrder_head [OF assms(1)] assms
  by (auto simp: admissible_def inOrder_def chainOf_def numberOf_def maxSkipElements_def)

text \<open>Receiving the next message keeps the order, on the chain \<open>y\<close> is on and on a new one.\<close>

lemma inOrder_same:
  assumes "inOrder x y (m # q)" and "chainOf m = dr_peerDhPub y"
  shows "inOrder x (y\<lparr>dr_chainKeyRecv := ck, dr_recvNo := dr_recvNo y + 1\<rparr>) q"
proof -
  from assms(1) obtain q1 q2 where q: "m # q = q1 @ q2" and p: "\<forall>m \<in> set (m # q). h_prevNo (headerOf (snd m)) = 0"
    and c: "\<forall>m \<in> set q1. chainOf m = dr_peerDhPub y" "\<forall>m \<in> set q2. chainOf m = r_dhPub (dr_dhr x)"
    and n: "if r_dhPub (dr_dhr x) = dr_peerDhPub y
             then q2 = [] \<and> map numberOf q1 = [dr_recvNo y..dr_sendNo x - 1]
             else (\<exists>e. map numberOf q1 = [dr_recvNo y..e]) \<and> map numberOf q2 = [0..dr_sendNo x - 1]"
    by (rule inOrderE)
  obtain as where q1: "q1 = m # as" "q = as @ q2"
    using q n c assms(2) by (cases q1) (auto split: if_splits)
  from n have n': "if r_dhPub (dr_dhr x) = dr_peerDhPub y
             then q2 = [] \<and> map numberOf as = [dr_recvNo y + 1..dr_sendNo x - 1]
             else (\<exists>e. map numberOf as = [dr_recvNo y + 1..e]) \<and> map numberOf q2 = [0..dr_sendNo x - 1]"
    unfolding q1(1) list.map using upto_Cons by (fastforce split: if_splits)
  show ?thesis
    unfolding inOrder_def using p q1 c n' by (intro conjI exI [of _ as] exI [of _ q2]) auto
qed

lemma inOrder_new:
  assumes "inOrder x y (m # q)" and "chainOf m \<noteq> dr_peerDhPub y"
    and "dr_peerDhPub y' = chainOf m" and "dr_recvNo y' = 1"
  shows "inOrder x y' q"
proof -
  from assms(1) obtain q1 q2 where q: "m # q = q1 @ q2" and p: "\<forall>m \<in> set (m # q). h_prevNo (headerOf (snd m)) = 0"
    and c: "\<forall>m \<in> set q1. chainOf m = dr_peerDhPub y" "\<forall>m \<in> set q2. chainOf m = r_dhPub (dr_dhr x)"
    and n: "if r_dhPub (dr_dhr x) = dr_peerDhPub y
             then q2 = [] \<and> map numberOf q1 = [dr_recvNo y..dr_sendNo x - 1]
             else (\<exists>e. map numberOf q1 = [dr_recvNo y..e]) \<and> map numberOf q2 = [0..dr_sendNo x - 1]"
    by (rule inOrderE)
  have "q1 = []" using q c(1) assms(2) by (cases q1) auto
  then have q2: "q2 = m # q" using q by simp
  with c(2) have m: "chainOf m = r_dhPub (dr_dhr x)" by simp
  with n assms(2) q2 have "numberOf m # map numberOf q = [0..dr_sendNo x - 1]" by simp
  then have "map numberOf q = [1..dr_sendNo x - 1]" using upto_Cons by fastforce
  then show ?thesis
    unfolding inOrder_def using p c(2) q2 m assms(3,4) by (intro conjI exI [of _ q] exI [of _ "[]"]) auto
qed

lemma inOrder_turn:
  assumes "inOrder y x q" and "r_dhPub (dr_dhr y) = dr_peerDhPub x"
    and "r_dhPub (dr_dhr y') \<noteq> dr_peerDhPub x" and "dr_sendNo y' = 0"
  shows "inOrder y' x q"
  using assms unfolding inOrder_def by (intro conjI exI [of _ q] exI [of _ "[]"]) auto

lemma linked_receive:
  assumes "aesLaw P" and "hmacLaw P" and "dhLaw P" and "linked P (x, y, (pt, msg) # qx, qy)"
    and "x25519_base P (map f [0..<32]) \<noteq> r_dhPub (dr_dhr y)"
    and "x25519_base P (map f [0..<32]) \<noteq> dr_peerDhPub x"
  shows "\<exists>y'. Decrypt P (RandOk f) y msg = (y', Inr pt) \<and> linked P (x, y', qx, qy)"
proof -
  have p: "paired P x y ([] @ (pt, msg) # qx) qy \<or> paired P y x qy ([] @ (pt, msg) # qx)"
    and i: "inOrder x y ((pt, msg) # qx)" "inOrder y x qy"
    using assms(4) by simp_all
  have pos: "0 \<le> dr_recvNo y"
    using p by (auto simp: paired_def hears_def answers_def silent_def sink_def receives_def)
  have "\<forall>m \<in> set qy. chainOf m = dr_peerDhPub x \<or> chainOf m = r_dhPub (dr_dhr y)"
    using i(2) by (auto simp: inOrder_def)
  then have "ofChain (x25519_base P (map f [0..<32])) qy = []"
    using assms(5,6) by (auto simp: ofChain_def filter_empty_conv chainOf_def)
  then have f: "freshKey P f y qy" using assms(5) by (simp add: freshKey_def Let_def)
  from deliver_paired [OF assms(1-3) p inOrder_admissible [OF i(1) pos] f] obtain y' where
    d: "Decrypt P (RandOk f) y msg = (y', Inr pt)" and p': "paired P x y' qx qy \<or> paired P y' x qy qx"
    by auto
  have "inOrder x y' qx \<and> inOrder y' x qy"
  proof (cases "chainOf (pt, msg) = dr_peerDhPub y")
    case True
    with inOrder_head [OF i(1)] obtain ck where y': "y' = y\<lparr>dr_chainKeyRecv := ck, dr_recvNo := dr_recvNo y + 1\<rparr>"
      using Decrypt_next [OF d] by (auto simp: chainOf_def numberOf_def)
    have "inOrder y' x qy = inOrder y x qy" by (rule inOrder_cong) (simp_all add: y')
    with inOrder_same [OF i(1) True, of ck] i(2) y' show ?thesis by simp
  next
    case False
    with inOrder_head [OF i(1)] have h: "chainOf (pt, msg) = r_dhPub (dr_dhr x)" "numberOf (pt, msg) = 0" by auto
    with False have y': "dr_recvNo y' = 1" "dr_sendNo y' = 0" "dr_peerDhPub y' = chainOf (pt, msg)"
      using Decrypt_first [OF d] by (auto simp: chainOf_def numberOf_def)
    have "r_dhPub (dr_dhr y') \<noteq> dr_peerDhPub x" using p' y'(3) h(1) by (auto simp: paired_def)
    moreover have "r_dhPub (dr_dhr y) = dr_peerDhPub x"
      using p h(1) False by (auto simp: paired_def)
    ultimately have "inOrder y' x qy" using inOrder_turn [OF i(2)] y'(2) by blast
    with inOrder_new [OF i(1) False y'(3,1)] show ?thesis by blast
  qed
  with d p' show ?thesis by auto
qed

section \<open>Linked ratchets can be saved\<close>

lemma source_keys: "hmacLaw P \<Longrightarrow> source P c x q \<Longrightarrow> dr_chainKeySend x \<noteq> Some []"
  using ckAt_length [of P c "nat (dr_sendNo x)"] by (auto simp: source_def sends_def)

lemma sink_keys: "hmacLaw P \<Longrightarrow> sink P c y q \<Longrightarrow> dr_chainKeyRecv y \<noteq> Some [] \<and> kbInv (dr_msgKeyBuffer y)"
  using ckAt_length [of P c "nat (dr_recvNo y)"] by (auto simp: sink_def receives_def)

lemma paired_storable:
  assumes "hmacLaw P" and "paired P x y qx qy"
  shows "kbInv (dr_msgKeyBuffer x) \<and> keysPresent x \<and> kbInv (dr_msgKeyBuffer y) \<and> keysPresent y"
proof -
  have "dr_chainKeySend x \<noteq> Some []"
    using assms source_keys by (auto simp: paired_def leads_def)
  moreover have "dr_chainKeyRecv y \<noteq> Some [] \<and> kbInv (dr_msgKeyBuffer y)"
    using assms sink_keys by (auto simp: paired_def hears_def)
  moreover have "dr_chainKeySend y \<noteq> Some [] \<and> dr_chainKeyRecv x \<noteq> Some [] \<and> kbInv (dr_msgKeyBuffer x)"
    using assms source_keys sink_keys by (fastforce simp: paired_def answers_def silent_def)
  ultimately show ?thesis by (simp add: keysPresent_def)
qed

lemma linked_storable:
  assumes "hmacLaw P" and "linked P (x, y, qx, qy)"
  shows "kbInv (dr_msgKeyBuffer x) \<and> keysPresent x \<and> kbInv (dr_msgKeyBuffer y) \<and> keysPresent y"
  using assms(2) paired_storable [OF assms(1)] by auto


text \<open>The ratchets after the handshake.\<close>

lemma paired_linked:
  assumes "paired P x y [] []" and "dr_sendNo x = 0" and "dr_recvNo x = dr_sendNo y"
  shows "linked P (x, y, [], [])"
proof -
  have "inOrder x y []"
    unfolding inOrder_def using assms(1,2)
    by (intro conjI exI [of _ "[]"]) (auto simp: paired_def intro: exI [of _ "dr_recvNo y - 1"])
  moreover have "inOrder y x []"
    unfolding inOrder_def using assms by (intro conjI exI [of _ "[]"]) (auto simp: paired_def)
  ultimately show ?thesis using assms(1) by simp
qed

section \<open>A running chain stays running\<close>

lemma dhStep_sending:
  assumes "dhStep P rnd dr = (dr', None)"
  shows "dr_chainKeySend dr' \<noteq> None"
  using assms
  by (auto simp: dhStep_def step_def stepInitial_def stepProceed_def Let_def
      split: prod.splits sum.splits option.splits if_splits)

lemma Encrypt_sending:
  assumes "Encrypt P rnd dr pt = (dr', Inr msg)"
  shows "dr_chainKeySend dr' \<noteq> None"
  using assms by (auto simp: Encrypt_def Let_def split: prod.splits sum.splits option.splits if_splits)

lemma skipLoop_chainKeySend: "dr_chainKeySend (fst (skipLoop P dr until)) = dr_chainKeySend dr"
proof (induction P dr until rule: skipLoop.induct)
  case (1 P dr until)
  then show ?case by (subst skipLoop.simps) (auto split: sum.splits)
qed

lemma skipMsgKeys_chainKeySend: "skipMsgKeys P dr until = (dr', e) \<Longrightarrow> dr_chainKeySend dr' = dr_chainKeySend dr"
  using skipLoop_chainKeySend [of P dr until] by (auto simp: skipMsgKeys_def split: if_splits)

lemma Decrypt_sending:
  assumes "Decrypt P rnd dr msg = (dr', Inr pt)" and "dr_chainKeySend dr \<noteq> None"
  shows "dr_chainKeySend dr' \<noteq> None"
proof -
  from assms(1) obtain h dr1 where r: "decryptRatchet P rnd dr h = (dr1, None)" "fst (decryptMsgKey P dr1 h) = dr'"
    by (auto simp: Decrypt_eq split: if_splits sum.splits prod.splits option.splits)
  from r(1) assms(2) have "dr_chainKeySend dr1 \<noteq> None"
    using dhStep_sending by (auto simp: decryptRatchet_def split: if_splits prod.splits option.splits)
  moreover have "dr_chainKeySend (fst (decryptMsgKey P dr1 h)) = dr_chainKeySend dr1"
    by (auto simp: decryptMsgKey_def nextMsgKey_def split: prod.splits sum.splits option.splits
        dest: skipMsgKeys_chainKeySend)
  ultimately show ?thesis using r(2) by simp
qed

lemma paired_sending:
  assumes "paired P x y qx qy"
  shows "dr_chainKeySend x \<noteq> None" and "dr_sendNo y \<noteq> 0 \<Longrightarrow> dr_chainKeySend y \<noteq> None"
  using assms by (auto simp: paired_def leads_def answers_def silent_def source_def sends_def)

lemma linked_pub:
  assumes "dhLaw P" and "linked P (x, y, qx, qy)"
  shows "length (r_dhPub (dr_dhr x)) = 32"
  using assms dhAheadD(1,2) keysOk_base_length by (auto simp: paired_def leads_def)

text \<open>A ratchet with a running chain can send as long as its counters fit the header.\<close>

lemma linked_can_send:
  assumes "aesLaw P" and "hmacLaw P" and "dhLaw P" and "linked P (x, y, qx, qy)" and "dr_chainKeySend x \<noteq> None"
    and "dr_sendNo x < 65536" and "dr_prevSendNo x = 0"
  obtains x' msg where "Encrypt P rnd x pt = (x', Inr msg)" and "kbInv (dr_msgKeyBuffer x')" and "keysPresent x'"
proof -
  obtain c where s: "source P c x qx"
    using assms(4,5) by (auto simp: paired_def leads_def answers_def silent_def)
  have "headerValid (sendHeader x)"
    using s linked_pub [OF assms(3,4)] assms(6,7) by (auto simp: headerValid_def sendHeader_def source_def sends_def)
  then obtain x' msg where e: "Encrypt P rnd x pt = (x', Inr msg)"
    using source_send [OF assms(1,2) s] by metis
  have "kbInv (dr_msgKeyBuffer x')" "keysPresent x'"
    using linked_storable [OF assms(2) linked_send [OF assms(1-4) e assms(7)]] by simp_all
  with e show thesis by (rule that)
qed

end
