(* ===== verification/Exchange.thy ===== *)
theory Exchange
  imports Client Chat Restore
begin

text \<open>
  Two clients that exchange texts over their stored sessions. Every operation of a client reads the
  session from its manager and stores it again, so the ratchets are restored between any two steps;
  the invariant of theory \<open>Restore\<close> carries over to the clients.
\<close>

section \<open>Stored sessions\<close>

text \<open>The manager keeps session \<open>p\<close> for a name: reading it restores \<open>p\<close>.\<close>

definition keeps :: "'s SessionManager \<Rightarrow> (io \<Rightarrow> bool) \<Rightarrow> (bytes \<Rightarrow> 'k) \<Rightarrow> bytes \<Rightarrow> 's \<Rightarrow> bytes \<Rightarrow> PeerSession \<Rightarrow> bool" where
  "keeps M good slot ident s them p \<longleftrightarrow> (\<forall>w. snd (mByName M w s them) = localID p)
     \<and> (\<forall>w i. good w \<longrightarrow> slot i = slot (localID p) \<longrightarrow> (\<exists>p'. mGet M w s i = Inr p' \<and> restoredPeer ident p p'))"

text \<open>A session with a ratchet and no acknowledgement to send.\<close>

definition talking :: "PeerSession \<Rightarrow> Session \<Rightarrow> doubleRatchet \<Rightarrow> bool" where
  "talking p x dr \<longleftrightarrow> inner p = Some x \<and> ratchet x = Some dr \<and> length (PeerKey p) = 32 \<and> PendingAck p = []"

text \<open>The parts of a session that never change once it is established.\<close>

definition sameParty :: "PeerSession \<Rightarrow> PeerSession \<Rightarrow> bool" where
  "sameParty p p' \<longleftrightarrow> Name p' = Name p \<and> Endpoint p' = Endpoint p \<and> PeerKey p' = PeerKey p
     \<and> map_option LocalUUID (inner p') = map_option LocalUUID (inner p)
     \<and> map_option RemoteUUID (inner p') = map_option RemoteUUID (inner p)"

lemma sameParty_trans: "sameParty p q \<Longrightarrow> sameParty q r \<Longrightarrow> sameParty p r"
  by (simp add: sameParty_def)

lemma sameParty_localID: "sameParty p q \<Longrightarrow> localID q = localID p"
  by (auto simp: sameParty_def localID_def split: option.splits)

lemma restoredPeer_sameParty: "restoredPeer k p p' \<Longrightarrow> sameParty p p'"
  by (auto simp: restoredPeer_def sameParty_def)

lemma restored_talking:
  assumes "restoredPeer k p p'" and "talking p x dr"
  obtains x' dr' where "talking p' x' dr'" and "restoredRatchet (Some dr) (Some dr')"
proof -
  from assms obtain r where r: "restoredRatchet (Some dr) r"
    and p': "p' = p\<lparr>inner := Some (x\<lparr>IdentityKey := (if ratchet x = None then k else []),
      VerifyPeer := (\<lambda>q. q = PeerKey p), ratchet := r\<rparr>)\<rparr>"
    by (auto simp: restoredPeer_def talking_def)
  from r obtain dr' where "r = Some dr'" by auto
  with r p' assms(2) that [of _ dr'] show thesis by (auto simp: talking_def)
qed

lemma talking_storable:
  "talking p x dr \<Longrightarrow> kbInv (dr_msgKeyBuffer dr) \<Longrightarrow> keysPresent dr \<Longrightarrow> peerStorable p"
  by (auto simp: talking_def peerStorable_def storable_def)

lemma talking_update:
  "talking p x dr \<Longrightarrow> talking (p\<lparr>inner := Some (x\<lparr>ratchet := Some dr'\<rparr>)\<rparr>) (x\<lparr>ratchet := Some dr'\<rparr>) dr'
     \<and> sameParty p (p\<lparr>inner := Some (x\<lparr>ratchet := Some dr'\<rparr>)\<rparr>)"
  by (auto simp: talking_def sameParty_def)

section \<open>One client\<close>

text \<open>A data message addressed to a session.\<close>

definition addressed :: "(bytes \<Rightarrow> 'k) \<Rightarrow> bytes \<Rightarrow> bytes \<Rightarrow> bool" where
  "addressed slot i msg \<longleftrightarrow> (\<exists>d. unmarshalMessage msg = Inr (sessData, DataM d) \<and> slot (d_uuid d) = slot i)"

lemma dataMsg_ratchet:
  assumes "unmarshalMessage msg = Inr r"
  shows "isRatchet msg"
  using assms by (auto simp: unmarshalMessage_eq isRatchet_def Prefix_def Suffix_def
      split: if_splits)

context session_manager
begin

lemma keeps_put:
  assumes "inv s" and "peerStorable p" and "mPut M w s p = (s', None)"
    and "\<forall>w. snd (mByName M w s them) = localID p"
  shows "keeps M good slot ident s' them p"
  unfolding keeps_def using put_get [OF assms(1,2) _ assms(3)] put_byName [OF assms(3)] assms(4) by simp

lemma keeps_byName:
  assumes "keeps M good slot ident s them p" and "mByName M w s them = (s', u)"
  shows "u = localID p" and "keeps M good slot ident s' them p"
proof -
  show u: "u = localID p" using assms by (auto simp: keeps_def dest: spec [of _ w])
  show "keeps M good slot ident s' them p"
    using assms(1) byName_get [OF assms(2)] byName_again [OF assms(2)] u by (simp add: keeps_def)
qed

lemma setPos_manager:
  assumes "inv (clManager c)" and "keeps M good slot ident (clManager c) them p"
  shows "inv (clManager (setPos M q c))" and "keeps M good slot ident (clManager (setPos M q c)) them p"
    and "clEvents (setPos M q c) = clEvents c" and "clPosts (setPos M q c) = clPosts c"
  using assms setPosition_get setPosition_byName inv_setPosition
  by (auto simp: setPos_def keeps_def split: option.split)

text \<open>What a client that sends a text does to the session it keeps.\<close>

lemma client_send:
  assumes "good w" and "sane w" and "inv (clManager c)" and "keeps M good slot ident (clManager c) them p"
    and "talking p x dr" and "clientSend M P S w c them text events = (c', None)"
    and "\<forall>u. length (ioSetTime w u) = 16"
  obtains p1 x1 dr1 dr2 msgID m data s where "sameParty p p1" and "talking p1 x1 dr1"
    and "restoredRatchet (Some dr) (Some dr1)"
    and "Encrypt P (ioRand w 0) dr1 (Literal m) = (dr2, Inr (payloadOf data))"
    and "unmarshalMessage data =
      Inr (sessData, DataM \<lparr>d_uuid = encTime (ioSetTime w) (RemoteUUID x1), d_payload = payloadOf data\<rparr>)"
    and "mPut M w s (p1\<lparr>inner := Some (x1\<lparr>ratchet := Some dr2\<rparr>)\<rparr>) = (clManager c', None)"
    and "inv s" and "\<forall>w. snd (mByName M w s them) = localID p"
    and "clPosts c' = clPosts c @ [(Endpoint p, data)]"
    and "clEvents c' = clEvents c @ [OnMessageSent msgID them (Literal m) m data]"
    and "m = newSaltyText S (ulidTime S msgID) (User (clAddr c)) (Domain (clAddr c)) (toElems text events)"
proof -
  obtain s u where b: "mByName M w (clManager c) them = (s, u)" by fastforce
  have u: "u = localID p" and k: "keeps M good slot ident s them p" using keeps_byName [OF assms(4) b] by simp_all
  have i: "inv s" using inv_byName [OF assms(3,2) b] by simp
  from k assms(1) u obtain p1 where g: "mGet M w s u = Inr p1" and r: "restoredPeer ident p p1"
    unfolding keeps_def by blast
  obtain x1 dr1 where t: "talking p1 x1 dr1" and rr: "restoredRatchet (Some dr) (Some dr1)"
    using r assms(5) by (rule restored_talking)
  have sp: "sameParty p p1" using r by (rule restoredPeer_sameParty)
  let ?id = "toULID (ioSetTime w (localID p1))"
  let ?m = "newSaltyText S (ulidTime S ?id) (User (clAddr c)) (Domain (clAddr c)) (toElems text events)"
  obtain x2 res where se: "Send P (ioSetTime w) (ioRand w 0) x1 (Literal ?m) = (x2, res)" by fastforce
  have in1: "inner p1 = Some x1" "ratchet x1 = Some dr1" using t by (simp_all add: talking_def)
  from assms(6) b g se in1 obtain data where d: "res = Inr data"
    by (cases res) (auto simp: clientSend_def Use_def peerSend_def Let_def split: option.splits)
  obtain dr2 where e: "Encrypt P (ioRand w 0) dr1 (Literal ?m) = (dr2, Inr (payloadOf data))"
    and x2: "x2 = x1\<lparr>ratchet := Some dr2\<rparr>"
    and un: "unmarshalMessage data =
      Inr (sessData, DataM \<lparr>d_uuid = encTime (ioSetTime w) (RemoteUUID x1), d_payload = payloadOf data\<rparr>)"
    using assms(7) in1(2) se [unfolded d] by (rule Send_refines)
  have ep: "Endpoint p1 = Endpoint p" using sp by (simp add: sameParty_def)
  from assms(6) b g se in1 d x2 ep have
    put: "mPut M w s (p1\<lparr>inner := Some (x1\<lparr>ratchet := Some dr2\<rparr>)\<rparr>) = (clManager c', None)"
    and po: "clPosts c' = clPosts c @ [(Endpoint p, data)]"
    and ev: "clEvents c' = clEvents c @ [OnMessageSent ?id them (Literal ?m) ?m data]"
    by (auto simp: clientSend_def Use_def peerSend_def sendMsg_def putSession_def dispatch_def Let_def
        split: option.splits prod.splits)
  have n: "\<forall>w. snd (mByName M w s them) = localID p" using k by (simp add: keeps_def)
  show thesis by (rule that [OF sp t rr e un put i n po ev refl])
qed

text \<open>What a client that receives a text does to the session it keeps.\<close>

lemma client_receive:
  assumes "good w" and "ioLock w = None" and "inv (clManager c)" and "keeps M good slot ident (clManager c) them p"
    and "talking p x dr" and "unmarshalMessage msg = Inr (sessData, DataM d)" and "slot (d_uuid d) = slot (localID p)"
    and "length (d_uuid d) = 16"
    and "\<And>dr1. restoredRatchet (Some dr) (Some dr1)
      \<Longrightarrow> \<exists>dr2. Decrypt P (ioRand w 0) dr1 (d_payload d) = (dr2, Inr pt) \<and> kbInv (dr_msgKeyBuffer dr2) \<and> keysPresent dr2"
  obtains c' p1 x1 dr1 dr2 where "handleRatchet M P L S w q msg c = (c', None)"
    and "sameParty p p1" and "talking p1 x1 dr1" and "restoredRatchet (Some dr) (Some dr1)"
    and "Decrypt P (ioRand w 0) dr1 (d_payload d) = (dr2, Inr pt)"
    and "inv (clManager c')" and "keeps M good slot ident (clManager c') them (p1\<lparr>inner := Some (x1\<lparr>ratchet := Some dr2\<rparr>)\<rparr>)"
    and "clPosts c' = clPosts c"
    and "clEvents c' = clEvents c @ (case parseSalty S pt of
        Inr (TextMsg m) \<Rightarrow> [OnMessageReceived (d_uuid d) (Name p) pt m]
      | Inr (EventMsg m) \<Rightarrow> [OnEventReceived (d_uuid d) (Name p) pt m] | _ \<Rightarrow> [])"
proof -
  let ?c = "setPos M q c"
  note sp = setPos_manager [OF assms(3,4), of q]
  from sp(2) assms(1,7) obtain p1 where g: "mGet M w (clManager ?c) (d_uuid d) = Inr p1"
    and r: "restoredPeer ident p p1"
    unfolding keeps_def by blast
  obtain x1 dr1 where t: "talking p1 x1 dr1" and rr: "restoredRatchet (Some dr) (Some dr1)"
    using r assms(5) by (rule restored_talking)
  have same: "sameParty p p1" using r by (rule restoredPeer_sameParty)
  from assms(9) [OF rr] obtain dr2 where d: "Decrypt P (ioRand w 0) dr1 (d_payload d) = (dr2, Inr pt)"
    and st: "kbInv (dr_msgKeyBuffer dr2)" "keysPresent dr2" by blast
  let ?p = "p1\<lparr>inner := Some (x1\<lparr>ratchet := Some dr2\<rparr>)\<rparr>"
  have t2: "talking ?p (x1\<lparr>ratchet := Some dr2\<rparr>) dr2" and same2: "sameParty p1 ?p"
    using talking_update [OF t] by simp_all
  have ps: "peerStorable ?p" using t2 st by (rule talking_storable)
  then obtain s where put: "mPut M w (clManager ?c) ?p = (s, None)" using put_ok [OF _ assms(1)] by blast
  have in1: "inner p1 = Some x1" "ratchet x1 = Some dr1" "PendingAck p1 = []" "Name p1 = Name p"
    using t same by (simp_all add: talking_def sameParty_def)
  have rm: "peerReceiveMsg P (ioRand w) p1 (DataM d) = (?p, False, False, pt, None)"
    using in1 d by (simp add: peerReceiveMsg_def ReceiveMsg_def receiveData_def Let_def)
  let ?c' = "?c\<lparr>clManager := s, clEvents := clEvents c @ (case parseSalty S pt of
        Inr (TextMsg m) \<Rightarrow> [OnMessageReceived (d_uuid d) (Name p) pt m]
      | Inr (EventMsg m) \<Rightarrow> [OnEventReceived (d_uuid d) (Name p) pt m] | _ \<Rightarrow> [])\<rparr>"
  have "ratchetBody M P L S w q (goCopy 16 (d_uuid d)) (DataM d) c = (?c', None)"
    using g rm put in1 sp(3) assms(8)
    by (auto simp: ratchetBody_def unsealMsg_def sessionFor_def putSession_def afterReceive_def dispatch_def
        toULID_def Let_def split: sum.splits saltyMsg.splits)
  then have h: "handleRatchet M P L S w q msg c = (?c', None)"
    using dataMsg_ratchet [OF assms(6)] assms(2,6)
    by (simp add: handleRatchet_def readMsg_def Parse_def Use_def)
  have n: "\<forall>w. snd (mByName M w (clManager ?c) them) = localID ?p"
    using sp(2) sameParty_localID [OF same] sameParty_localID [OF same2] by (simp add: keeps_def)
  have k: "keeps M good slot ident (clManager ?c') them ?p"
    using keeps_put [OF sp(1) ps put n] by simp
  have i: "inv (clManager ?c')" using inv_put [OF sp(1) put] by simp
  show thesis by (rule that [OF h same t rr d i k]) (simp_all add: sp(4))
qed

end

section \<open>Two clients\<close>

type_synonym node = "(DiskSessionManager \<times> disk) client"

text \<open>An input without failures.\<close>

definition goodIo :: "libs \<Rightarrow> io \<Rightarrow> bool" where
  "goodIo L w \<longleftrightarrow> libsLaw L \<and> noFault w \<and> saneUlid w \<and> ulidLaw L w \<and> ioLock w = None"

text \<open>The next random key is none of those in use in the sessions of a client.\<close>

definition unusedKey :: "prims \<Rightarrow> libs \<Rightarrow> io \<Rightarrow> (nat \<Rightarrow> byte) \<Rightarrow> node \<Rightarrow> bool" where
  "unusedKey P L w f c \<longleftrightarrow> (\<forall>i p x dr. mGet (diskManager L) w (clManager c) i = Inr p \<longrightarrow> inner p = Some x
     \<longrightarrow> ratchet x = Some dr
     \<longrightarrow> x25519_base P (map f [0..<32]) \<noteq> r_dhPub (dr_dhr dr) \<and> x25519_base P (map f [0..<32]) \<noteq> dr_peerDhPub dr)"

text \<open>
  The clients of \<open>a\<close> and \<open>b\<close> with the texts under way from each, in order; the log of a delivery
  holds the sender, the text that was sent, a panic of the receiver and the events it dispatched.
\<close>

type_synonym exState = "node \<times> node \<times> channel \<times> channel"
type_synonym delivery = "bytes \<times> bytes \<times> err option \<times> event list"

inductive exAct :: "prims \<Rightarrow> libs \<Rightarrow> saltyLib \<Rightarrow> bytes \<Rightarrow> bytes \<Rightarrow> exState \<Rightarrow> delivery list \<Rightarrow> exState \<Rightarrow> bool" for P L S where
  send: "goodIo L w \<Longrightarrow> clientSend (diskManager L) P S w cA b text events = (cA', None)
    \<Longrightarrow> clEvents cA' = clEvents cA @ [OnMessageSent i b lit m data]
    \<Longrightarrow> exAct P L S a b (cA, cB, qA, qB) [] (cA', cB, qA @ [(lit, data)], qB)"
| receive: "goodIo L w \<Longrightarrow> ioRand w 0 = RandOk f \<Longrightarrow> unusedKey P L w f cA \<Longrightarrow> unusedKey P L w f cB
    \<Longrightarrow> handleRatchet (diskManager L) P L S w q data cB = (cB', r)
    \<Longrightarrow> clEvents cB' = clEvents cB @ evs
    \<Longrightarrow> exAct P L S a b (cA, cB, (lit, data) # qA, qB) [(a, lit, r, evs)] (cA, cB', qA, qB)"
| swap: "exAct P L S b a (cB, cA, qB, qA) l (cB', cA', qB', qA')
    \<Longrightarrow> exAct P L S a b (cA, cB, qA, qB) l (cA', cB', qA', qB')"

inductive exchange :: "prims \<Rightarrow> libs \<Rightarrow> saltyLib \<Rightarrow> bytes \<Rightarrow> bytes \<Rightarrow> exState \<Rightarrow> delivery list \<Rightarrow> exState \<Rightarrow> bool" for P L S a b s where
  start: "exchange P L S a b s [] s"
| more: "exchange P L S a b s l s' \<Longrightarrow> exAct P L S a b s' l' s'' \<Longrightarrow> exchange P L S a b s (l @ l') s''"

text \<open>
  What a delivery should look like: the text arrives as it was sent, from the right peer, and is reported
  as what the parser makes of it. There is no law that the parser accepts the literals \<open>newSaltyText\<close>
  builds: for a literal it refuses there is no event, as in the code.
\<close>

definition delivered :: "saltyLib \<Rightarrow> delivery \<Rightarrow> bool" where
  "delivered S = (\<lambda>(a, lit, r, evs). r = None \<and> (\<exists>i. evs = (case parseSalty S lit of
       Inr (TextMsg m) \<Rightarrow> [OnMessageReceived i a lit m]
     | Inr (EventMsg m) \<Rightarrow> [OnEventReceived i a lit m] | _ \<Rightarrow> [])))"

section \<open>The invariant of an exchange\<close>

definition party :: "libs \<Rightarrow> bytes \<Rightarrow> bytes \<Rightarrow> bytes \<Rightarrow> node \<Rightarrow> PeerSession \<Rightarrow> Session \<Rightarrow> doubleRatchet \<Rightarrow> bool" where
  "party L self k them c p x dr \<longleftrightarrow> managerInv self k (clManager c)
     \<and> keeps (diskManager L) (\<lambda>w. libsLaw L \<and> noFault w) (sessionhash L self) k (clManager c) them p
     \<and> talking p x dr \<and> Name p = them \<and> dr_chainKeySend dr \<noteq> None"

definition points :: "libs \<Rightarrow> bytes \<Rightarrow> Session \<Rightarrow> PeerSession \<Rightarrow> bool" where
  "points L other x p \<longleftrightarrow> length (RemoteUUID x) = 16
     \<and> sessionhash L other (RemoteUUID x) = sessionhash L other (localID p)"

definition toSession :: "libs \<Rightarrow> bytes \<Rightarrow> PeerSession \<Rightarrow> bytes \<Rightarrow> bool" where
  "toSession L self p msg \<longleftrightarrow> (\<exists>d. unmarshalMessage msg = Inr (sessData, DataM d) \<and> length (d_uuid d) = 16
     \<and> sessionhash L self (d_uuid d) = sessionhash L self (localID p))"

fun exInv :: "prims \<Rightarrow> libs \<Rightarrow> bytes \<Rightarrow> bytes \<Rightarrow> bytes \<Rightarrow> bytes \<Rightarrow> exState \<Rightarrow> bool" where
  "exInv P L a ka b kb (cA, cB, qA, qB) \<longleftrightarrow>
     (\<exists>pA xA drA pB xB drB. party L a ka b cA pA xA drA \<and> party L b kb a cB pB xB drB
       \<and> points L b xA pB \<and> points L a xB pA \<and> linked P (drA, drB, payloads qA, payloads qB)
       \<and> (\<forall>m \<in> set qA. toSession L b pB (snd m)) \<and> (\<forall>m \<in> set qB. toSession L a pA (snd m)))"

declare linked.simps [simp del]

lemma exInv_swap: "exInv P L b kb a ka (cB, cA, qB, qA) = exInv P L a ka b kb (cA, cB, qA, qB)"
  unfolding exInv.simps using linked_swap by blast

lemma points_same: "sameParty p p' \<Longrightarrow> points L other x p' = points L other x p"
  by (simp add: points_def sameParty_localID)

lemma toSession_same: "sameParty p p' \<Longrightarrow> toSession L self p' = toSession L self p"
  by (simp add: toSession_def sameParty_localID fun_eq_iff)

lemma points_remote: "RemoteUUID x' = RemoteUUID x \<Longrightarrow> points L other x' p = points L other x p"
  by (simp add: points_def)

lemma keeps_sameStore:
  assumes "keeps (diskManager L) good slot k s them p" and "sameStore s s'"
  shows "keeps (diskManager L) good slot k s' them p"
  using assms(1) sameStore_get [OF assms(2)] sameStore_byName [OF assms(2)] by (simp add: keeps_def)

lemma party_sameStore:
  assumes "party L self k them c p x dr" and "sameStore (clManager c) (clManager c')" and "managerInv self k (clManager c')"
  shows "party L self k them c' p x dr"
  using assms(1,3) keeps_sameStore [OF _ assms(2)] unfolding party_def by blast

lemma exInv_sameStore:
  assumes "exInv P L a ka b kb (cA, cB, qA, qB)" and "sameStore (clManager cA) (clManager cA')"
    and "managerInv a ka (clManager cA')"
  shows "exInv P L a ka b kb (cA', cB, qA, qB)"
  using assms(1) party_sameStore [OF _ assms(2,3)] unfolding exInv.simps by blast

lemma exInv_send:
  assumes laws: "aesLaw P" "hmacLaw P" "dhLaw P" and w: "goodIo L w"
    and s: "clientSend (diskManager L) P S w cA b text events = (cA', None)"
    and ev: "clEvents cA' = clEvents cA @ [OnMessageSent i b lit m data]"
    and inv: "exInv P L a ka b kb (cA, cB, qA, qB)"
  shows "exInv P L a ka b kb (cA', cB, qA @ [(lit, data)], qB)"
proof -
  from inv obtain pA xA drA pB xB drB where A: "party L a ka b cA pA xA drA" and B: "party L b kb a cB pB xB drB"
    and pt: "points L b xA pB" "points L a xB pA" and l: "linked P (drA, drB, payloads qA, payloads qB)"
    and q: "\<forall>m \<in> set qA. toSession L b pB (snd m)" "\<forall>m \<in> set qB. toSession L a pA (snd m)"
    by auto
  have g: "libsLaw L \<and> noFault w" "saneUlid w" "\<forall>u. length (ioSetTime w u) = 16"
    using w by (simp_all add: goodIo_def ulidLaw_def)
  have A': "managerInv a ka (clManager cA)"
    "keeps (diskManager L) (\<lambda>w. libsLaw L \<and> noFault w) (sessionhash L a) ka (clManager cA) b pA"
    "talking pA xA drA" "Name pA = b"
    using A by (simp_all add: party_def)
  from dsm.client_send [OF g(1,2) A'(1-3) s g(3)] obtain p1 x1 dr1 dr2 msgID m' data' st where
    same: "sameParty pA p1" and t: "talking p1 x1 dr1" and rr: "restoredRatchet (Some drA) (Some dr1)"
    and e: "Encrypt P (ioRand w 0) dr1 (Literal m') = (dr2, Inr (payloadOf data'))"
    and un: "unmarshalMessage data' =
      Inr (sessData, DataM \<lparr>d_uuid = encTime (ioSetTime w) (RemoteUUID x1), d_payload = payloadOf data'\<rparr>)"
    and put: "mPut (diskManager L) w st (p1\<lparr>inner := Some (x1\<lparr>ratchet := Some dr2\<rparr>)\<rparr>) = (clManager cA', None)"
    and i: "managerInv a ka st" and n: "\<forall>w. snd (mByName (diskManager L) w st b) = localID pA"
    and ev': "clEvents cA' = clEvents cA @ [OnMessageSent msgID b (Literal m') m' data']"
    by metis
  have eq: "lit = Literal m'" "data = data'" using ev ev' by auto
  let ?p = "p1\<lparr>inner := Some (x1\<lparr>ratchet := Some dr2\<rparr>)\<rparr>" and ?x = "x1\<lparr>ratchet := Some dr2\<rparr>"
  have t2: "talking ?p ?x dr2" and same2: "sameParty pA ?p"
    using talking_update [OF t] sameParty_trans [OF same] by simp_all
  have "linked P (dr1, drB, payloads qA, payloads qB)" using l rr by (rule linked_restore)
  moreover have "dr_prevSendNo dr1 = 0" using rr by auto
  ultimately have l2: "linked P (dr2, drB, payloads (qA @ [(lit, data)]), payloads qB)"
    using linked_send [OF laws _ e] eq by simp
  have ps: "peerStorable ?p" using t2 linked_storable [OF laws(2) l2] by (intro talking_storable) auto
  have A2: "party L a ka b cA' ?p ?x dr2"
    using dsm.keeps_put [OF i ps put] n sameParty_localID [OF same2] dsm.inv_put [OF i put] t2 A'(4) same
      Encrypt_sending [OF e]
    by (simp add: party_def sameParty_def)
  have rem: "RemoteUUID ?x = RemoteUUID xA"
    using same A'(3) t by (simp add: sameParty_def talking_def)
  have "length (goCopy 16 (RemoteUUID x1)) = 16" by simp
  then have "toSession L b pB data"
    using pt(1) rem un eq(2) g(3) sessionhash_setTime [of L w] w
    by (simp add: toSession_def points_def encTime_def goodIo_def)
  with q(1) have q1: "\<forall>m \<in> set (qA @ [(lit, data)]). toSession L b pB (snd m)" by auto
  have "points L b ?x pB" using pt(1) points_remote [OF rem] by blast
  moreover have "points L a xB ?p" "\<forall>m \<in> set qB. toSession L a ?p (snd m)"
    using pt(2) q(2) points_same [OF same2] toSession_same [OF same2] by simp_all
  ultimately show ?thesis unfolding exInv.simps using A2 B l2 q1 by blast
qed

text \<open>The session that is stored for a name has room in its message counter.\<close>

definition roomFor :: "libs \<Rightarrow> io \<Rightarrow> node \<Rightarrow> bytes \<Rightarrow> bool" where
  "roomFor L w c them \<longleftrightarrow> (\<forall>p x dr.
     mGet (diskManager L) w (clManager c) (snd (mByName (diskManager L) w (clManager c) them)) = Inr p
     \<longrightarrow> inner p = Some x \<longrightarrow> ratchet x = Some dr \<longrightarrow> dr_sendNo dr < 65536)"

lemma party_room:
  assumes "party L self k them c p x dr" and "goodIo L w"
  shows "roomFor L w c them \<longleftrightarrow> dr_sendNo dr < 65536"
proof -
  have g: "libsLaw L \<and> noFault w" using assms(2) by (simp add: goodIo_def)
  have A: "talking p x dr" "keeps (diskManager L) (\<lambda>w. libsLaw L \<and> noFault w) (sessionhash L self) k (clManager c) them p"
    using assms(1) by (simp_all add: party_def)
  from A(2) g obtain p' where r: "restoredPeer k p p'"
    and m: "mGet (diskManager L) w (clManager c) (snd (mByName (diskManager L) w (clManager c) them)) = Inr p'"
    unfolding keeps_def by metis
  from r A(1) obtain x' dr' where t: "talking p' x' dr'" and rr: "restoredRatchet (Some dr) (Some dr')"
    by (rule restored_talking)
  have "dr_sendNo dr' = dr_sendNo dr" using rr by auto
  with m t show ?thesis by (auto simp: roomFor_def talking_def)
qed

lemma keeps_keys:
  assumes "party L self k them c p x dr" and "unusedKey P L w f c" and "libsLaw L \<and> noFault w"
  shows "x25519_base P (map f [0..<32]) \<noteq> r_dhPub (dr_dhr dr) \<and> x25519_base P (map f [0..<32]) \<noteq> dr_peerDhPub dr"
proof -
  from assms(1,3) obtain p' where g: "mGet (diskManager L) w (clManager c) (localID p) = Inr p'"
    and r: "restoredPeer k p p'"
    unfolding party_def keeps_def by blast
  have "talking p x dr" using assms(1) by (simp add: party_def)
  with r obtain x' dr' where "talking p' x' dr'" "restoredRatchet (Some dr) (Some dr')"
    by (rule restored_talking)
  moreover from this(1) g assms(2) have
    "x25519_base P (map f [0..<32]) \<noteq> r_dhPub (dr_dhr dr') \<and> x25519_base P (map f [0..<32]) \<noteq> dr_peerDhPub dr'"
    unfolding unusedKey_def talking_def by blast
  ultimately show ?thesis by auto
qed

lemma exInv_receive:
  assumes laws: "aesLaw P" "hmacLaw P" "dhLaw P" and w: "goodIo L w" and f: "ioRand w 0 = RandOk f"
    and un: "unusedKey P L w f cA" "unusedKey P L w f cB"
    and h: "handleRatchet (diskManager L) P L S w q data cB = (cB', r)"
    and ev: "clEvents cB' = clEvents cB @ evs"
    and inv: "exInv P L a ka b kb (cA, cB, (lit, data) # qA, qB)"
  shows "exInv P L a ka b kb (cA, cB', qA, qB) \<and> delivered S (a, lit, r, evs)"
proof -
  from inv obtain pA xA drA pB xB drB where A: "party L a ka b cA pA xA drA" and B: "party L b kb a cB pB xB drB"
    and pt: "points L b xA pB" "points L a xB pA"
    and l: "linked P (drA, drB, (lit, payloadOf data) # payloads qA, payloads qB)"
    and t: "toSession L b pB data"
    and qs: "\<forall>m \<in> set qA. toSession L b pB (snd m)" "\<forall>m \<in> set qB. toSession L a pA (snd m)"
    by auto
  have g: "libsLaw L \<and> noFault w" "ioLock w = None" using w by (simp_all add: goodIo_def)
  have B': "managerInv b kb (clManager cB)"
    "keeps (diskManager L) (\<lambda>w. libsLaw L \<and> noFault w) (sessionhash L b) kb (clManager cB) a pB"
    "talking pB xB drB" "Name pB = a"
    using B by (simp_all add: party_def)
  from t obtain d where d: "unmarshalMessage data = Inr (sessData, DataM d)"
    "sessionhash L b (d_uuid d) = sessionhash L b (localID pB)" "length (d_uuid d) = 16"
    by (auto simp: toSession_def)
  have pd: "payloadOf data = d_payload d" using d(1) by (simp add: payloadOf_def)
  note keys = keeps_keys [OF A un(1) g(1)] keeps_keys [OF B un(2) g(1)]
  have step: "\<exists>dr2. Decrypt P (ioRand w 0) dr1 (d_payload d) = (dr2, Inr lit)
      \<and> linked P (drA, dr2, payloads qA, payloads qB)"
    if "restoredRatchet (Some drB) (Some dr1)" for dr1
  proof -
    have "linked P (drB, drA, payloads qB, (lit, payloadOf data) # payloads qA)" using l linked_swap by blast
    then have "linked P (dr1, drA, payloads qB, (lit, payloadOf data) # payloads qA)"
      using that by (rule linked_restore)
    then have "linked P (drA, dr1, (lit, payloadOf data) # payloads qA, payloads qB)" using linked_swap by blast
    moreover have "x25519_base P (map f [0..<32]) \<noteq> r_dhPub (dr_dhr dr1)" using keys(2) that by auto
    ultimately show ?thesis using linked_receive [OF laws] keys(1) f pd by simp
  qed
  have st: "\<exists>dr2. Decrypt P (ioRand w 0) dr1 (d_payload d) = (dr2, Inr lit) \<and> kbInv (dr_msgKeyBuffer dr2) \<and> keysPresent dr2"
    if "restoredRatchet (Some drB) (Some dr1)" for dr1
    using step [OF that] linked_storable [OF laws(2)] by blast
  from dsm.client_receive [OF g B'(1-3) d st, of L S q] obtain c' p1 x1 dr1 dr2 where
    h': "handleRatchet (diskManager L) P L S w q data cB = (c', None)"
    and same: "sameParty pB p1" and t1: "talking p1 x1 dr1" and rr: "restoredRatchet (Some drB) (Some dr1)"
    and dec: "Decrypt P (ioRand w 0) dr1 (d_payload d) = (dr2, Inr lit)"
    and i: "managerInv b kb (clManager c')"
    and k: "keeps (diskManager L) (\<lambda>w. libsLaw L \<and> noFault w) (sessionhash L b) kb (clManager c') a
        (p1\<lparr>inner := Some (x1\<lparr>ratchet := Some dr2\<rparr>)\<rparr>)"
    and evs: "clEvents c' = clEvents cB @ (case parseSalty S lit of
        Inr (TextMsg m) \<Rightarrow> [OnMessageReceived (d_uuid d) (Name pB) lit m]
      | Inr (EventMsg m) \<Rightarrow> [OnEventReceived (d_uuid d) (Name pB) lit m] | _ \<Rightarrow> [])"
    by metis
  have eq: "c' = cB'" "r = None" using h h' by simp_all
  let ?p = "p1\<lparr>inner := Some (x1\<lparr>ratchet := Some dr2\<rparr>)\<rparr>" and ?x = "x1\<lparr>ratchet := Some dr2\<rparr>"
  have t2: "talking ?p ?x dr2" and same2: "sameParty pB ?p"
    using talking_update [OF t1] sameParty_trans [OF same] by simp_all
  have "dr_chainKeySend dr1 \<noteq> None" using B rr by (auto simp: party_def)
  with dec have "dr_chainKeySend dr2 \<noteq> None" by (rule Decrypt_sending)
  then have B2: "party L b kb a cB' ?p ?x dr2"
    using i k t2 B'(4) same eq by (simp add: party_def sameParty_def)
  have rem: "RemoteUUID ?x = RemoteUUID xB"
    using same B'(3) t1 by (simp add: sameParty_def talking_def)
  have l2: "linked P (drA, dr2, payloads qA, payloads qB)" using step [OF rr] dec by auto
  have "points L a ?x pA" using pt(2) points_remote [OF rem] by blast
  moreover have "points L b xA ?p" "\<forall>m \<in> set qA. toSession L b ?p (snd m)"
    using pt(1) qs(1) points_same [OF same2] toSession_same [OF same2] by simp_all
  ultimately have "exInv P L a ka b kb (cA, cB', qA, qB)"
    unfolding exInv.simps using A B2 l2 qs(2) by blast
  moreover have "delivered S (a, lit, r, evs)"
    using evs ev eq B'(4) by (auto simp: delivered_def)
  ultimately show ?thesis ..
qed

lemma exAct_inv:
  assumes "exAct P L S a b s l s'" and "aesLaw P" and "hmacLaw P" and "dhLaw P" and "exInv P L a ka b kb s"
  shows "exInv P L a ka b kb s' \<and> list_all (delivered S) l"
  using assms
proof (induction arbitrary: ka kb rule: exAct.induct)
  case (send w cA b t es cA' i lit m data a cB qA qB)
  then show ?case using exInv_send by simp
next
  case (receive w f cA cB q data cB' r evs a b lit qA qB)
  then show ?case using exInv_receive by simp
next
  case (swap b a cB cA qB qA l cB' cA' qB' qA')
  then have "exInv P L b kb a ka (cB, cA, qB, qA)" by (subst exInv_swap)
  with swap have "exInv P L b kb a ka (cB', cA', qB', qA') \<and> list_all (delivered S) l" by blast
  then show ?case using exInv_swap by blast
qed

lemma exchange_inv:
  assumes "exchange P L S a b s l s'" and "aesLaw P" and "hmacLaw P" and "dhLaw P" and "exInv P L a ka b kb s"
  shows "exInv P L a ka b kb s' \<and> list_all (delivered S) l"
  using assms
proof (induction rule: exchange.induct)
  case (more l s' l' s'')
  then have "exInv P L a ka b kb s'" "list_all (delivered S) l" by blast+
  with exAct_inv [OF more.hyps(2)] more.prems show ?case by simp
qed simp

end
