(* ===== verification/Handshake.thy ===== *)
theory Handshake
  imports Exchange
begin

text \<open>
  The handshake of two clients: a chat is started with a sealed offer, the other client stores its
  answer, sends it when its user starts the chat, and the first client establishes the session.
  Afterwards the two clients satisfy the invariant of theory \<open>Exchange\<close>.
\<close>

section \<open>The four steps\<close>

text \<open>The protocol session of \<open>NewSession\<close>.\<close>

definition freshSession :: "bytes \<Rightarrow> bytes \<Rightarrow> bytes \<Rightarrow> Addr \<Rightarrow> Session" where
  "freshSession u self k addr = zeroSession\<lparr>IdentityKey := k, Me := self, LocalUUID := u,
     VerifyPeer := (\<lambda>p. p = addrKey addr)\<rparr>"

lemma NewSession_eq:
  "NewSession u self k n addr = \<lparr>Name = n, PeerKey = addrKey addr, Endpoint = addrEndpoint addr,
     PendingAck = [], inner = Some (freshSession u self k addr)\<rparr>"
  by (simp add: NewSession_def SetPeerKey_def zeroPeerSession_def freshSession_def)

lemma freshSession_fields [simp]:
  "IdentityKey (freshSession u self k addr) = k" "Me (freshSession u self k addr) = self"
  "LocalUUID (freshSession u self k addr) = u" "ratchet (freshSession u self k addr) = None"
  "VerifyPeer (freshSession u self k addr) = (\<lambda>p. p = addrKey addr)"
  by (simp_all add: freshSession_def zeroSession_def)

text \<open>A session without a ratchet is restored as it was.\<close>

lemma restored_inactive:
  assumes "restoredPeer k p p'" and "inner p = Some x" and "ratchet x = None" and "IdentityKey x = k"
    and "VerifyPeer x = (\<lambda>q. q = PeerKey p)"
  shows "p' = p"
proof -
  have "x\<lparr>IdentityKey := k, VerifyPeer := (\<lambda>q. q = PeerKey p), ratchet := None\<rparr> = x"
    using assms(3-5) by (cases x) simp
  with assms show ?thesis by (cases p) (auto simp: restoredPeer_def)
qed

lemma restored_clear:
  assumes "restoredPeer k p p'"
  shows "restoredPeer k (p\<lparr>PendingAck := []\<rparr>) (p'\<lparr>PendingAck := []\<rparr>)"
proof -
  from assms obtain x r where "inner p = Some x" "restoredRatchet (ratchet x) r"
    "p' = p\<lparr>inner := Some (x\<lparr>IdentityKey := (if ratchet x = None then k else []),
       VerifyPeer := (\<lambda>q. q = PeerKey p), ratchet := r\<rparr>)\<rparr>"
    unfolding restoredPeer_def by blast
  then show ?thesis unfolding restoredPeer_def by (intro exI [of _ x] exI [of _ r]) (cases p; simp)
qed

context session_manager
begin

lemma client_offer:
  assumes "good w" and "sane w" and "ioLock w = None" and "ioPost w = None" and "inv (clManager c)"
    and "mByName M w (clManager c) them = (s, u)" and "mGet M w s u = Inl e" and "isNotExist e"
    and "ioLookup w them = Inr addr" and "length (addrKey addr) = 32"
    and "createOffer P (ioRand w 0) (freshSession u self ident addr) = (A1, Inr offer)"
    and "Seal P (ioSeal w) (OfferM offer) (x25519Public L (addrKey addr)) = Inr sealed"
    and "1 < length sealed" and "ratchet A1 = None" and "LocalUUID A1 = u"
  obtains c' msg where "clientChat M P L w late c them = (c', False, None)"
    and "clPosts c' = clPosts c @ [(addrEndpoint addr, msg)]"
    and "unmarshalMessage msg = Inr (sessSealed, SealedM sealed)" and "inv (clManager c')"
    and "keeps M good slot ident (clManager c') them ((NewSession u self ident them addr)\<lparr>inner := Some A1\<rparr>)"
    and "clEvents c' = clEvents c @ [OnOfferSent u them msg]"
proof -
  have i: "inv s" and u: "length u = 16" using inv_byName [OF assms(5,2,6)] by simp_all
  have b: "mByName M w' s them = (s, u)" for w' using byName_again [OF assms(6)] by simp
  let ?p = "(NewSession u self ident them addr)\<lparr>inner := Some A1\<rparr>"
  have n: "mNew M w s them = (s, Inr (NewSession u self ident them addr))" using i assms(9) b by (rule new_ok)
  have "msgValid (SealedM sealed)" using assms(13) by simp
  then obtain msg where m: "marshalMessage sessSealed (SealedM sealed) = Inr msg"
    "unmarshalMessage msg = Inr (sessSealed, SealedM sealed)" by (rule transport) simp
  have o: "peerOffer P L (ioRand w 0) (ioSeal w) (NewSession u self ident them addr) = (?p, Inr msg)"
    using assms(11,12) m(1) by (simp add: peerOffer_def OfferSealed_def NewSession_eq)
  have ps: "peerStorable ?p" using assms(10,14) by (simp add: peerStorable_def storable_def NewSession_eq)
  obtain s' where put: "mPut M w s ?p = (s', None)" using put_ok [OF ps assms(1)] by blast
  have id: "localID ?p = u" using assms(15) u by (simp add: localID_def toULID_def)
  let ?c = "c\<lparr>clManager := s', clPosts := clPosts c @ [(addrEndpoint addr, msg)],
      clEvents := clEvents c @ [OnOfferSent u them msg]\<rparr>"
  have "startChat M P L w (c\<lparr>clManager := s\<rparr>) them = (?c, None)"
    using n o put assms(4) id
    by (simp add: startChat_def sendMsg_def putSession_def dispatch_def NewSession_eq)
  then have ch: "clientChat M P L w late c them = (?c, False, None)"
    using assms(3,6-8) by (simp add: clientChat_def)
  have k: "keeps M good slot ident (clManager ?c) them ?p"
    using keeps_put [OF i ps put] b id by simp
  have i': "inv (clManager ?c)" using inv_put [OF i put] by simp
  show thesis by (rule that [OF ch _ m(2) i' k]) simp_all
qed

lemma client_offered:
  assumes "good w" and "sane w" and "ioLock w = None" and "inv (clManager c)"
    and "unmarshalMessage msg = Inr (sessSealed, SealedM sealed)"
    and "Unseal P sealed (x25519Private L ident) (x25519Own L ident) = Inr (OfferM offer)"
    and "ioLookup w (o_nick offer) = Inr addr" and "length (addrKey addr) = 32"
    and "mByName M w (clManager (setPos M q c)) (o_nick offer) = (s, u)"
    and "receiveOffer P (ioRand w) (freshSession u self ident addr) offer = (B1, True, ackMsg, None)"
    and "ackMsg \<noteq> []" and "storable B1" and "LocalUUID B1 = u"
  obtains c' where "handleRatchet M P L S w q msg c = (c', None)" and "inv (clManager c')"
    and "clPosts c' = clPosts c"
    and "keeps M good slot ident (clManager c') (o_nick offer)
      ((NewSession u self ident (o_nick offer) addr)\<lparr>inner := Some B1, PendingAck := ackMsg\<rparr>)"
    and "\<exists>i. clEvents c' = clEvents c @ [OnOfferReceived i (o_nick offer) ackMsg, OnSessionStarted i (o_nick offer)]"
proof -
  let ?c = "setPos M q c" and ?n = "o_nick offer"
  let ?p = "(NewSession u self ident ?n addr)\<lparr>inner := Some B1, PendingAck := ackMsg\<rparr>"
  have ic: "inv (clManager ?c)" using assms(4) inv_setPosition by (auto simp: setPos_def split: option.split)
  have i: "inv s" and u: "length u = 16" using inv_byName [OF ic assms(2,9)] by simp_all
  have b: "mByName M w' s ?n = (s, u)" for w' using byName_again [OF assms(9)] by simp
  have n: "mNew M w (clManager ?c) ?n = (s, Inr (NewSession u self ident ?n addr))"
    using ic assms(7,9) by (rule new_ok)
  have ps: "peerStorable ?p" using assms(8,12) by (simp add: peerStorable_def NewSession_eq)
  obtain s' where put: "mPut M w s ?p = (s', None)" using put_ok [OF ps assms(1)] by blast
  have id: "localID ?p = u" using assms(13) u by (simp add: localID_def toULID_def)
  have us: "unsealMsg M P L ?c (SealedM sealed) = Inr (OfferM offer)"
    using assms(6) identity [OF ic] by (simp add: unsealMsg_def Let_def)
  have rm: "peerReceiveMsg P (ioRand w) (NewSession u self ident ?n addr) (OfferM offer) = (?p, True, False, [], None)"
    using assms(10) by (simp add: peerReceiveMsg_def ReceiveMsg_def NewSession_eq)
  obtain c' where c': "ratchetBody M P L S w q i (SealedM sealed) c = (c', None)" "clManager c' = s'"
    "clPosts c' = clPosts c"
    "clEvents c' = clEvents c @ [OnOfferReceived (toULID (o_uuid offer)) ?n ackMsg, OnSessionStarted (toULID (o_uuid offer)) ?n]" for i
    using us n rm put assms(11)
    by (auto simp: ratchetBody_def sessionFor_def putSession_def afterReceive_def dispatch_def Let_def NewSession_eq
        setPos_def split: option.splits)
  then have h: "handleRatchet M P L S w q msg c = (c', None)"
    using dataMsg_ratchet [OF assms(5)] assms(3,5)
    by (simp add: handleRatchet_def readMsg_def Parse_def Use_def)
  have k: "keeps M good slot ident (clManager c') ?n ?p"
    using keeps_put [OF i ps put] b id c'(2) by simp
  have i': "inv (clManager c')" using inv_put [OF i put] c'(2) by simp
  show thesis by (rule that [OF h i' c'(3) k]) (use c'(4) in blast)
qed

lemma client_accept:
  assumes "good w" and "sane w" and "ioLock w = None" and "ioPost w = None" and "inv (clManager c)"
    and "keeps M good slot ident (clManager c) them p" and "PendingAck p \<noteq> []"
    and "talking (p\<lparr>PendingAck := []\<rparr>) x dr" and "keysPresent dr"
  obtains c' p1 x1 dr1 where "clientChat M P L w late c them = (c', late, None)"
    and "clPosts c' = clPosts c @ [(Endpoint p, PendingAck p)]"
    and "sameParty p p1" and "talking p1 x1 dr1" and "restoredRatchet (Some dr) (Some dr1)"
    and "inv (clManager c')" and "keeps M good slot ident (clManager c') them p1"
    and "clEvents c' = clEvents c @ [OnSessionStarted (localID p) them]"
proof -
  obtain s u where b: "mByName M w (clManager c) them = (s, u)" by fastforce
  have u: "u = localID p" and k: "keeps M good slot ident s them p" using keeps_byName [OF assms(6) b] by simp_all
  have i: "inv s" using inv_byName [OF assms(5,2) b] by simp
  from k assms(1) u obtain p' where g: "mGet M w s u = Inr p'" and r: "restoredPeer ident p p'"
    unfolding keeps_def by blast
  let ?p = "p'\<lparr>PendingAck := []\<rparr>"
  have "restoredPeer ident (p\<lparr>PendingAck := []\<rparr>) ?p" using r by (rule restored_clear)
  then obtain x1 dr1 where t: "talking ?p x1 dr1" and rr: "restoredRatchet (Some dr) (Some dr1)"
    using assms(8) by (rule restored_talking)
  have same: "sameParty p ?p" using restoredPeer_sameParty [OF r] by (simp add: sameParty_def)
  have pa: "PendingAck p' = PendingAck p" using r by (auto simp: restoredPeer_def)
  have "kbInv (dr_msgKeyBuffer dr1)" "keysPresent dr1"
    using rr assms(9) by (auto simp: restoredBuffer_def keysPresent_def)
  with t have ps: "peerStorable ?p" by (rule talking_storable)
  obtain s' where put: "mPut M w s ?p = (s', None)" using put_ok [OF ps assms(1)] by blast
  let ?c = "c\<lparr>clManager := s', clPosts := clPosts c @ [(Endpoint p, PendingAck p)],
      clEvents := clEvents c @ [OnSessionStarted (localID ?p) them]\<rparr>"
  have "Endpoint p' = Endpoint p" using same by (simp add: sameParty_def)
  then have ch: "clientChat M P L w late c them = (?c, late, None)"
    using assms(3,4,7) b g put pa
    by (simp add: clientChat_def sendMsg_def putSession_def dispatch_def Let_def)
  have "\<forall>w. snd (mByName M w s them) = localID ?p"
    using k sameParty_localID [OF same] by (simp add: keeps_def)
  then have k': "keeps M good slot ident (clManager ?c) them ?p" using keeps_put [OF i ps put] by simp
  have i': "inv (clManager ?c)" using inv_put [OF i put] by simp
  show thesis by (rule that [OF ch _ same t rr i' k']) (use sameParty_localID [OF same] in simp_all)
qed

lemma client_acked:
  assumes "good w" and "ioLock w = None" and "inv (clManager c)" and "keeps M good slot ident (clManager c) them p"
    and "inner p = Some A1" and "ratchet A1 = None" and "IdentityKey A1 = ident"
    and "VerifyPeer A1 = (\<lambda>q. q = PeerKey p)" and "PendingAck p = []"
    and "unmarshalMessage msg = Inr (sessAck, AckM ack)" and "slot (a_uuid ack) = slot (localID p)"
    and "length (a_uuid ack) = 16"
    and "receiveAck P (ioRand w 0) A1 ack = (A2, True, None)" and "LocalUUID A2 = LocalUUID A1"
    and "peerStorable (p\<lparr>inner := Some A2\<rparr>)"
  obtains c' where "handleRatchet M P L S w q msg c = (c', None)" and "inv (clManager c')"
    and "keeps M good slot ident (clManager c') them (p\<lparr>inner := Some A2\<rparr>)"
    and "clEvents c' = clEvents c @ [OnSessionStarted (a_uuid ack) (Name p)]" and "clPosts c' = clPosts c"
proof -
  let ?c = "setPos M q c" and ?p = "p\<lparr>inner := Some A2\<rparr>"
  note sp = setPos_manager [OF assms(3,4), of q]
  from sp(2) assms(1,11) obtain p1 where g: "mGet M w (clManager ?c) (a_uuid ack) = Inr p1"
    and r: "restoredPeer ident p p1"
    unfolding keeps_def by blast
  have p1: "p1 = p" using r assms(5-8) by (rule restored_inactive)
  have rm: "peerReceiveMsg P (ioRand w) p (AckM ack) = (?p, True, False, [], None)"
    using assms(5,9,13) by (cases p) (simp add: peerReceiveMsg_def ReceiveMsg_def)
  obtain s where put: "mPut M w (clManager ?c) ?p = (s, None)" using put_ok [OF assms(15,1)] by blast
  let ?c' = "?c\<lparr>clManager := s, clEvents := clEvents ?c @ [OnSessionStarted (a_uuid ack) (Name p)]\<rparr>"
  have "ratchetBody M P L S w q (goCopy 16 (a_uuid ack)) (AckM ack) c = (?c', None)"
    using g p1 rm put assms(9,12)
    by (simp add: ratchetBody_def unsealMsg_def sessionFor_def putSession_def afterReceive_def dispatch_def
        toULID_def Let_def)
  then have h: "handleRatchet M P L S w q msg c = (?c', None)"
    using dataMsg_ratchet [OF assms(10)] assms(2,10)
    by (simp add: handleRatchet_def readMsg_def Parse_def Use_def)
  have "localID ?p = localID p" using assms(5,14) by (simp add: localID_def)
  then have n: "\<forall>w. snd (mByName M w (clManager ?c) them) = localID ?p" using sp(2) by (simp add: keeps_def)
  have k: "keeps M good slot ident (clManager ?c') them ?p"
    using keeps_put [OF sp(1) assms(15) put n] by simp
  have i: "inv (clManager ?c')" using inv_put [OF sp(1) put] by simp
  show thesis by (rule that [OF h i k]) (simp_all add: sp(3,4))
qed

end

section \<open>From the handshake to the exchange\<close>

text \<open>The conversions of package \<open>keys\<close> and the sealed boxes fit the identity key \<open>k\<close>.\<close>

definition sealing :: "prims \<Rightarrow> libs \<Rightarrow> bytes \<Rightarrow> bool" where
  "sealing P L k \<longleftrightarrow> x25519Public L (edPublic k) = x25519Own L k \<and> sealLaw P (x25519Own L k) (x25519Private L k)
     \<and> (\<forall>f m. 1 < length (seal_anonymous P f m (x25519Own L k)))"

lemma Seal_length: "Seal P (RandOk f) m k = Inr s \<Longrightarrow> \<exists>data. s = seal_anonymous P f data k"
  by (auto simp: Seal_def split: sum.splits)

lemma edKey_public: "edKey P k \<Longrightarrow> length (edPublic k) = 32"
  by (simp add: edKey_def edPublic_def)

text \<open>No session for a name is stored.\<close>

definition noSession :: "libs \<Rightarrow> io \<Rightarrow> DiskSessionManager \<times> disk \<Rightarrow> bytes \<Rightarrow> bool" where
  "noSession L w = (\<lambda>(sm, d) them. d (sessionhash L (smMe sm) (snd (ByName w sm them))) = None)"

lemma noSession_get:
  assumes "noSession L w st them" and "noFault w" and "mByName (diskManager L) w st them = (s, u)"
  shows "\<exists>e. mGet (diskManager L) w s u = Inl e \<and> isNotExist e"
proof -
  obtain sm d where st: "st = (sm, d)" by force
  obtain sm' where b: "ByName w sm them = (sm', u)" and s: "s = (sm', d)"
    using assms(3) by (auto simp: st diskManager_def split: prod.splits)
  have "d (sessionhash L (smMe sm') u) = None"
    using assms(1) b ByName_fixed [OF b] by (simp add: noSession_def st)
  then show ?thesis using assms(2) by (simp add: s diskManager_def Get_def noFault_def)
qed

text \<open>The two stored sessions after the handshake.\<close>

lemma handshake_exInv:
  assumes "hmacLaw P" and "paired P drA drB [] []" and "dr_sendNo drA = 0" and "dr_recvNo drA = dr_sendNo drB"
    and "restoredRatchet (Some drB) (Some drB')"
    and "party L a ka b cA pA xA drA" and "party L b kb a cB pB xB drB'"
    and "points L b xA pB" and "points L a xB pA"
  shows "exInv P L a ka b kb (cA, cB, [], [])"
proof -
  have "linked P (drA, drB, [], [])" using assms(2-4) by (rule paired_linked)
  then have "linked P (drB, drA, [], [])" using linked_swap by blast
  then have "linked P (drB', drA, [], [])" using assms(5) by (rule linked_restore)
  then have "linked P (drA, drB', payloads [], payloads [])" using linked_swap by simp
  moreover have "\<forall>m \<in> set []. toSession L b pB (snd m)" "\<forall>m \<in> set []. toSession L a pA (snd m)" by simp_all
  ultimately show ?thesis unfolding exInv.simps using assms(6-9) by blast
qed

text \<open>The messages of a handshake between the protocol sessions of two fresh peers.\<close>

record shakeMsgs =
  hsA1 :: Session
  hsSealed :: bytes
  hsOffer :: offerMessage
  hsB1 :: Session
  hsAckMsg :: bytes
  hsAck :: ackMessage
  hsA2 :: Session

definition shakes :: "prims \<Rightarrow> libs \<Rightarrow> bytes \<Rightarrow> bytes \<Rightarrow> Session \<Rightarrow> Session \<Rightarrow> entropy \<Rightarrow> entropy \<Rightarrow> reads \<Rightarrow> entropy \<Rightarrow> shakeMsgs \<Rightarrow> bool" where
  "shakes P L kA kB A B r1 rs r2 r4 h \<longleftrightarrow>
     createOffer P r1 A = (hsA1 h, Inr (hsOffer h)) \<and> o_nick (hsOffer h) = Me A
     \<and> Seal P rs (OfferM (hsOffer h)) (x25519Own L kB) = Inr (hsSealed h) \<and> 1 < length (hsSealed h)
     \<and> Unseal P (hsSealed h) (x25519Private L kB) (x25519Own L kB) = Inr (OfferM (hsOffer h))
     \<and> receiveOffer P r2 B (hsOffer h) = (hsB1 h, True, hsAckMsg h, None) \<and> hsAckMsg h \<noteq> []
     \<and> unmarshalMessage (hsAckMsg h) = Inr (sessAck, AckM (hsAck h)) \<and> a_uuid (hsAck h) = LocalUUID A
     \<and> receiveAck P r4 (hsA1 h) (hsAck h) = (hsA2 h, True, None)"

definition shaken :: "prims \<Rightarrow> Session \<Rightarrow> Session \<Rightarrow> shakeMsgs \<Rightarrow> doubleRatchet \<Rightarrow> doubleRatchet \<Rightarrow> bool" where
  "shaken P A B h drA drB \<longleftrightarrow>
     (\<exists>pub priv. hsA1 h = A\<lparr>spkPub := pub, spkPriv := priv\<rparr>)
     \<and> hsB1 h = B\<lparr>RemoteUUID := LocalUUID A, ratchet := Some drB, IdentityKey := []\<rparr>
     \<and> hsA2 h = (hsA1 h)\<lparr>spkPub := [], spkPriv := [], ratchet := Some drA, RemoteUUID := LocalUUID B, IdentityKey := []\<rparr>
     \<and> paired P drA drB [] [] \<and> dr_sendNo drA = 0 \<and> dr_sendNo drB = 1 \<and> dr_recvNo drA = 1"

lemma handshake_messages:
  assumes laws: "aesLaw P" "hmacLaw P" "dhLaw P" "sha512Law P" and ed: "edKey P kA" "edKey P kB"
    and seal: "sealing P L kB" and u: "length uA = 16" "length uB = 16"
    and addr: "addrKey addrB = edPublic kB" "addrKey addrA = edPublic kA"
    and fresh: "x25519_base P (map (f4 0) [0..<32]) \<noteq> x25519_base P (map (f1 0) [0..<32])"
  obtains h drA drB where
    "shakes P L kA kB (freshSession uA a kA addrB) (freshSession uB b kB addrA) (RandOk (f1 0)) (RandOk fs)
      (\<lambda>i. RandOk (f2 i)) (RandOk (f4 0)) h"
    and "shaken P (freshSession uA a kA addrB) (freshSession uB b kB addrA) h drA drB"
proof -
  let ?A = "freshSession uA a kA addrB" and ?B = "freshSession uB b kB addrA"
  have pre: "edKey P (IdentityKey ?A)" "edKey P (IdentityKey ?B)" "VerifyPeer ?A (edPublic (IdentityKey ?B))"
    "VerifyPeer ?B (edPublic (IdentityKey ?A))" "length (LocalUUID ?A) = 16" "length (LocalUUID ?B) = 16"
    "ratchet ?A = None"
    using ed addr u by simp_all
  obtain A1 o1 ackMsg ack drA drB where o: "createOffer P (RandOk (f1 0)) ?A = (A1, Inr o1)" "msgValid (OfferM o1)"
    and of: "o_nick o1 = Me ?A"
    and A1: "A1 = ?A\<lparr>spkPub := spkPub A1, spkPriv := spkPriv A1\<rparr>"
    and B1: "receiveOffer P (\<lambda>i. RandOk (f2 i)) ?B o1 =
      (?B\<lparr>RemoteUUID := LocalUUID ?A, ratchet := Some drB, IdentityKey := []\<rparr>, True, ackMsg, None)"
    and am: "unmarshalMessage ackMsg = Inr (sessAck, AckM ack)" "a_uuid ack = LocalUUID ?A"
    and A2: "receiveAck P (RandOk (f4 0)) A1 ack = (A1\<lparr>spkPub := [], spkPriv := [], ratchet := Some drA,
      RemoteUUID := LocalUUID ?B, IdentityKey := []\<rparr>, True, None)"
    and p: "paired P drA drB [] []" "dr_sendNo drB = 1" "dr_recvNo drA = 1" "dr_sendNo drA = 0"
    by (rule handshake_core [OF laws pre fresh, of f2])
  let ?pub = "x25519Own L kB"
  obtain sealed where se: "Seal P (RandOk fs) (OfferM o1) ?pub = Inr sealed"
    "Unseal P sealed (x25519Private L kB) ?pub = Inr (OfferM o1)"
    using unseal_seal [of P ?pub "x25519Private L kB" "OfferM o1" fs] o(2) seal by (auto simp: sealing_def)
  have sl: "1 < length sealed" using Seal_length [OF se(1)] seal by (auto simp: sealing_def)
  have ne: "ackMsg \<noteq> []" using am(1) by (auto simp: unmarshalMessage_eq hasPrefix_def Prefix_def)
  let ?h = "\<lparr>hsA1 = A1, hsSealed = sealed, hsOffer = o1,
    hsB1 = ?B\<lparr>RemoteUUID := LocalUUID ?A, ratchet := Some drB, IdentityKey := []\<rparr>, hsAckMsg = ackMsg, hsAck = ack,
    hsA2 = A1\<lparr>spkPub := [], spkPriv := [], ratchet := Some drA, RemoteUUID := LocalUUID ?B, IdentityKey := []\<rparr>\<rparr>"
  have "shakes P L kA kB ?A ?B (RandOk (f1 0)) (RandOk fs) (\<lambda>i. RandOk (f2 i)) (RandOk (f4 0)) ?h"
    unfolding shakes_def using o(1) of se sl B1 ne am A2 by simp
  moreover have "shaken P ?A ?B ?h drA drB" unfolding shaken_def using A1 p by auto
  ultimately show thesis by (rule that)
qed

text \<open>What the two managers keep in the middle of the handshake.\<close>

abbreviation keepsDisk :: "libs \<Rightarrow> bytes \<Rightarrow> bytes \<Rightarrow> node \<Rightarrow> bytes \<Rightarrow> PeerSession \<Rightarrow> bool" where
  "keepsDisk L self k c \<equiv> keeps (diskManager L) (\<lambda>w. libsLaw L \<and> noFault w) (sessionhash L self) k (clManager c)"

definition offerSess :: "bytes \<Rightarrow> bytes \<Rightarrow> bytes \<Rightarrow> bytes \<Rightarrow> Addr \<Rightarrow> shakeMsgs \<Rightarrow> PeerSession" where
  "offerSess u self k them addr h = (NewSession u self k them addr)\<lparr>inner := Some (hsA1 h)\<rparr>"

definition pendSess :: "bytes \<Rightarrow> bytes \<Rightarrow> bytes \<Rightarrow> bytes \<Rightarrow> Addr \<Rightarrow> shakeMsgs \<Rightarrow> PeerSession" where
  "pendSess u self k them addr h = (NewSession u self k them addr)\<lparr>inner := Some (hsB1 h), PendingAck := hsAckMsg h\<rparr>"

lemma handshake_first:
  assumes laws: "aesLaw P" "hmacLaw P" "dhLaw P" "sha512Law P" and ed: "edKey P kA" "edKey P kB"
    and seal: "sealing P L kB" and w: "goodIo L w1" "goodIo L w2" and post: "ioPost w1 = None"
    and rnd: "ioRand w1 = (\<lambda>i. RandOk (f1 i))" "ioSeal w1 = RandOk fs" "ioRand w2 = (\<lambda>i. RandOk (f2 i))"
    and fresh: "x25519_base P (map (f4 0) [0..<32]) \<noteq> x25519_base P (map (f1 0) [0..<32])"
    and addr: "ioLookup w1 b = Inr addrB" "addrKey addrB = edPublic kB"
      "ioLookup w2 a = Inr addrA" "addrKey addrA = edPublic kA"
    and inv: "managerInv a kA (clManager cA)" "managerInv b kB (clManager cB)"
    and new: "noSession L w1 (clManager cA) b"
  obtains uA uB h drA drB cA1 offer cB1 where
    "shakes P L kA kB (freshSession uA a kA addrB) (freshSession uB b kB addrA) (RandOk (f1 0)) (RandOk fs)
      (\<lambda>i. RandOk (f2 i)) (RandOk (f4 0)) h"
    and "shaken P (freshSession uA a kA addrB) (freshSession uB b kB addrA) h drA drB"
    and "length uA = 16" and "length uB = 16"
    and "clientChat (diskManager L) P L w1 late cA b = (cA1, False, None)"
    and "clPosts cA1 = clPosts cA @ [(addrEndpoint addrB, offer)]"
    and "clEvents cA1 = clEvents cA @ [OnOfferSent uA b offer]"
    and "handleRatchet (diskManager L) P L S w2 q2 offer cB = (cB1, None)" and "clPosts cB1 = clPosts cB"
    and "\<exists>i. clEvents cB1 = clEvents cB @ [OnOfferReceived i a (hsAckMsg h), OnSessionStarted i a]"
    and "unmarshalMessage offer = Inr (sessSealed, SealedM (hsSealed h))"
    and "managerInv a kA (clManager cA1)" and "managerInv b kB (clManager cB1)"
    and "keepsDisk L a kA cA1 b (offerSess uA a kA b addrB h)"
    and "keepsDisk L b kB cB1 a (pendSess uB b kB a addrA h)"
proof -
  have g: "libsLaw L \<and> noFault w1" "libsLaw L \<and> noFault w2" "saneUlid w1" "saneUlid w2"
    and lock: "ioLock w1 = None" "ioLock w2 = None"
    using w by (simp_all add: goodIo_def)
  obtain s uA where bA: "mByName (diskManager L) w1 (clManager cA) b = (s, uA)" by fastforce
  obtain e where none: "mGet (diskManager L) w1 s uA = Inl e" "isNotExist e"
    using noSession_get [OF new _ bA] g(1) by blast
  obtain t uB where bB: "mByName (diskManager L) w2 (clManager (setPos (diskManager L) q2 cB)) a = (t, uB)"
    by fastforce
  have "managerInv b kB (clManager (setPos (diskManager L) q2 cB))"
    using inv(2) dsm.inv_setPosition by (auto simp: setPos_def split: option.split)
  then have u: "length uA = 16" "length uB = 16"
    using dsm.inv_byName [OF inv(1) g(3) bA] dsm.inv_byName [OF _ g(4) bB] by simp_all
  let ?A = "freshSession uA a kA addrB" and ?B = "freshSession uB b kB addrA"
  obtain h drA drB where sh: "shakes P L kA kB ?A ?B (RandOk (f1 0)) (RandOk fs) (\<lambda>i. RandOk (f2 i)) (RandOk (f4 0)) h"
    and sk: "shaken P ?A ?B h drA drB"
    by (rule handshake_messages [where ?f1.0 = f1 and ?f4.0 = f4, OF laws ed seal u addr(2,4) fresh])
  have keys: "length (addrKey addrB) = 32" "length (addrKey addrA) = 32"
    using addr(2,4) ed edKey_public by simp_all
  have A1: "LocalUUID (hsA1 h) = uA" "ratchet (hsA1 h) = None" using sk by (auto simp: shaken_def)
  have B1: "LocalUUID (hsB1 h) = uB" "storable (hsB1 h)" "o_nick (hsOffer h) = a"
    using sk sh paired_storable [OF laws(2)] by (auto simp: shaken_def shakes_def storable_def)
  obtain cA1 offer where 1: "clientChat (diskManager L) P L w1 late cA b = (cA1, False, None)"
    "clPosts cA1 = clPosts cA @ [(addrEndpoint addrB, offer)]"
    "unmarshalMessage offer = Inr (sessSealed, SealedM (hsSealed h))" "managerInv a kA (clManager cA1)"
    "keepsDisk L a kA cA1 b ((NewSession uA a kA b addrB)\<lparr>inner := Some (hsA1 h)\<rparr>)"
    "clEvents cA1 = clEvents cA @ [OnOfferSent uA b offer]"
    by (rule dsm.client_offer [OF g(1,3) lock(1) post inv(1) bA none addr(1) keys(1), of P "hsA1 h" "hsOffer h" L "hsSealed h" late])
      (use sh A1 seal addr(2) rnd(1,2) in \<open>simp_all add: sealing_def shakes_def\<close>)
  obtain cB1 where 2: "handleRatchet (diskManager L) P L S w2 q2 offer cB = (cB1, None)"
    "managerInv b kB (clManager cB1)" "clPosts cB1 = clPosts cB"
    "keepsDisk L b kB cB1 (o_nick (hsOffer h)) ((NewSession uB b kB (o_nick (hsOffer h)) addrA)
        \<lparr>inner := Some (hsB1 h), PendingAck := hsAckMsg h\<rparr>)"
    "\<exists>i. clEvents cB1 = clEvents cB @ [OnOfferReceived i (o_nick (hsOffer h)) (hsAckMsg h), OnSessionStarted i (o_nick (hsOffer h))]"
    by (rule dsm.client_offered [OF g(2,4) lock(2) inv(2) 1(3), of P L "hsOffer h" addrA q2 t uB "hsB1 h" "hsAckMsg h" S])
      (use sh addr(3) keys(2) bB rnd(3) B1 in \<open>simp_all add: shakes_def\<close>)
  show thesis
    by (rule that [OF sh sk u 1(1,2,6) 2(1,3) _ 1(3,4) 2(2)])
      (use 1(5) 2(4,5) B1(3) in \<open>simp_all add: offerSess_def pendSess_def\<close>)
qed

lemma handshake_second:
  assumes hl: "hmacLaw P" and w: "goodIo L w3" "goodIo L w4" and post: "ioPost w3 = None"
    and rnd: "ioRand w4 0 = RandOk (f4 0)" and keys: "length (addrKey addrB) = 32" "length (addrKey addrA) = 32"
    and sh: "shakes P L kA kB (freshSession uA a kA addrB) (freshSession uB b kB addrA) r1 rs r2 (RandOk (f4 0)) h"
    and sk: "shaken P (freshSession uA a kA addrB) (freshSession uB b kB addrA) h drA drB"
    and u: "length uA = 16" "length uB = 16"
    and inv: "managerInv a kA (clManager cA1)" "managerInv b kB (clManager cB1)"
    and kA: "keepsDisk L a kA cA1 b (offerSess uA a kA b addrB h)"
    and kB: "keepsDisk L b kB cB1 a (pendSess uB b kB a addrA h)"
  obtains cB2 cA2 where "clientChat (diskManager L) P L w3 late cB1 a = (cB2, late, None)"
    and "clPosts cB2 = clPosts cB1 @ [(addrEndpoint addrA, hsAckMsg h)]"
    and "clEvents cB2 = clEvents cB1 @ [OnSessionStarted uB a]"
    and "handleRatchet (diskManager L) P L S w4 q4 (hsAckMsg h) cA1 = (cA2, None)"
    and "clPosts cA2 = clPosts cA1" and "clEvents cA2 = clEvents cA1 @ [OnSessionStarted uA b]"
    and "exInv P L a kA b kB (cA2, cB2, [], [])"
    and "\<forall>w. goodIo L w \<longrightarrow> roomFor L w cA2 b \<and> roomFor L w cB2 a"
proof -
  let ?pA = "offerSess uA a kA b addrB h" and ?pB = "pendSess uB b kB a addrA h"
  have g: "libsLaw L \<and> noFault w3" "libsLaw L \<and> noFault w4" "saneUlid w3" "ioLock w3 = None" "ioLock w4 = None"
    using w by (simp_all add: goodIo_def)
  have p: "paired P drA drB [] []" "dr_sendNo drB = 1" "dr_recvNo drA = 1" "dr_sendNo drA = 0"
    using sk by (simp_all add: shaken_def)
  have st: "kbInv (dr_msgKeyBuffer drA) \<and> keysPresent drA \<and> kbInv (dr_msgKeyBuffer drB) \<and> keysPresent drB"
    using hl p(1) by (rule paired_storable)
  have A1: "IdentityKey (hsA1 h) = kA" "LocalUUID (hsA1 h) = uA" "ratchet (hsA1 h) = None"
    "VerifyPeer (hsA1 h) = (\<lambda>p. p = addrKey addrB)"
    and A2: "LocalUUID (hsA2 h) = uA" "RemoteUUID (hsA2 h) = uB" "ratchet (hsA2 h) = Some drA"
    and B1: "LocalUUID (hsB1 h) = uB" "RemoteUUID (hsB1 h) = uA" "ratchet (hsB1 h) = Some drB"
    using sk by (auto simp: shaken_def)
  have tB: "talking (?pB\<lparr>PendingAck := []\<rparr>) (hsB1 h) drB" and paB: "PendingAck ?pB \<noteq> []"
    using keys(2) B1(3) sh by (simp_all add: talking_def NewSession_eq pendSess_def shakes_def)
  obtain cB2 p1 x1 dr1 where 3: "clientChat (diskManager L) P L w3 late cB1 a = (cB2, late, None)"
    "clPosts cB2 = clPosts cB1 @ [(Endpoint ?pB, PendingAck ?pB)]" "sameParty ?pB p1" "talking p1 x1 dr1"
    "restoredRatchet (Some drB) (Some dr1)" "managerInv b kB (clManager cB2)" "keepsDisk L b kB cB2 a p1"
    "clEvents cB2 = clEvents cB1 @ [OnSessionStarted (localID ?pB) a]"
    by (rule dsm.client_accept [OF g(1,3,4) post inv(2) kB paB tB]) (use st in simp)
  have id: "localID ?pA = uA" "localID ?pB = uB"
    using A1(2) B1(1) u by (simp_all add: localID_def toULID_def offerSess_def pendSess_def)
  have tA: "talking (?pA\<lparr>inner := Some (hsA2 h)\<rparr>) (hsA2 h) drA"
    using keys(1) A2(3) by (simp add: talking_def NewSession_eq offerSess_def)
  have psA: "peerStorable (?pA\<lparr>inner := Some (hsA2 h)\<rparr>)" using talking_storable [OF tA] st by blast
  obtain cA2 where 4: "handleRatchet (diskManager L) P L S w4 q4 (hsAckMsg h) cA1 = (cA2, None)"
    "managerInv a kA (clManager cA2)" "keepsDisk L a kA cA2 b (?pA\<lparr>inner := Some (hsA2 h)\<rparr>)"
    "clEvents cA2 = clEvents cA1 @ [OnSessionStarted (a_uuid (hsAck h)) (Name ?pA)]" "clPosts cA2 = clPosts cA1"
    by (rule dsm.client_acked [OF g(2,5) inv(1) kA _ A1(3,1), of "hsAckMsg h" "hsAck h" P "hsA2 h" L S q4])
      (use A1 A2 id sh u rnd psA in \<open>simp_all add: NewSession_eq offerSess_def shakes_def\<close>)
  have pA: "party L a kA b cA2 (?pA\<lparr>inner := Some (hsA2 h)\<rparr>) (hsA2 h) drA"
    using 4(2,3) tA paired_sending(1) [OF p(1)] by (simp add: party_def NewSession_eq offerSess_def)
  have pB: "party L b kB a cB2 p1 x1 dr1"
    using 3(3-7) paired_sending(2) [OF p(1)] p(2) by (auto simp: party_def sameParty_def NewSession_eq pendSess_def)
  have "localID p1 = uB" using sameParty_localID [OF 3(3)] id by simp
  then have "points L b (hsA2 h) p1" using u(2) A2(2) by (simp add: points_def)
  moreover have "RemoteUUID x1 = uA" using 3(3,4) B1(2) by (simp add: sameParty_def talking_def pendSess_def)
  then have "points L a x1 (?pA\<lparr>inner := Some (hsA2 h)\<rparr>)"
    using u(1) A2(1) by (simp add: points_def localID_def toULID_def)
  moreover have "dr_recvNo drA = dr_sendNo drB" using p(2,3) by simp
  ultimately have ex: "exInv P L a kA b kB (cA2, cB2, [], [])"
    using handshake_exInv [OF hl p(1,4) _ 3(5) pA pB] by blast
  have "dr_sendNo dr1 = 1" using 3(5) p(2) by auto
  then have room: "\<forall>w. goodIo L w \<longrightarrow> roomFor L w cA2 b \<and> roomFor L w cB2 a"
    using party_room [OF pA] party_room [OF pB] p(4) by simp
  show thesis
    by (rule that [OF 3(1) _ _ 4(1,5) _ ex room])
      (use 3(2,8) 4(4) id sh in \<open>simp_all add: NewSession_eq offerSess_def pendSess_def shakes_def\<close>)
qed

lemma client_handshake:
  assumes laws: "aesLaw P" "hmacLaw P" "dhLaw P" "sha512Law P" and ed: "edKey P kA" "edKey P kB"
    and seal: "sealing P L kB"
    and w: "goodIo L w1" "goodIo L w2" "goodIo L w3" "goodIo L w4" and post: "ioPost w1 = None" "ioPost w3 = None"
    and rnd: "ioRand w1 = (\<lambda>i. RandOk (f1 i))" "ioSeal w1 = RandOk fs" "ioRand w2 = (\<lambda>i. RandOk (f2 i))"
      "ioRand w4 = (\<lambda>i. RandOk (f4 i))"
    and fresh: "x25519_base P (map (f4 0) [0..<32]) \<noteq> x25519_base P (map (f1 0) [0..<32])"
    and addr: "ioLookup w1 b = Inr addrB" "addrKey addrB = edPublic kB"
      "ioLookup w2 a = Inr addrA" "addrKey addrA = edPublic kA"
    and inv: "managerInv a kA (clManager cA)" "managerInv b kB (clManager cB)"
    and new: "noSession L w1 (clManager cA) b"
  obtains cA1 offer cB1 cB2 ack cA2 where
    "clientChat (diskManager L) P L w1 late cA b = (cA1, False, None)"
    and "clPosts cA1 = clPosts cA @ [(addrEndpoint addrB, offer)]"
    and "handleRatchet (diskManager L) P L S w2 q2 offer cB = (cB1, None)"
    and "clientChat (diskManager L) P L w3 late cB1 a = (cB2, late, None)"
    and "clPosts cB2 = clPosts cB @ [(addrEndpoint addrA, ack)]"
    and "handleRatchet (diskManager L) P L S w4 q4 ack cA1 = (cA2, None)"
    and "exInv P L a kA b kB (cA2, cB2, [], [])"
    and "\<forall>w. goodIo L w \<longrightarrow> roomFor L w cA2 b \<and> roomFor L w cB2 a"
proof -
  obtain uA uB h drA drB cA1 offer cB1 where
    sh: "shakes P L kA kB (freshSession uA a kA addrB) (freshSession uB b kB addrA) (RandOk (f1 0)) (RandOk fs)
      (\<lambda>i. RandOk (f2 i)) (RandOk (f4 0)) h"
    and sk: "shaken P (freshSession uA a kA addrB) (freshSession uB b kB addrA) h drA drB"
    and u: "length uA = 16" "length uB = 16"
    and 1: "clientChat (diskManager L) P L w1 late cA b = (cA1, False, None)"
      "clPosts cA1 = clPosts cA @ [(addrEndpoint addrB, offer)]"
    and 2: "handleRatchet (diskManager L) P L S w2 q2 offer cB = (cB1, None)" "clPosts cB1 = clPosts cB"
    and i: "managerInv a kA (clManager cA1)" "managerInv b kB (clManager cB1)"
    and k: "keepsDisk L a kA cA1 b (offerSess uA a kA b addrB h)" "keepsDisk L b kB cB1 a (pendSess uB b kB a addrA h)"
    by (rule handshake_first [where ?f4.0 = f4 and late = late and S = S and ?q2.0 = q2,
          OF laws ed seal w(1,2) post(1) rnd(1-3) fresh addr inv new])
  have keys: "length (addrKey addrB) = 32" "length (addrKey addrA) = 32"
    using addr(2,4) ed edKey_public by simp_all
  have r4: "ioRand w4 0 = RandOk (f4 0)" using rnd(4) by simp
  obtain cB2 cA2 where 3: "clientChat (diskManager L) P L w3 late cB1 a = (cB2, late, None)"
      "clPosts cB2 = clPosts cB1 @ [(addrEndpoint addrA, hsAckMsg h)]"
    and 4: "handleRatchet (diskManager L) P L S w4 q4 (hsAckMsg h) cA1 = (cA2, None)"
    and ex: "exInv P L a kA b kB (cA2, cB2, [], [])" "\<forall>w. goodIo L w \<longrightarrow> roomFor L w cA2 b \<and> roomFor L w cB2 a"
    by (rule handshake_second [where ?f4.0 = f4 and late = late and S = S and ?q4.0 = q4,
          OF laws(2) w(3,4) post(2) r4 keys sh sk u i k])
  have "clPosts cB2 = clPosts cB @ [(addrEndpoint addrA, hsAckMsg h)]" using 3(2) 2(2) by simp
  with 1 2(1) 3(1) show thesis using 4 ex by (rule that)
qed

section \<open>Correctness\<close>

text \<open>
  C1: end to end over files and network: when one client starts a chat (a sealed offer), the other receives it and accepts, and the first receives the acknowledgement, all four operations succeed, and from then on every text that one client sends and the other handles in order is reported by the event that the message parser makes of exactly the text that was sent, OnMessageReceived or OnEventReceived with the name of its sender (and no event if the parser refuses that text); this although every operation reads the session from a file and writes it back.
\<close>

theorem clients_correct:
  assumes "aesLaw P" and "hmacLaw P" and "dhLaw P" and "sha512Law P" and "edKey P kA" and "edKey P kB"
    and "sealing P L kB"
    and "goodIo L w1" and "goodIo L w2" and "goodIo L w3" and "goodIo L w4"
    and "ioPost w1 = None" and "ioPost w3 = None"
    and "ioRand w1 = (\<lambda>i. RandOk (f1 i))" and "ioSeal w1 = RandOk fs" and "ioRand w2 = (\<lambda>i. RandOk (f2 i))"
    and "ioRand w4 = (\<lambda>i. RandOk (f4 i))"
    and "x25519_base P (map (f4 0) [0..<32]) \<noteq> x25519_base P (map (f1 0) [0..<32])"
    and "ioLookup w1 b = Inr addrB" and "addrKey addrB = edPublic kB"
    and "ioLookup w2 a = Inr addrA" and "addrKey addrA = edPublic kA"
    and "managerInv a kA (clManager cA)" and "managerInv b kB (clManager cB)"
    and "noSession L w1 (clManager cA) b"
  shows "\<exists>cA1 offer cB1 cB2 ack cA2.
    clientChat (diskManager L) P L w1 late cA b = (cA1, False, None)
    \<and> clPosts cA1 = clPosts cA @ [(addrEndpoint addrB, offer)]
    \<and> handleRatchet (diskManager L) P L S w2 q2 offer cB = (cB1, None)
    \<and> clientChat (diskManager L) P L w3 late cB1 a = (cB2, late, None)
    \<and> clPosts cB2 = clPosts cB @ [(addrEndpoint addrA, ack)]
    \<and> handleRatchet (diskManager L) P L S w4 q4 ack cA1 = (cA2, None)
    \<and> (\<forall>l s. exchange P L S a b (cA2, cB2, [], []) l s \<longrightarrow> list_all (delivered S) l)"
proof -
  obtain cA1 offer cB1 cB2 ack cA2 where
    "clientChat (diskManager L) P L w1 late cA b = (cA1, False, None)"
    "clPosts cA1 = clPosts cA @ [(addrEndpoint addrB, offer)]"
    "handleRatchet (diskManager L) P L S w2 q2 offer cB = (cB1, None)"
    "clientChat (diskManager L) P L w3 late cB1 a = (cB2, late, None)"
    "clPosts cB2 = clPosts cB @ [(addrEndpoint addrA, ack)]"
    "handleRatchet (diskManager L) P L S w4 q4 ack cA1 = (cA2, None)"
    and i: "exInv P L a kA b kB (cA2, cB2, [], [])"
    by (rule client_handshake [OF assms, of late S q2 q4])
  moreover have "list_all (delivered S) l" if "exchange P L S a b (cA2, cB2, [], []) l s" for l s
    using exchange_inv [OF that assms(1-3) i] by blast
  ultimately show ?thesis by blast
qed

lemma demo_goodIo: "goodIo demoLibs (demoWorld f k)"
  using demo_libsLaw demo_noFault demo_ulidLaw
  by (simp add: goodIo_def demoWorld_def noFault_def ulidLaw_def saneUlid_def) (simp add: demoIo_def)

lemma demo_sealing: "sealing demo demoLibs demoBobKey"
proof -
  have l: "length (edPublic demoBobKey) = 32" using demo_edKey(2) by (rule edKey_public)
  then have s: "sealLaw demo (edPublic demoBobKey) priv" for priv by (rule demo_sealLaw)
  have "drop 32 demoBobKey = edPublic demoBobKey" by (simp add: edPublic_def demoBobKey_def)
  then have own: "x25519Own demoLibs demoBobKey = edPublic demoBobKey" by (simp add: demoLibs_def)
  have pub: "x25519Public demoLibs (edPublic demoBobKey) = edPublic demoBobKey" using l by (simp add: demoLibs_def)
  have "\<forall>f m. 1 < length (seal_anonymous demo f m (edPublic demoBobKey))" using l by (simp add: demo_def)
  with s show ?thesis unfolding sealing_def own pub by simp
qed

text \<open>The inputs of a handshake for the witnesses.\<close>

lemma demo_inputs:
  shows "ioPost (demoWorld (\<lambda>_. 3) demoBobKey) = None" "ioPost (demoWorld (\<lambda>_. 5) []) = None"
    "ioRand (demoWorld (\<lambda>_. 3) demoBobKey) = (\<lambda>i. RandOk (\<lambda>_. 3))" "ioSeal (demoWorld (\<lambda>_. 3) demoBobKey) = RandOk (\<lambda>_. 9)"
    "ioRand (demoWorld word_of_nat demoAliceKey) = (\<lambda>i. RandOk (\<lambda>_. word_of_nat i))"
    "ioRand (demoWorld (\<lambda>_. 4) []) = (\<lambda>i. RandOk (\<lambda>_. 4))"
    "x25519_base demo (map (\<lambda>_. 4) [0..<32]) \<noteq> x25519_base demo (map (\<lambda>_. 3) [0..<32])"
    "ioLookup (demoWorld (\<lambda>_. 3) demoBobKey) [98] = Inr (demoAddr [98] demoBobKey)"
    "addrKey (demoAddr [98] demoBobKey) = edPublic demoBobKey"
    "ioLookup (demoWorld word_of_nat demoAliceKey) [97] = Inr (demoAddr [97] demoAliceKey)"
    "addrKey (demoAddr [97] demoAliceKey) = edPublic demoAliceKey"
    "managerInv [97] demoAliceKey (clManager (demoNode [97] demoAliceKey))"
    "managerInv [98] demoBobKey (clManager (demoNode [98] demoBobKey))"
    "noSession demoLibs (demoWorld (\<lambda>_. 3) demoBobKey) (clManager (demoNode [97] demoAliceKey)) [98]"
  by (simp_all add: demoWorld_def demoIo_def demo_def map_replicate_const demoAddr_def demoNode_def
      managerInv_def privateDisk_def noSession_def)

theorem clients_correct_witness:
  "\<exists>cA1 offer cB1 cB2 ack cA2.
    clientChat (diskManager demoLibs) demo demoLibs (demoWorld (\<lambda>_. 3) demoBobKey) True
      (demoNode [97] demoAliceKey) [98] = (cA1, False, None)
    \<and> clPosts cA1 = clPosts (demoNode [97] demoAliceKey) @ [(addrEndpoint (demoAddr [98] demoBobKey), offer)]
    \<and> handleRatchet (diskManager demoLibs) demo demoLibs demoSalty (demoWorld word_of_nat demoAliceKey) 0 offer
        (demoNode [98] demoBobKey) = (cB1, None)
    \<and> clientChat (diskManager demoLibs) demo demoLibs (demoWorld (\<lambda>_. 5) []) True cB1 [97] = (cB2, True, None)
    \<and> clPosts cB2 = clPosts (demoNode [98] demoBobKey) @ [(addrEndpoint (demoAddr [97] demoAliceKey), ack)]
    \<and> handleRatchet (diskManager demoLibs) demo demoLibs demoSalty (demoWorld (\<lambda>_. 4) []) 0 ack cA1 = (cA2, None)
    \<and> (\<forall>l s. exchange demo demoLibs demoSalty [97] [98] (cA2, cB2, [], []) l s
          \<longrightarrow> list_all (delivered demoSalty) l)"
  by (rule clients_correct [OF demo_laws(3,2,1) demo_sha512Law demo_edKey demo_sealing
      demo_goodIo demo_goodIo demo_goodIo demo_goodIo demo_inputs])

end
