(* ===== verification/Liveness.thy ===== *)
theory Liveness
  imports Handshake
begin

text \<open>
  A client that has a session can always send: the operation \<open>Send\<close> of \<open>src/client/client.go\<close>
  succeeds after any exchange of texts, as long as the number of the message fits its header and
  neither the disk nor the network fails.
\<close>

section \<open>One client\<close>

context session_manager
begin

lemma client_can_send:
  assumes "good w" and "sane w" and "ioLock w = None" and "inv (clManager c)"
    and "keeps M good slot ident (clManager c) them p" and "talking p x dr"
    and "\<forall>u. length (ioSetTime w u) = 16"
    and enc: "\<And>dr1 pt. restoredRatchet (Some dr) (Some dr1)
      \<Longrightarrow> \<exists>dr2 msg. Encrypt P (ioRand w 0) dr1 pt = (dr2, Inr msg) \<and> kbInv (dr_msgKeyBuffer dr2) \<and> keysPresent dr2"
  shows "\<exists>c' data. clientSend M P S w c them text events = (c', ioPost w)
    \<and> clPosts c' = clPosts c @ [(Endpoint p, data)]
    \<and> (ioPost w = None \<longrightarrow> (\<exists>i m. clEvents c' = clEvents c @ [OnMessageSent i them (Literal m) m data]))"
proof -
  obtain s u where b: "mByName M w (clManager c) them = (s, u)" by fastforce
  have u: "u = localID p" and k: "keeps M good slot ident s them p" using keeps_byName [OF assms(5) b] by simp_all
  from k assms(1) u obtain p1 where g: "mGet M w s u = Inr p1" and rp: "restoredPeer ident p p1"
    unfolding keeps_def by blast
  obtain x1 dr1 where t: "talking p1 x1 dr1" and rr: "restoredRatchet (Some dr) (Some dr1)"
    using rp assms(6) by (rule restored_talking)
  have ep: "Endpoint p1 = Endpoint p" using restoredPeer_sameParty [OF rp] by (simp add: sameParty_def)
  have in1: "inner p1 = Some x1" "ratchet x1 = Some dr1" using t by (simp_all add: talking_def)
  let ?id = "toULID (ioSetTime w (localID p1))"
  let ?m = "newSaltyText S (ulidTime S ?id) (User (clAddr c)) (Domain (clAddr c)) (toElems text events)"
  from enc [OF rr, of "Literal ?m"] obtain dr2 msg where e: "Encrypt P (ioRand w 0) dr1 (Literal ?m) = (dr2, Inr msg)"
    and st: "kbInv (dr_msgKeyBuffer dr2)" "keysPresent dr2" by blast
  obtain data where se: "Send P (ioSetTime w) (ioRand w 0) x1 (Literal ?m) = (x1\<lparr>ratchet := Some dr2\<rparr>, Inr data)"
    using assms(7) in1(2) e by (rule Send_ok)
  let ?p = "p1\<lparr>inner := Some (x1\<lparr>ratchet := Some dr2\<rparr>)\<rparr>"
  have "peerStorable ?p" using talking_update [OF t] st talking_storable by blast
  then obtain s' where put: "mPut M w s ?p = (s', None)" using put_ok [OF _ assms(1)] by blast
  have post: "clientSend M P S w c them text events =
      (case ioPost w of Some e \<Rightarrow> (c\<lparr>clManager := s, clPosts := clPosts c @ [(Endpoint p, data)]\<rparr>, Some e)
       | None \<Rightarrow> (c\<lparr>clManager := s', clPosts := clPosts c @ [(Endpoint p, data)],
           clEvents := clEvents c @ [OnMessageSent ?id them (Literal ?m) ?m data]\<rparr>, None))"
    using assms(3) b g in1 se put ep
    by (simp add: clientSend_def Use_def peerSend_def sendMsg_def putSession_def dispatch_def Let_def split: option.split)
  show ?thesis unfolding post by (cases "ioPost w") auto
qed

end

section \<open>Two clients\<close>

lemma party_can_send:
  assumes laws: "aesLaw P" "hmacLaw P" "dhLaw P" and w: "goodIo L w"
    and A: "party L a ka b c p x dr" and l: "linked P (dr, drB, qx, qy)" and room: "roomFor L w c b"
  shows "\<exists>c' data. clientSend (diskManager L) P S w c b text events = (c', ioPost w)
    \<and> clPosts c' = clPosts c @ [(Endpoint p, data)]
    \<and> (ioPost w = None \<longrightarrow> (\<exists>i m. clEvents c' = clEvents c @ [OnMessageSent i b (Literal m) m data]))"
proof -
  have g: "libsLaw L \<and> noFault w" "saneUlid w" "ioLock w = None" "\<forall>u. length (ioSetTime w u) = 16"
    using w by (simp_all add: goodIo_def ulidLaw_def)
  have A': "managerInv a ka (clManager c)" "talking p x dr" "dr_chainKeySend dr \<noteq> None"
    "keeps (diskManager L) (\<lambda>w. libsLaw L \<and> noFault w) (sessionhash L a) ka (clManager c) b p"
    using A by (simp_all add: party_def)
  have n: "dr_sendNo dr < 65536" using party_room [OF A w] room by simp
  have e: "\<exists>dr2 msg. Encrypt P (ioRand w 0) dr1 pt = (dr2, Inr msg) \<and> kbInv (dr_msgKeyBuffer dr2) \<and> keysPresent dr2"
    if r: "restoredRatchet (Some dr) (Some dr1)" for dr1 pt
  proof -
    have "dr_chainKeySend dr1 \<noteq> None" "dr_sendNo dr1 < 65536" "dr_prevSendNo dr1 = 0" using r n A'(3) by auto
    with linked_can_send [OF laws linked_restore [OF l r]] show ?thesis by metis
  qed
  show ?thesis by (rule dsm.client_can_send [OF g(1-3) A'(1,4,2) g(4) e])
qed

text \<open>The clients after a handshake that nothing has disturbed.\<close>

definition handshaken :: "prims \<Rightarrow> libs \<Rightarrow> saltyLib \<Rightarrow> bytes \<Rightarrow> bytes \<Rightarrow> bytes \<Rightarrow> bytes \<Rightarrow> node \<Rightarrow> node \<Rightarrow> bool" where
  "handshaken P L S a kA b kB cA cB \<longleftrightarrow> (\<exists>w1 w2 w3 w4 f1 fs f2 f4 addrA addrB late q2 q4 cA0 cB0 cA1 cB1 offer ack.
     goodIo L w1 \<and> goodIo L w2 \<and> goodIo L w3 \<and> goodIo L w4 \<and> ioPost w1 = None \<and> ioPost w3 = None
     \<and> ioRand w1 = (\<lambda>i. RandOk (f1 i)) \<and> ioSeal w1 = RandOk fs \<and> ioRand w2 = (\<lambda>i. RandOk (f2 i))
     \<and> ioRand w4 = (\<lambda>i. RandOk (f4 i))
     \<and> x25519_base P (map (f4 0) [0..<32]) \<noteq> x25519_base P (map (f1 0) [0..<32])
     \<and> ioLookup w1 b = Inr addrB \<and> addrKey addrB = edPublic kB
     \<and> ioLookup w2 a = Inr addrA \<and> addrKey addrA = edPublic kA
     \<and> managerInv a kA (clManager cA0) \<and> managerInv b kB (clManager cB0) \<and> noSession L w1 (clManager cA0) b
     \<and> clientChat (diskManager L) P L w1 late cA0 b = (cA1, False, None)
     \<and> clPosts cA1 = clPosts cA0 @ [(addrEndpoint addrB, offer)]
     \<and> handleRatchet (diskManager L) P L S w2 q2 offer cB0 = (cB1, None)
     \<and> clientChat (diskManager L) P L w3 late cB1 a = (cB, late, None)
     \<and> clPosts cB = clPosts cB0 @ [(addrEndpoint addrA, ack)]
     \<and> handleRatchet (diskManager L) P L S w4 q4 ack cA1 = (cA, None))"

lemma handshakenI:
  assumes "goodIo L w1" "goodIo L w2" "goodIo L w3" "goodIo L w4" "ioPost w1 = None" "ioPost w3 = None"
    "ioRand w1 = (\<lambda>i. RandOk (f1 i))" "ioSeal w1 = RandOk fs" "ioRand w2 = (\<lambda>i. RandOk (f2 i))"
    "ioRand w4 = (\<lambda>i. RandOk (f4 i))"
    "x25519_base P (map (f4 0) [0..<32]) \<noteq> x25519_base P (map (f1 0) [0..<32])"
    "ioLookup w1 b = Inr addrB" "addrKey addrB = edPublic kB" "ioLookup w2 a = Inr addrA" "addrKey addrA = edPublic kA"
    "managerInv a kA (clManager cA0)" "managerInv b kB (clManager cB0)" "noSession L w1 (clManager cA0) b"
    "clientChat (diskManager L) P L w1 late cA0 b = (cA1, False, None)"
    "clPosts cA1 = clPosts cA0 @ [(addrEndpoint addrB, offer)]"
    "handleRatchet (diskManager L) P L S w2 q2 offer cB0 = (cB1, None)"
    "clientChat (diskManager L) P L w3 late cB1 a = (cB, late, None)"
    "clPosts cB = clPosts cB0 @ [(addrEndpoint addrA, ack)]"
    "handleRatchet (diskManager L) P L S w4 q4 ack cA1 = (cA, None)"
  shows "handshaken P L S a kA b kB cA cB"
  unfolding handshaken_def
  by (rule exI [of _ w1], rule exI [of _ w2], rule exI [of _ w3], rule exI [of _ w4], rule exI [of _ f1],
      rule exI [of _ fs], rule exI [of _ f2], rule exI [of _ f4], rule exI [of _ addrA], rule exI [of _
      addrB], rule exI [of _ late], rule exI [of _ q2], rule exI [of _ q4], rule exI [of _ cA0], rule exI
      [of _ cB0], rule exI [of _ cA1], rule exI [of _ cB1], rule exI [of _ offer], rule exI [of _ ack], intro conjI; fact assms)

text \<open>The laws of the external code an undisturbed conversation relies on.\<close>

definition convLaws :: "prims \<Rightarrow> libs \<Rightarrow> bytes \<Rightarrow> bytes \<Rightarrow> bool" where
  "convLaws P L kA kB \<longleftrightarrow> aesLaw P \<and> hmacLaw P \<and> dhLaw P \<and> sha512Law P \<and> edKey P kA \<and> edKey P kB \<and> sealing P L kB"

lemma handshaken_exInv:
  assumes "convLaws P L kA kB" and "handshaken P L S a kA b kB cA cB"
  shows "exInv P L a kA b kB (cA, cB, [], [])"
proof -
  have laws: "aesLaw P" "hmacLaw P" "dhLaw P" "sha512Law P" "edKey P kA" "edKey P kB" "sealing P L kB"
    using assms(1) by (simp_all add: convLaws_def)
  from assms(2) obtain w1 w2 w3 w4 f1 fs f2 f4 addrA addrB late q2 q4 cA0 cB0 cA1 cB1 offer ack where
    h: "goodIo L w1" "goodIo L w2" "goodIo L w3" "goodIo L w4" "ioPost w1 = None" "ioPost w3 = None"
      "ioRand w1 = (\<lambda>i. RandOk (f1 i))" "ioSeal w1 = RandOk fs" "ioRand w2 = (\<lambda>i. RandOk (f2 i))"
      "ioRand w4 = (\<lambda>i. RandOk (f4 i))"
      "x25519_base P (map (f4 0) [0..<32]) \<noteq> x25519_base P (map (f1 0) [0..<32])"
      "ioLookup w1 b = Inr addrB" "addrKey addrB = edPublic kB" "ioLookup w2 a = Inr addrA" "addrKey addrA = edPublic kA"
      "managerInv a kA (clManager cA0)" "managerInv b kB (clManager cB0)" "noSession L w1 (clManager cA0) b"
    and run: "clientChat (diskManager L) P L w1 late cA0 b = (cA1, False, None)"
      "clPosts cA1 = clPosts cA0 @ [(addrEndpoint addrB, offer)]"
      "handleRatchet (diskManager L) P L S w2 q2 offer cB0 = (cB1, None)"
      "clientChat (diskManager L) P L w3 late cB1 a = (cB, late, None)"
      "clPosts cB = clPosts cB0 @ [(addrEndpoint addrA, ack)]"
      "handleRatchet (diskManager L) P L S w4 q4 ack cA1 = (cA, None)"
    unfolding handshaken_def by blast
  obtain cA1' offer' cB1' cB' ack' cA' where
    run': "clientChat (diskManager L) P L w1 late cA0 b = (cA1', False, None)"
      "clPosts cA1' = clPosts cA0 @ [(addrEndpoint addrB, offer')]"
      "handleRatchet (diskManager L) P L S w2 q2 offer' cB0 = (cB1', None)"
      "clientChat (diskManager L) P L w3 late cB1' a = (cB', late, None)"
      "clPosts cB' = clPosts cB0 @ [(addrEndpoint addrA, ack')]"
      "handleRatchet (diskManager L) P L S w4 q4 ack' cA1' = (cA', None)"
    and i: "exInv P L a kA b kB (cA', cB', [], [])"
    by (rule client_handshake [OF laws h, of late S q2 q4])
  have 1: "cA1' = cA1" "offer' = offer" using run(1,2) run'(1,2) by simp_all
  have 2: "cB1' = cB1" using run(3) run'(3) 1 by simp
  have 3: "cB' = cB" "ack' = ack" using run(4,5) run'(4,5) 2 by simp_all
  have "cA' = cA" using run(6) run'(6) 1 3 by simp
  with i 3(1) show ?thesis by simp
qed

text \<open>
  C3: two clients never get stuck: after the handshake and any exchange of texts, each client can send any text to the other: Send returns without an error, posts exactly one request and reports it by the event OnMessageSent, as long as the number of the message fits its header.
\<close>

theorem clients_can_send:
  assumes "convLaws P L kA kB" and "handshaken P L S a kA b kB cA0 cB0"
    and "exchange P L S a b (cA0, cB0, [], []) l (cA, cB, qA, qB)"
    and "goodIo L w" and "ioPost w = None" and "roomFor L w cA b" and "roomFor L w cB a"
  shows "(\<exists>cA' to data i m. clientSend (diskManager L) P S w cA b text events = (cA', None)
      \<and> clPosts cA' = clPosts cA @ [(to, data)] \<and> clEvents cA' = clEvents cA @ [OnMessageSent i b (Literal m) m data])
    \<and> (\<exists>cB' to data i m. clientSend (diskManager L) P S w cB a text events = (cB', None)
      \<and> clPosts cB' = clPosts cB @ [(to, data)] \<and> clEvents cB' = clEvents cB @ [OnMessageSent i a (Literal m) m data])"
proof -
  have laws: "aesLaw P" "hmacLaw P" "dhLaw P" using assms(1) by (simp_all add: convLaws_def)
  have "exInv P L a kA b kB (cA, cB, qA, qB)"
    using exchange_inv [OF assms(3) laws handshaken_exInv [OF assms(1,2)]] by blast
  then obtain pA xA drA pB xB drB where A: "party L a kA b cA pA xA drA" and B: "party L b kB a cB pB xB drB"
    and l: "linked P (drA, drB, payloads qA, payloads qB)" by auto
  have l': "linked P (drB, drA, payloads qB, payloads qA)" using l linked_swap by blast
  show ?thesis
    using party_can_send [OF laws assms(4) A l assms(6), of S "text" events]
      party_can_send [OF laws assms(4) B l' assms(7), of S "text" events] assms(5) by metis
qed

section \<open>The clients of the witnesses\<close>

lemma demo_convLaws: "convLaws demo demoLibs demoAliceKey demoBobKey"
  using demo_laws demo_sha512Law demo_edKey demo_sealing by (simp add: convLaws_def)

lemma demo_handshaken:
  obtains cA cB where "handshaken demo demoLibs demoSalty [97] demoAliceKey [98] demoBobKey cA cB"
    and "exInv demo demoLibs [97] demoAliceKey [98] demoBobKey (cA, cB, [], [])"
    and "\<forall>w. goodIo demoLibs w \<longrightarrow> roomFor demoLibs w cA [98] \<and> roomFor demoLibs w cB [97]"
proof -
  note in1 = demo_goodIo [of "\<lambda>_. 3" demoBobKey] demo_goodIo [of word_of_nat demoAliceKey]
    demo_goodIo [of "\<lambda>_. 5" "[]"] demo_goodIo [of "\<lambda>_. 4" "[]"]
  note inputs = in1 demo_inputs
  obtain cA1 offer cB1 cB ack cA where
    run: "clientChat (diskManager demoLibs) demo demoLibs (demoWorld (\<lambda>_. 3) demoBobKey) True
        (demoNode [97] demoAliceKey) [98] = (cA1, False, None)"
      "clPosts cA1 = clPosts (demoNode [97] demoAliceKey) @ [(addrEndpoint (demoAddr [98] demoBobKey), offer)]"
      "handleRatchet (diskManager demoLibs) demo demoLibs demoSalty (demoWorld word_of_nat demoAliceKey) 0 offer
        (demoNode [98] demoBobKey) = (cB1, None)"
      "clientChat (diskManager demoLibs) demo demoLibs (demoWorld (\<lambda>_. 5) []) True cB1 [97] = (cB, True, None)"
      "clPosts cB = clPosts (demoNode [98] demoBobKey) @ [(addrEndpoint (demoAddr [97] demoAliceKey), ack)]"
      "handleRatchet (diskManager demoLibs) demo demoLibs demoSalty (demoWorld (\<lambda>_. 4) []) 0 ack cA1 = (cA, None)"
    and i: "exInv demo demoLibs [97] demoAliceKey [98] demoBobKey (cA, cB, [], [])"
    and r: "\<forall>w. goodIo demoLibs w \<longrightarrow> roomFor demoLibs w cA [98] \<and> roomFor demoLibs w cB [97]"
    by (rule client_handshake [OF demo_laws(3,2,1) demo_sha512Law demo_edKey demo_sealing inputs])
  have "handshaken demo demoLibs demoSalty [97] demoAliceKey [98] demoBobKey cA cB"
    by (rule handshakenI [OF inputs run])
  then show thesis using i r by (rule that)
qed

theorem clients_can_send_witness:
  "\<exists>cA cB cA' to data i m. handshaken demo demoLibs demoSalty [97] demoAliceKey [98] demoBobKey cA cB
     \<and> clientSend (diskManager demoLibs) demo demoSalty (demoWorld (\<lambda>_. 5) []) cA [98] [72, 105] [] = (cA', None)
     \<and> clPosts cA' = clPosts cA @ [(to, data)] \<and> clEvents cA' = clEvents cA @ [OnMessageSent i [98] (Literal m) m data]"
proof -
  obtain cA cB where h: "handshaken demo demoLibs demoSalty [97] demoAliceKey [98] demoBobKey cA cB"
    and r: "\<forall>w. goodIo demoLibs w \<longrightarrow> roomFor demoLibs w cA [98] \<and> roomFor demoLibs w cB [97]"
    by (rule demo_handshaken)
  have "roomFor demoLibs (demoWorld (\<lambda>_. 5) []) cA [98]" "roomFor demoLibs (demoWorld (\<lambda>_. 5) []) cB [97]"
    using r demo_goodIo by simp_all
  from clients_can_send [OF demo_convLaws h exchange.start demo_goodIo demo_inputs(2) this] h show ?thesis by blast
qed

end
