(* ===== verification/Closing.thy ===== *)
theory Closing
  imports Liveness
begin

text \<open>
  Closing a conversation (\<open>Close\<close> and the handler of a close message in \<open>src/client/client.go\<close>): the
  session is deleted on both sides.
\<close>

section \<open>One client\<close>

text \<open>No session is stored in a slot.\<close>

definition forgotten :: "'s SessionManager \<Rightarrow> (io \<Rightarrow> bool) \<Rightarrow> (bytes \<Rightarrow> 'k) \<Rightarrow> 's \<Rightarrow> bytes \<Rightarrow> bool" where
  "forgotten M good slot s i \<longleftrightarrow> (\<forall>w j. good w \<longrightarrow> slot j = slot i \<longrightarrow> (\<exists>e. mGet M w s j = Inl e \<and> isNotExist e))"

lemma restored_storable:
  assumes "restoredRatchet (Some dr) (Some dr1)" and "keysPresent dr" and "talking p1 x1 dr1"
  shows "peerStorable p1"
proof -
  have "kbInv (dr_msgKeyBuffer dr1)" "keysPresent dr1"
    using assms(1,2) by (auto simp: restoredBuffer_def keysPresent_def)
  with assms(3) show ?thesis by (rule talking_storable)
qed

context session_manager
begin

lemma forgotten_deleted:
  assumes "inv s" and "mDelete M w s p = (s', None)"
  shows "forgotten M good slot s' (localID p)"
  unfolding forgotten_def using delete_get [OF assms] by blast

lemma client_close:
  assumes "good w" and "sane w" and "ioLock w = None" and "ioPost w = None" and "inv (clManager c)"
    and "keeps M good slot ident (clManager c) them p" and "talking p x dr" and "length (RemoteUUID x) = 16"
  obtains c' msg where "clientClose M w c them = (c', None)" and "inv (clManager c')"
    and "clPosts c' = clPosts c @ [(Endpoint p, msg)]"
    and "clEvents c' = clEvents c @ [OnCloseSent (localID p) them msg, OnSessionClosed (localID p) them]"
    and "forgotten M good slot (clManager c') (localID p)"
    and "unmarshalMessage msg = Inr (sessClose, CloseM \<lparr>c_uuid = RemoteUUID x, c_payload = [0xff]\<rparr>)"
proof -
  obtain s u where b: "mByName M w (clManager c) them = (s, u)" by fastforce
  have u: "u = localID p" and k: "keeps M good slot ident s them p" using keeps_byName [OF assms(6) b] by simp_all
  have i: "inv s" using inv_byName [OF assms(5,2) b] by simp
  from k assms(1) u obtain p1 where g: "mGet M w s u = Inr p1" and r: "restoredPeer ident p p1"
    unfolding keeps_def by blast
  obtain x1 dr1 where t: "talking p1 x1 dr1" and rr: "restoredRatchet (Some dr) (Some dr1)"
    using r assms(7) by (rule restored_talking)
  have same: "sameParty p p1" using r by (rule restoredPeer_sameParty)
  have in1: "inner p1 = Some x1" "RemoteUUID x1 = RemoteUUID x" "Endpoint p1 = Endpoint p"
    using t same assms(7) by (simp_all add: talking_def sameParty_def)
  let ?p = "p1\<lparr>inner := Some (x1\<lparr>spkPub := [], spkPriv := [], ratchet := None\<rparr>)\<rparr>"
  have "length (RemoteUUID x1) = 16" using in1(2) assms(8) by simp
  then obtain msg where cl: "Close x1 = (x1\<lparr>spkPub := [], spkPriv := [], ratchet := None\<rparr>, Inr msg)"
    "unmarshalMessage msg = Inr (sessClose, CloseM \<lparr>c_uuid = RemoteUUID x, c_payload = [0xff]\<rparr>)"
    by (rule Close_ok) (simp add: in1(2))
  have id: "localID ?p = localID p" using sameParty_localID [OF same] in1(1) by (simp add: localID_def)
  then obtain s' where d: "mDelete M w s ?p = (s', None)"
    using delete_ok [OF i assms(1) g, of ?p] u by auto
  let ?c = "c\<lparr>clManager := s', clPosts := clPosts c @ [(Endpoint p, msg)],
      clEvents := clEvents c @ [OnCloseSent (localID p) them msg, OnSessionClosed (localID p) them]\<rparr>"
  have c: "clientClose M w c them = (?c, None)"
    using assms(3,4) b g in1 cl(1) d id
    by (simp add: clientClose_def Use_def peerClose_def sendMsg_def dispatch_def Let_def)
  have f: "forgotten M good slot (clManager ?c) (localID p)" using forgotten_deleted [OF i d] id by simp
  have i': "inv (clManager ?c)" using inv_delete [OF i d] by simp
  show thesis by (rule that [OF c i' _ _ f cl(2)]) simp_all
qed

lemma client_closed:
  assumes "good w" and "ioLock w = None" and "inv (clManager c)" and "keeps M good slot ident (clManager c) them p"
    and "talking p x dr" and "keysPresent dr"
    and "unmarshalMessage msg = Inr (sessClose, CloseM cm)" and "length (c_uuid cm) = 16"
    and "slot (c_uuid cm) = slot (localID p)"
  obtains c' where "handleRatchet M P L S w q msg c = (c', None)" and "inv (clManager c')"
    and "clPosts c' = clPosts c" and "clEvents c' = clEvents c @ [OnSessionClosed (c_uuid cm) (Name p)]"
    and "forgotten M good slot (clManager c') (localID p)"
proof -
  let ?c = "setPos M q c"
  note sp = setPos_manager [OF assms(3,4), of q]
  from sp(2) assms(1,9) obtain p1 where g: "mGet M w (clManager ?c) (c_uuid cm) = Inr p1"
    and r: "restoredPeer ident p p1"
    unfolding keeps_def by blast
  obtain x1 dr1 where t: "talking p1 x1 dr1" and rr: "restoredRatchet (Some dr) (Some dr1)"
    using r assms(5) by (rule restored_talking)
  have same: "sameParty p p1" using r by (rule restoredPeer_sameParty)
  have ps: "peerStorable p1" using rr assms(6) t by (rule restored_storable)
  obtain s where put: "mPut M w (clManager ?c) p1 = (s, None)" using put_ok [OF ps assms(1)] by blast
  have i: "inv s" using inv_put [OF sp(1) put] .
  have in1: "inner p1 = Some x1" "PendingAck p1 = []" "Name p1 = Name p"
    using t same by (simp_all add: talking_def sameParty_def)
  from put_get [OF sp(1) ps assms(1) put refl] obtain p2 where "mGet M w s (localID p1) = Inr p2" by blast
  then obtain s' where d: "mDelete M w s p1 = (s', None)" using delete_ok [OF i assms(1) _ refl] in1(1) by blast
  have rm: "peerReceiveMsg P (ioRand w) p1 (CloseM cm) = (p1, False, True, [], None)"
    using in1(1) by (cases p1) (simp add: peerReceiveMsg_def ReceiveMsg_def Let_def)
  let ?c' = "?c\<lparr>clManager := s', clEvents := clEvents c @ [OnSessionClosed (c_uuid cm) (Name p)]\<rparr>"
  have "ratchetBody M P L S w q (goCopy 16 (c_uuid cm)) (CloseM cm) c = (?c', None)"
    using g rm put d in1 sp(3) assms(8)
    by (simp add: ratchetBody_def unsealMsg_def sessionFor_def putSession_def afterReceive_def dispatch_def
        toULID_def Let_def)
  then have h: "handleRatchet M P L S w q msg c = (?c', None)"
    using dataMsg_ratchet [OF assms(7)] assms(2,7)
    by (simp add: handleRatchet_def readMsg_def Parse_def Use_def)
  have f: "forgotten M good slot (clManager ?c') (localID p)"
    using forgotten_deleted [OF i d] sameParty_localID [OF same] by simp
  have i': "inv (clManager ?c')" using inv_delete [OF i d] by simp
  show thesis by (rule that [OF h i' _ _ f]) (simp_all add: sp(4))
qed

end

section \<open>Two clients\<close>

text \<open>The client has no session under the identifier a name had before.\<close>

definition closedFor :: "libs \<Rightarrow> io \<Rightarrow> node \<Rightarrow> node \<Rightarrow> bytes \<Rightarrow> bool" where
  "closedFor L w c c' them \<longleftrightarrow>
     (\<exists>e. mGet (diskManager L) w (clManager c') (snd (mByName (diskManager L) w (clManager c) them)) = Inl e \<and> isNotExist e)"

lemma party_forgotten:
  assumes "party L self k them c p x dr" and "goodIo L w"
    and "forgotten (diskManager L) (\<lambda>w. libsLaw L \<and> noFault w) (sessionhash L self) (clManager c') (localID p)"
  shows "closedFor L w c c' them"
proof -
  have "snd (mByName (diskManager L) w (clManager c) them) = localID p"
    using assms(1) by (simp add: party_def keeps_def)
  with assms(2,3) show ?thesis by (simp add: closedFor_def forgotten_def goodIo_def)
qed

text \<open>
  C4: closing ends the conversation on both sides: after the handshake and any exchange of texts, Close of one client succeeds, deletes its stored session, reports OnCloseSent and OnSessionClosed and posts one message; when the other client handles that message it deletes its stored session too and reports OnSessionClosed with the name of the peer.
\<close>

theorem clients_close:
  assumes "convLaws P L kA kB" and "handshaken P L S a kA b kB cA0 cB0"
    and "exchange P L S a b (cA0, cB0, [], []) l (cA, cB, qA, qB)"
    and "goodIo L w" and "ioPost w = None" and "goodIo L w'"
  shows "\<exists>cA' cB' to msg i j. clientClose (diskManager L) w cA b = (cA', None)
    \<and> clPosts cA' = clPosts cA @ [(to, msg)] \<and> clEvents cA' = clEvents cA @ [OnCloseSent i b msg, OnSessionClosed i b]
    \<and> handleRatchet (diskManager L) P L S w' q msg cB = (cB', None)
    \<and> clPosts cB' = clPosts cB \<and> clEvents cB' = clEvents cB @ [OnSessionClosed j a]
    \<and> (\<forall>w. goodIo L w \<longrightarrow> closedFor L w cA cA' b \<and> closedFor L w cB cB' a)"
proof -
  have laws: "aesLaw P" "hmacLaw P" "dhLaw P" using assms(1) by (simp_all add: convLaws_def)
  have "exInv P L a kA b kB (cA, cB, qA, qB)"
    using exchange_inv [OF assms(3) laws handshaken_exInv [OF assms(1,2)]] by blast
  then obtain pA xA drA pB xB drB where A: "party L a kA b cA pA xA drA" and B: "party L b kB a cB pB xB drB"
    and l: "linked P (drA, drB, payloads qA, payloads qB)" and pt: "points L b xA pB" by auto
  have g: "libsLaw L \<and> noFault w" "saneUlid w" "ioLock w = None" "libsLaw L \<and> noFault w'" "ioLock w' = None"
    using assms(4,6) by (simp_all add: goodIo_def)
  have A': "managerInv a kA (clManager cA)" "talking pA xA drA"
    "keeps (diskManager L) (\<lambda>w. libsLaw L \<and> noFault w) (sessionhash L a) kA (clManager cA) b pA"
    and B': "managerInv b kB (clManager cB)" "talking pB xB drB" "Name pB = a"
    "keeps (diskManager L) (\<lambda>w. libsLaw L \<and> noFault w) (sessionhash L b) kB (clManager cB) a pB"
    using A B by (simp_all add: party_def)
  have r: "length (RemoteUUID xA) = 16" "sessionhash L b (RemoteUUID xA) = sessionhash L b (localID pB)"
    using pt by (simp_all add: points_def)
  have kp: "keysPresent drB" using linked_storable [OF laws(2) l] by simp
  obtain cA' msg where 1: "clientClose (diskManager L) w cA b = (cA', None)"
    "clPosts cA' = clPosts cA @ [(Endpoint pA, msg)]"
    "clEvents cA' = clEvents cA @ [OnCloseSent (localID pA) b msg, OnSessionClosed (localID pA) b]"
    and fA: "forgotten (diskManager L) (\<lambda>w. libsLaw L \<and> noFault w) (sessionhash L a) (clManager cA') (localID pA)"
    and m: "unmarshalMessage msg = Inr (sessClose, CloseM \<lparr>c_uuid = RemoteUUID xA, c_payload = [0xff]\<rparr>)"
    by (rule dsm.client_close [OF g(1-3) assms(5) A'(1,3,2) r(1)])
  obtain cB' where 2: "handleRatchet (diskManager L) P L S w' q msg cB = (cB', None)" "clPosts cB' = clPosts cB"
    "clEvents cB' = clEvents cB @ [OnSessionClosed (RemoteUUID xA) a]"
    and fB: "forgotten (diskManager L) (\<lambda>w. libsLaw L \<and> noFault w) (sessionhash L b) (clManager cB') (localID pB)"
    by (rule dsm.client_closed [OF g(4,5) B'(1,4,2) kp m, of P L S q]) (use r B'(3) in simp_all)
  have "\<forall>w. goodIo L w \<longrightarrow> closedFor L w cA cA' b \<and> closedFor L w cB cB' a"
    using party_forgotten [OF A _ fA] party_forgotten [OF B _ fB] by blast
  with 1 2 show ?thesis by blast
qed

theorem clients_close_witness:
  "\<exists>cA cB cA' cB' to msg i j. handshaken demo demoLibs demoSalty [97] demoAliceKey [98] demoBobKey cA cB
    \<and> clientClose (diskManager demoLibs) (demoWorld (\<lambda>_. 5) []) cA [98] = (cA', None)
    \<and> clPosts cA' = clPosts cA @ [(to, msg)]
    \<and> clEvents cA' = clEvents cA @ [OnCloseSent i [98] msg, OnSessionClosed i [98]]
    \<and> handleRatchet (diskManager demoLibs) demo demoLibs demoSalty (demoWorld (\<lambda>_. 6) []) 0 msg cB = (cB', None)
    \<and> clPosts cB' = clPosts cB \<and> clEvents cB' = clEvents cB @ [OnSessionClosed j [97]]"
proof -
  obtain cA cB where h: "handshaken demo demoLibs demoSalty [97] demoAliceKey [98] demoBobKey cA cB"
    by (rule demo_handshaken)
  from clients_close [OF demo_convLaws h exchange.start demo_goodIo demo_inputs(2) demo_goodIo [of "\<lambda>_. 6" "[]"], of 0] h
  show ?thesis by blast
qed

end
