(* ===== verification/Cli.thy ===== *)
theory Cli
  imports Closing
begin

text \<open>
  The command line program (\<open>src/cli/basic.go\<close>): every command is a process of its own that reads the
  identity file, opens the session manager on the state directory, performs one operation of the
  client and closes the manager. The package \<open>saltyim\<close> that decodes an identity is a parameter.
\<close>

section \<open>The commands\<close>

text \<open>What the operating system answers about the identity file.\<close>

record keyIn =
  keyStat :: "32 word result"
  keyOpen :: "err option"
  keyRead :: "bytes result"

text \<open>
  The input of one process: the identity file, opening the manager, the operation of the client,
  closing the manager, and the order in which \<open>range\<close> visits the map of sessions.
\<close>

record cliIo =
  cKey :: keyIn
  cOpen :: io
  cOp :: io
  cClose :: io
  cOrder :: "(bytes \<times> bytes) list \<Rightarrow> (bytes \<times> bytes) list"

text \<open>\<open>saltyim.GetIdentity\<close>: the address and the key in the content of a file.\<close>

type_synonym identities = "bytes \<Rightarrow> (bytes \<times> bytes) result"

definition ReadSaltyIdentity :: "identities \<Rightarrow> keyIn \<Rightarrow> (bytes \<times> bytes) result" where
  "ReadSaltyIdentity I f =
     (case keyStat f of Inl e \<Rightarrow> Inl e
      | Inr mode \<Rightarrow>
          (if weakMode mode then Inl ErrPermissions
           else case keyOpen f of Some e \<Rightarrow> Inl e
             | None \<Rightarrow> (case keyRead f of Inl e \<Rightarrow> Inl e | Inr b \<Rightarrow> I b)))"

text \<open>
  The directory after the process, the lines it printed, the requests it posted and its error.
\<close>

type_synonym cliOut = "disk \<times> bytes list \<times> (bytes \<times> bytes) list \<times> err option"

text \<open>What every command does first.\<close>

definition cliOpen :: "identities \<Rightarrow> libs \<Rightarrow> cliIo \<Rightarrow> disk \<Rightarrow> (DiskSessionManager \<times> bytes) result" where
  "cliOpen I L w d =
     (case ReadSaltyIdentity I (cKey w) of Inl e \<Rightarrow> Inl (wrap ''reading keyfile'' e)
      | Inr (me, key) \<Rightarrow> (case NewSessionManager L (cOpen w) me key d of
          (sm, Some e) \<Rightarrow> Inl e | (sm, None) \<Rightarrow> Inr (sm, me)))"

text \<open>The deferred call of \<open>close\<close>, whose error is ignored.\<close>

definition cliDone :: "libs \<Rightarrow> cliIo \<Rightarrow> DiskSessionManager \<times> disk \<Rightarrow> disk" where
  "cliDone L w = (\<lambda>(sm, d). fst (closeManager L (cClose w) (cOrder w) sm d))"

text \<open>The lines the handlers of a command print for the events of the client.\<close>

definition printed :: "(event \<Rightarrow> bytes option) \<Rightarrow> 's client \<Rightarrow> bytes list" where
  "printed f c = List.map_filter f (clEvents c)"

fun offerLine :: "event \<Rightarrow> bytes option" where
  "offerLine (OnOfferSent i them raw) = Some raw"
| "offerLine _ = None"

fun sentLine :: "event \<Rightarrow> bytes option" where
  "sentLine (OnMessageSent i them raw m data) = Some data"
| "sentLine _ = None"

text \<open>\<open>Println\<close> puts a space between its operands.\<close>

fun recvLine :: "event \<Rightarrow> bytes option" where
  "recvLine (OnMessageReceived i them raw m) = Some (Literal m)"
| "recvLine (OnOfferReceived i them pendingAck) = Some pendingAck"
| "recvLine (OnSessionStarted i them) = Some (str ''Session Started with  '' @ them)"
| "recvLine (OnSessionClosed i them) = Some (str ''Session Closed with  '' @ them)"
| "recvLine _ = None"

definition cliOffer :: "identities \<Rightarrow> libs \<Rightarrow> prims \<Rightarrow> cliIo \<Rightarrow> bool \<Rightarrow> disk \<Rightarrow> bytes \<Rightarrow> cliOut" where
  "cliOffer I L P w late d them =
     (case cliOpen I L w d of Inl e \<Rightarrow> (d, [], [], Some e)
      | Inr (sm, me) \<Rightarrow> (case newClient (cOp w) (sm, d) me of
          Inl e \<Rightarrow> (cliDone L w (sm, d), [], [], Some e)
        | Inr c \<Rightarrow> (case clientChat (diskManager L) P L (cOp w) late c them of
            (c, _, r) \<Rightarrow> (cliDone L w (clManager c), printed offerLine c, clPosts c, r))))"

definition cliSend :: "identities \<Rightarrow> libs \<Rightarrow> prims \<Rightarrow> saltyLib \<Rightarrow> cliIo \<Rightarrow> disk \<Rightarrow> bytes \<Rightarrow> bytes \<Rightarrow> cliOut" where
  "cliSend I L P S w d them input =
     (case cliOpen I L w d of Inl e \<Rightarrow> (d, [], [], Some e)
      | Inr (sm, me) \<Rightarrow> (case newClient (cOp w) (sm, d) me of
          Inl e \<Rightarrow> (cliDone L w (sm, d), [], [], Some e)
        | Inr c \<Rightarrow> (case clientSend (diskManager L) P S (cOp w) c them input [] of
            (c, r) \<Rightarrow> (cliDone L w (clManager c), printed sentLine c, clPosts c, r))))"

text \<open>
  The handlers of an input run in goroutines of their own: a panic there ends the program at once,
  without the deferred call.
\<close>

definition cliRecv :: "identities \<Rightarrow> libs \<Rightarrow> prims \<Rightarrow> saltyLib \<Rightarrow> cliIo \<Rightarrow> handler list \<Rightarrow> disk \<Rightarrow> bytes \<Rightarrow> cliOut" where
  "cliRecv I L P S w hs d input =
     (case cliOpen I L w d of Inl e \<Rightarrow> (d, [], [], Some e)
      | Inr (sm, me) \<Rightarrow> (case newClient (cOp w) (sm, d) me of
          Inl e \<Rightarrow> (cliDone L w (sm, d), [], [], Some e)
        | Inr c \<Rightarrow> (case Input (diskManager L) P L S (cOp w) 1 input hs c of
            (c, Some e) \<Rightarrow> (snd (clManager c), printed recvLine c, clPosts c, Some e)
          | (c, None) \<Rightarrow> (cliDone L w (clManager c), printed recvLine c, clPosts c, None))))"

definition cliClose :: "identities \<Rightarrow> libs \<Rightarrow> cliIo \<Rightarrow> disk \<Rightarrow> bytes \<Rightarrow> cliOut" where
  "cliClose I L w d them =
     (case cliOpen I L w d of Inl e \<Rightarrow> (d, [], [], Some e)
      | Inr (sm, me) \<Rightarrow> (case newClient (cOp w) (sm, d) me of
          Inl e \<Rightarrow> (cliDone L w (sm, d), [], [], Some e)
        | Inr c \<Rightarrow> (case clientClose (diskManager L) (cOp w) c them of
            (c, r) \<Rightarrow> (cliDone L w (clManager c), printed sentLine c, clPosts c, r))))"

section \<open>Closing and opening again\<close>

text \<open>The file of the index holds the index of the manager.\<close>

definition indexed :: "libs \<Rightarrow> DiskSessionManager \<Rightarrow> disk \<Rightarrow> bool" where
  "indexed L sm d \<longleftrightarrow> indexValid (smSessions sm) \<and> (\<exists>f pos items. d (indexName (smMe sm)) = Some f
     \<and> fileData f = jsonIndex L (pos, items) \<and> mset items = mset (smSessions sm))"

lemma fold_update_distinct:
  "distinct (map fst (l @ items)) \<Longrightarrow> fold (\<lambda>(k, v) l. AList.update k v l) items l = l @ items"
  by (induction items arbitrary: l) (auto simp: update_new)

lemma map_of_mset:
  assumes "mset xs = mset ys" and "distinct (map fst ys)"
  shows "map_of xs = map_of ys" and "distinct (map fst xs)"
proof -
  have "mset (map fst xs) = mset (map fst ys)" using assms(1) by simp
  then show d: "distinct (map fst xs)" using mset_eq_imp_distinct_iff assms(2) by blast
  have "set xs = set ys" using assms(1) by (rule mset_eq_setD)
  then show "map_of xs = map_of ys" by (rule map_of_inject_set [OF d assms(2), THEN iffD2])
qed

lemma indexValid_mset: "mset xs = mset ys \<Longrightarrow> indexValid xs = indexValid ys"
  using mset_eq_setD [of xs ys] by (simp add: indexValid_def)

lemma reopen:
  assumes "jsonLaw L" and "managerInv self k (sm, d)" and "indexed L sm d" and "ioOpen w = None"
  obtains sm' where "NewSessionManager L w self k d = (sm', None)" and "sameStore (sm, d) (sm', d)"
    and "managerInv self k (sm', d)" and "indexValid (smSessions sm')"
proof -
  have me: "smMe sm = self" "smKey sm = k" "distinct (map fst (smSessions sm))" using assms(2) by (simp_all add: managerInv_def)
  from assms(3) obtain f pos items where f: "d (indexName self) = Some f" "fileData f = jsonIndex L (pos, items)"
    and m: "mset items = mset (smSessions sm)" and v: "indexValid (smSessions sm)"
    unfolding indexed_def me(1) by blast
  have iv: "indexValid items" using v indexValid_mset [OF m] by simp
  then have u: "unjsonIndex L (fileData f) = Inr (pos, items)"
    using assms(1) f(2) by (simp add: jsonLaw_def indexValid_def)
  note mo = map_of_mset [OF m me(3)]
  have fo: "fold (\<lambda>(k, v) l. AList.update k v l) items [] = items"
    using fold_update_distinct [of "[]" items] mo(2) by simp
  let ?sm = "\<lparr>smMe = self, smKey = k, smPos = (if pos > 0 then pos else -1), smSessions = items\<rparr>"
  have n: "NewSessionManager L w self k d = (?sm, None)"
    using f(1) u fo assms(4) by (simp add: NewSessionManager_def Load_def)
  have i: "managerInv self k (?sm, d)"
    using assms(2) mo(2) iv by (auto simp: managerInv_def indexValid_def)
  show thesis by (rule that [OF n _ i]) (use me mo(1) iv in simp_all)
qed

text \<open>A process without failures of the owner \<open>self\<close>.\<close>

definition goodCli :: "identities \<Rightarrow> libs \<Rightarrow> cliIo \<Rightarrow> bytes \<Rightarrow> bytes \<Rightarrow> Addr \<Rightarrow> bool" where
  "goodCli I L w self k addr \<longleftrightarrow> ReadSaltyIdentity I (cKey w) = Inr (self, k)
     \<and> goodIo L (cOpen w) \<and> goodIo L (cOp w) \<and> goodIo L (cClose w) \<and> ioLookup (cOp w) self = Inr addr
     \<and> (\<forall>l. mset (cOrder w l) = mset l)"

lemma cliDone_indexed:
  assumes "goodCli I L w self k addr" and "managerInv self k (sm, d)" and "indexValid (smSessions sm)"
  shows "indexed L sm (cliDone L w (sm, d))" and "sameStore (sm, d) (sm, cliDone L w (sm, d))"
    and "managerInv self k (sm, cliDone L w (sm, d))"
proof -
  have f: "ioCreate (cClose w) = None" "ioWrite (cClose w) = None" "mset (cOrder w (smSessions sm)) = mset (smSessions sm)"
    using assms(1) by (simp_all add: goodCli_def goodIo_def noFault_def)
  obtain d' where c: "closeManager L (cClose w) (cOrder w) sm d = (d', None)"
    using f by (simp add: closeManager_def Let_def)
  then have d': "cliDone L w (sm, d) = d'" by (simp add: cliDone_def)
  from c f obtain n where "d' (indexName (smMe sm)) = Some n"
    "fileData n = jsonIndex L (smPos sm, cOrder w (smSessions sm))"
    by (auto simp: closeManager_def Let_def split: option.splits)
  then show "indexed L sm (cliDone L w (sm, d))" using assms(3) f(3) unfolding indexed_def d' by blast
  show "sameStore (sm, d) (sm, cliDone L w (sm, d))"
    using c f unfolding d' by (auto simp: closeManager_def Let_def)
  show "managerInv self k (sm, cliDone L w (sm, d))"
    using assms(2) closeManager_private [OF _ c] unfolding d' by (simp add: managerInv_def)
qed

section \<open>Operations on a stored session keep the index\<close>

lemma keeps_indexed:
  assumes "keeps (diskManager L) good slot k (sm, d) them p"
  shows "map_of (smSessions sm) them = Some (localID p)"
proof (cases "map_of (smSessions sm) them")
  case None
  have "snd (mByName (diskManager L) (demoIo\<lparr>ioUlid := u\<rparr>) (sm, d) them) = localID p" for u
    using assms by (simp add: keeps_def)
  then have "u = localID p" for u using None by (simp add: diskManager_def ByName_def)
  from this [of "[]"] this [of "[0]"] show ?thesis by simp
next
  case (Some u)
  have "snd (mByName (diskManager L) demoIo (sm, d) them) = localID p" using assms by (simp add: keeps_def)
  with Some show ?thesis by (simp add: diskManager_def ByName_def)
qed

text \<open>The names in the index of a manager and of a client.\<close>

definition smNames :: "DiskSessionManager \<Rightarrow> bytes set" where
  "smNames sm = fst ` set (smSessions sm)"

definition indexNames :: "node \<Rightarrow> bytes set" where
  "indexNames c = smNames (fst (clManager c))"

lemma smNames_SetPosition [simp]: "smNames (SetPosition q sm) = smNames sm"
  by (simp add: smNames_def SetPosition_def)

lemma ByName_smNames:
  assumes "ByName w sm n = (sm', u)"
  shows "smNames sm' \<subseteq> insert n (smNames sm)"
proof -
  have "fst ` set (AList.update n v l) = insert n (fst ` set l)" for v and l :: "(bytes \<times> bytes) list" by (induction l) auto
  then have "smNames (sm\<lparr>smSessions := AList.update n v (smSessions sm)\<rparr>) = insert n (smNames sm)" for v
    by (simp add: smNames_def)
  with assms show ?thesis by (auto simp: ByName_def split: option.splits)
qed

lemma Delete_smNames:
  assumes "Delete L w sm d sess = (sm', d', e)"
  shows "smNames sm' \<subseteq> smNames sm"
  using Delete_sessions [OF assms] by (auto simp: smNames_def AList.delete_eq)

lemma indexNames_cong: "clManager c' = clManager c \<Longrightarrow> indexNames c' = indexNames c"
  by (simp add: indexNames_def)

lemma setPos_names [simp]: "indexNames (setPos (diskManager L) q c) = indexNames c"
  by (simp add: setPos_def diskManager_def indexNames_def split: prod.split)

lemma dispatch_names [simp]: "indexNames (fst (dispatch c ev)) = indexNames c"
  by (simp add: dispatch_def indexNames_def)

lemma dispatch_names2: "dispatch c ev = (c', e) \<Longrightarrow> indexNames c' = indexNames c"
  by (auto simp: dispatch_def indexNames_def)

lemma sendMsg_names: "sendMsg w c sess msg = (c', e) \<Longrightarrow> indexNames c' = indexNames c"
  by (auto simp: sendMsg_def indexNames_def)

lemma byName_names:
  assumes "mByName (diskManager L) w (clManager c) n = (s, u)"
  shows "indexNames (c\<lparr>clManager := s\<rparr>) \<subseteq> insert n (indexNames c)"
  using assms by (auto simp: diskManager_def indexNames_def dest!: ByName_smNames split: prod.splits)

lemma mNew_names:
  assumes "mNew (diskManager L) w (clManager c) n = (s, r)"
  shows "indexNames (c\<lparr>clManager := s\<rparr>) \<subseteq> insert n (indexNames c)"
proof -
  have "fst (mByName (diskManager L) w (clManager c) n) = s"
    using assms New_fst [of w "fst (clManager c)" n] by (auto simp: diskManager_def split: prod.splits)
  then show ?thesis using byName_names [of L w c n s] by (metis prod.collapse)
qed

lemma putSession_names:
  "putSession (diskManager L) w c sess = (c', e) \<Longrightarrow> indexNames c' = indexNames c"
  by (auto simp: putSession_def diskManager_def indexNames_def split: prod.splits)

lemma mDelete_names:
  assumes "mDelete (diskManager L) w (clManager c) sess = (s, e)"
  shows "indexNames (c\<lparr>clManager := s\<rparr>) \<subseteq> indexNames c"
  using assms by (auto simp: diskManager_def indexNames_def dest!: Delete_smNames split: prod.splits)

lemma afterReceive_names:
  "indexNames (fst (afterReceive (diskManager L) S w c sess xm est cl pt)) \<subseteq> indexNames c"
  using mDelete_names [of L w c sess]
  by (auto simp: afterReceive_def dispatch_def Let_def indexNames_def
      split: sum.splits saltyMsg.splits if_splits option.splits prod.splits)

lemma sessionFor_names:
  assumes "sessionFor (diskManager L) w c i xm = (c', r)" and "\<And>offer. xm = OfferM offer \<Longrightarrow> o_nick offer \<in> N"
  shows "indexNames c' \<subseteq> indexNames c \<union> N"
proof (cases xm)
  case (OfferM offer)
  obtain s res where n: "mNew (diskManager L) w (clManager c) (o_nick offer) = (s, res)" by fastforce
  then have "c' = c\<lparr>clManager := s\<rparr>" using assms(1) OfferM by (auto simp: sessionFor_def split: sum.splits)
  with mNew_names [OF n] assms(2) [OF OfferM] show ?thesis by auto
qed (use assms(1) in \<open>auto simp: sessionFor_def split: sum.splits if_splits\<close>)

lemma ratchetBody_names:
  assumes "ratchetBody (diskManager L) P L S w q i xmsg c = (c', r)"
    and "\<And>offer. unsealMsg (diskManager L) P L (setPos (diskManager L) q c) xmsg = Inr (OfferM offer) \<Longrightarrow> o_nick offer \<in> N"
  shows "indexNames c' \<subseteq> indexNames c \<union> N"
proof (cases "unsealMsg (diskManager L) P L (setPos (diskManager L) q c) xmsg")
  case (Inl e)
  then show ?thesis using assms(1) by (auto simp: ratchetBody_def Let_def)
next
  case (Inr xm)
  obtain c1 so where s: "sessionFor (diskManager L) w (setPos (diskManager L) q c) i xm = (c1, so)" by fastforce
  have "xm = OfferM offer \<Longrightarrow> o_nick offer \<in> N" for offer using assms(2) Inr by blast
  with sessionFor_names [OF s] have n1: "indexNames c1 \<subseteq> indexNames c \<union> N" by simp
  show ?thesis
  proof (cases "\<exists>sess. so = Inr (Some sess)")
    case False
    then show ?thesis using assms(1) Inr s n1
      by (auto simp: ratchetBody_def Let_def split: sum.splits option.splits)
  next
    case True
    then obtain sess where so: "so = Inr (Some sess)" by blast
    obtain sess' est cl pt e where rm: "peerReceiveMsg P (ioRand w) sess xm = (sess', est, cl, pt, e)"
      by (cases "peerReceiveMsg P (ioRand w) sess xm") auto
    define c2 where "c2 = (if PendingAck sess' \<noteq> [] then
        fst (dispatch c1 (OnOfferReceived (toULID (deref (ID xm))) (Name sess') (PendingAck sess'))) else c1)"
    obtain c3 e3 where put: "putSession (diskManager L) w c2 sess' = (c3, e3)" by fastforce
    have "indexNames c3 = indexNames c1" using putSession_names [OF put] by (simp add: c2_def)
    moreover have "(c', r) = (case e of Some e \<Rightarrow> (c1, Some (wrap ''session receive'' e)) | None \<Rightarrow>
        (case e3 of Some e \<Rightarrow> (c3, Some e) | None \<Rightarrow> afterReceive (diskManager L) S w c3 sess' xm est cl pt))"
      using assms(1) Inr s so rm put
      by (simp add: ratchetBody_def Let_def c2_def [symmetric] split: option.splits)
    then have "c' = fst \<dots>" by (metis fst_conv)
    ultimately show ?thesis using n1 afterReceive_names [of L S w c3 sess' xm est cl pt]
      by (cases e; cases e3) auto
  qed
qed

lemma report_names: "report (c, r) = (c', r') \<Longrightarrow> indexNames c' = indexNames c"
  by (cases "(c, r)" rule: report.cases) (auto simp: dispatch_def indexNames_def)

lemma handleRatchet_names:
  assumes "unmarshalMessage msg = Inr (t, xmsg)" and "ioLock w = None"
    and "handleRatchet (diskManager L) P L S w q msg c = (c', r)"
    and "\<And>offer. unsealMsg (diskManager L) P L (setPos (diskManager L) q c) xmsg = Inr (OfferM offer) \<Longrightarrow> o_nick offer \<in> N"
  shows "indexNames c' \<subseteq> indexNames c \<union> N"
proof -
  obtain c1 e where b: "ratchetBody (diskManager L) P L S w q (goCopy 16 (deref (ID xmsg))) xmsg c = (c1, e)" by fastforce
  with assms(1-3) have "report (c1, e) = (c', r)"
    using dataMsg_ratchet [OF assms(1)] by (simp add: handleRatchet_def readMsg_def Parse_def Use_def)
  with report_names ratchetBody_names [OF b assms(4)] show ?thesis by metis
qed

lemma clientSend_names:
  assumes "clientSend (diskManager L) P S w c them text events = (c', r)"
  shows "indexNames c' \<subseteq> insert them (indexNames c)"
proof (cases "ioLock w")
  case None
  obtain s u where b: "mByName (diskManager L) w (clManager c) them = (s, u)" by fastforce
  have "indexNames c' = indexNames (c\<lparr>clManager := s\<rparr>)"
    using assms None b
    by (auto simp: clientSend_def Use_def Let_def split: option.splits sum.splits prod.splits
        dest!: sendMsg_names putSession_names dispatch_names2)
  with byName_names [OF b] show ?thesis by simp
qed (use assms in \<open>auto simp: clientSend_def Use_def\<close>)

lemma startChat_names:
  assumes "startChat (diskManager L) P L w c them = (c', r)"
  shows "indexNames c' \<subseteq> insert them (indexNames c)"
proof -
  obtain s res where n: "mNew (diskManager L) w (clManager c) them = (s, res)" by fastforce
  have "indexNames c' = indexNames (c\<lparr>clManager := s\<rparr>)"
    using assms n
    by (auto simp: startChat_def Let_def split: option.splits sum.splits prod.splits
        dest!: sendMsg_names putSession_names dispatch_names2)
  with mNew_names [OF n] show ?thesis by simp
qed

lemma clientChat_names:
  assumes "clientChat (diskManager L) P L w late c them = (c', est, r)"
  shows "indexNames c' \<subseteq> insert them (indexNames c)"
proof (cases "ioLock w")
  case None
  obtain s u where b: "mByName (diskManager L) w (clManager c) them = (s, u)" by fastforce
  have "indexNames c' \<subseteq> insert them (indexNames (c\<lparr>clManager := s\<rparr>))"
    using assms None b
    by (auto simp: clientChat_def Let_def split: option.splits sum.splits prod.splits if_splits
        dest!: sendMsg_names putSession_names dispatch_names2 startChat_names)
  with byName_names [OF b] show ?thesis by auto
qed (use assms in \<open>auto simp: clientChat_def\<close>)

lemma party_indexed: "party L self k them c p x dr \<Longrightarrow> them \<in> indexNames c"
  using keeps_indexed [of L "\<lambda>w. libsLaw L \<and> noFault w" "sessionhash L self" k "fst (clManager c)" "snd (clManager c)" them p]
  by (force simp: party_def indexNames_def smNames_def dest: map_of_SomeD)

text \<open>What JSON needs of the index, by the names.\<close>

definition ascii :: "bytes \<Rightarrow> bool" where
  "ascii n \<longleftrightarrow> (\<forall>b \<in> set n. b < 128)"

lemma indexValid_names:
  "managerInv self k (clManager c) \<Longrightarrow> indexValid (smSessions (fst (clManager c))) \<longleftrightarrow> (\<forall>n \<in> indexNames c. ascii n)"
  by (cases "clManager c") (auto simp: indexValid_def indexNames_def smNames_def ascii_def managerInv_def)

end
