(* ===== verification/CliRuns.thy ===== *)
theory CliRuns
  imports Cli
begin

text \<open>
  The command line program of two users, run after run: the handshake and the texts between them,
  and what reading a message does to the stored position of the message bus.
\<close>

section \<open>Texts between two users of the command line\<close>

text \<open>The client of a process before its operation.\<close>

definition opened :: "DiskSessionManager \<Rightarrow> disk \<Rightarrow> Addr \<Rightarrow> node" where
  "opened sm d addr = \<lparr>clManager = (sm, d), clAddr = addr, clEvents = [], clPosts = []\<rparr>"

text \<open>A client that only gives access to the sessions of a directory.\<close>

abbreviation reader :: "bytes \<Rightarrow> bytes \<Rightarrow> disk \<Rightarrow> Addr \<Rightarrow> node" where
  "reader self k d \<equiv> opened \<lparr>smMe = self, smKey = k, smPos = -1, smSessions = []\<rparr> d"

text \<open>
  The directories of the two users and the texts under way, each with the address of its sender and
  what was printed for it; the log holds for every delivery the lines that were printed and the error.
\<close>

type_synonym cliMsg = "Addr \<times> bytes \<times> bytes"
type_synonym cliState = "disk \<times> disk \<times> cliMsg list \<times> cliMsg list"
type_synonym cliDelivery = "Addr \<times> bytes \<times> bytes list \<times> err option"

inductive cliAct :: "identities \<Rightarrow> prims \<Rightarrow> libs \<Rightarrow> saltyLib \<Rightarrow> bytes \<Rightarrow> bytes \<Rightarrow> bytes \<Rightarrow> bytes \<Rightarrow>
    cliState \<Rightarrow> cliDelivery list \<Rightarrow> cliState \<Rightarrow> bool" for I P L S where
  send: "goodCli I L w a ka addr \<Longrightarrow> cliSend I L P S w dA b input = (dA', [data], posts, None)
    \<Longrightarrow> cliAct I P L S a ka b kb (dA, dB, qA, qB) [] (dA', dB, qA @ [(addr, input, data)], qB)"
| recv: "goodCli I L w b kb addrB \<Longrightarrow> ioRand (cOp w) 0 = RandOk f
    \<Longrightarrow> unusedKey P L (cOp w) f (reader a ka dA addr) \<Longrightarrow> unusedKey P L (cOp w) f (reader b kb dB addr)
    \<Longrightarrow> distinct hs \<Longrightarrow> set hs = {SaltPack, Ratchet, Other}
    \<Longrightarrow> cliRecv I L P S w hs dB data = (dB', lines, posts, r)
    \<Longrightarrow> cliAct I P L S a ka b kb (dA, dB, (addr, input, data) # qA, qB) [(addr, input, lines, r)] (dA, dB', qA, qB)"
| swap: "cliAct I P L S b kb a ka (dB, dA, qB, qA) l (dB', dA', qB', qA')
    \<Longrightarrow> cliAct I P L S a ka b kb (dA, dB, qA, qB) l (dA', dB', qA', qB')"

inductive cliRun :: "identities \<Rightarrow> prims \<Rightarrow> libs \<Rightarrow> saltyLib \<Rightarrow> bytes \<Rightarrow> bytes \<Rightarrow> bytes \<Rightarrow> bytes \<Rightarrow>
    cliState \<Rightarrow> cliDelivery list \<Rightarrow> cliState \<Rightarrow> bool" for I P L S a ka b kb s where
  start: "cliRun I P L S a ka b kb s [] s"
| more: "cliRun I P L S a ka b kb s l s' \<Longrightarrow> cliAct I P L S a ka b kb s' l' s''
    \<Longrightarrow> cliRun I P L S a ka b kb s (l @ l') s''"

text \<open>The message the client makes of the text of a user, and what should be printed for it.\<close>

definition literalOf :: "saltyLib \<Rightarrow> Addr \<Rightarrow> bytes \<Rightarrow> bytes \<Rightarrow> bool" where
  "literalOf S addr input lit \<longleftrightarrow>
     (\<exists>t. lit = Literal (newSaltyText S t (User addr) (Domain addr) (toElems input [])))"

definition cliDelivered :: "saltyLib \<Rightarrow> cliDelivery \<Rightarrow> bool" where
  "cliDelivered S = (\<lambda>(addr, input, lines, r). r = None \<and> (\<exists>lit. literalOf S addr input lit
     \<and> lines = (case parseSalty S lit of Inr (TextMsg m) \<Rightarrow> [Literal m] | _ \<Rightarrow> [])))"

definition carries :: "saltyLib \<Rightarrow> cliMsg list \<Rightarrow> channel \<Rightarrow> bool" where
  "carries S = list_all2 (\<lambda>(addr, input, data) (lit, data'). data' = data \<and> literalOf S addr input lit)"

fun cliInv :: "prims \<Rightarrow> libs \<Rightarrow> saltyLib \<Rightarrow> bytes \<Rightarrow> bytes \<Rightarrow> bytes \<Rightarrow> bytes \<Rightarrow> cliState \<Rightarrow> bool" where
  "cliInv P L S a ka b kb (dA, dB, qA, qB) \<longleftrightarrow> (\<exists>cA cB smA smB pA pB. exInv P L a ka b kb (cA, cB, pA, pB)
     \<and> clManager cA = (smA, dA) \<and> indexed L smA dA \<and> clManager cB = (smB, dB) \<and> indexed L smB dB
     \<and> carries S qA pA \<and> carries S qB pB)"

lemma cliInv_swap: "cliInv P L S b kb a ka (dB, dA, qB, qA) = cliInv P L S a ka b kb (dA, dB, qA, qB)"
  unfolding cliInv.simps using exInv_swap by blast

lemma exInv_managers:
  "exInv P L a ka b kb (cA, cB, qA, qB) \<Longrightarrow> managerInv a ka (clManager cA) \<and> managerInv b kb (clManager cB)"
  by (auto simp: party_def)

lemma process_open:
  assumes "jsonLaw L" and "goodCli I L w self k addr" and "managerInv self k (sm, d)" and "indexed L sm d"
  obtains sm' where "cliOpen I L w d = Inr (sm', self)" and "newClient (cOp w) (sm', d) self = Inr (opened sm' d addr)"
    and "sameStore (sm, d) (sm', d)" and "managerInv self k (sm', d)" and "indexValid (smSessions sm')"
proof -
  have "ioOpen (cOpen w) = None" using assms(2) by (simp add: goodCli_def goodIo_def noFault_def)
  with assms(1,3,4) obtain sm' where n: "NewSessionManager L (cOpen w) self k d = (sm', None)"
    and r: "sameStore (sm, d) (sm', d)" "managerInv self k (sm', d)" "indexValid (smSessions sm')"
    by (rule reopen)
  have o: "cliOpen I L w d = Inr (sm', self)" "newClient (cOp w) (sm', d) self = Inr (opened sm' d addr)"
    using assms(2) n by (simp_all add: cliOpen_def goodCli_def newClient_def opened_def)
  show thesis using o r by (rule that)
qed

text \<open>What a process leaves behind when its operation has kept the index.\<close>

lemma process_done:
  assumes "goodCli I L w self k addr" and "exInv P L self k b kb (c, cB, qA, qB)" and "indexValid (smSessions (fst (clManager c)))"
  obtains c' sm where "exInv P L self k b kb (c', cB, qA, qB)" and "clManager c' = (sm, cliDone L w (clManager c))"
    and "indexed L sm (cliDone L w (clManager c))"
proof -
  obtain sm d where c: "clManager c = (sm, d)" by fastforce
  have m: "managerInv self k (sm, d)" using exInv_managers [OF assms(2)] c by simp
  have v: "indexValid (smSessions sm)" using assms(3) c by simp
  note cd = cliDone_indexed [OF assms(1) m v]
  let ?c = "c\<lparr>clManager := (sm, cliDone L w (sm, d))\<rparr>"
  have "exInv P L self k b kb (?c, cB, qA, qB)"
    using assms(2) by (rule exInv_sameStore) (use c cd in simp_all)
  then show thesis by (rule that) (use c cd in simp_all)
qed

lemma cliInv_send:
  assumes laws: "aesLaw P" "hmacLaw P" "dhLaw P" "jsonLaw L" and w: "goodCli I L w a ka addr"
    and s: "cliSend I L P S w dA b input = (dA', [data], posts, None)"
    and inv: "cliInv P L S a ka b kb (dA, dB, qA, qB)"
  shows "cliInv P L S a ka b kb (dA', dB, qA @ [(addr, input, data)], qB)"
proof -
  from inv obtain cA cB smA smB pA pB where ex: "exInv P L a ka b kb (cA, cB, pA, pB)"
    and A: "clManager cA = (smA, dA)" "indexed L smA dA" and B: "clManager cB = (smB, dB)" "indexed L smB dB"
    and q: "carries S qA pA" "carries S qB pB" unfolding cliInv.simps by blast
  have mi: "managerInv a ka (smA, dA)" using exInv_managers [OF ex] A(1) by simp
  obtain sm where o: "cliOpen I L w dA = Inr (sm, a)" "newClient (cOp w) (sm, dA) a = Inr (opened sm dA addr)"
    and st: "sameStore (smA, dA) (sm, dA)" "managerInv a ka (sm, dA)" and v: "indexValid (smSessions sm)"
    using laws(4) w mi A(2) by (rule process_open)
  let ?c = "opened sm dA addr"
  have ex0: "exInv P L a ka b kb (?c, cB, pA, pB)"
    using ex by (rule exInv_sameStore) (use A(1) st in \<open>simp_all add: opened_def\<close>)
  then obtain p x dr where P: "party L a ka b ?c p x dr" by auto
  obtain c1 r where cs: "clientSend (diskManager L) P S (cOp w) ?c b input [] = (c1, r)" by fastforce
  from s o cs have out: "dA' = cliDone L w (clManager c1)" "printed sentLine c1 = [data]" "r = None"
    by (simp_all add: cliSend_def)
  have g: "goodIo L (cOp w)" using w by (simp add: goodCli_def)
  then have g': "libsLaw L \<and> noFault (cOp w)" "saneUlid (cOp w)" "\<forall>u. length (ioSetTime (cOp w) u) = 16"
    by (simp_all add: goodIo_def ulidLaw_def)
  have P': "managerInv a ka (clManager ?c)" "talking p x dr"
    "keeps (diskManager L) (\<lambda>w. libsLaw L \<and> noFault w) (sessionhash L a) ka (clManager ?c) b p"
    using P by (simp_all add: party_def)
  from dsm.client_send [OF g'(1,2) P'(1,3,2) cs [unfolded out(3)] g'(3)] obtain i m data' where
    ev: "clEvents c1 = clEvents ?c @ [OnMessageSent i b (Literal m) m data']"
    and m: "m = newSaltyText S (ulidTime S i) (User (clAddr ?c)) (Domain (clAddr ?c)) (toElems input [])"
    by metis
  have "data' = data" using ev out(2) by (simp add: printed_def opened_def map_filter_simps)
  with exInv_send [OF laws(1-3) g cs [unfolded out(3)] ev ex0]
  have ex1: "exInv P L a ka b kb (c1, cB, pA @ [(Literal m, data)], pB)" by simp
  have "indexNames c1 \<subseteq> indexNames ?c" using clientSend_names [OF cs] party_indexed [OF P] by blast
  moreover have "indexValid (smSessions (fst (clManager ?c)))" using v by (simp add: opened_def)
  ultimately have "indexValid (smSessions (fst (clManager c1)))"
    using exInv_managers [OF ex1] indexValid_names P'(1) by blast
  with w ex1 obtain c' sm' where "exInv P L a ka b kb (c', cB, pA @ [(Literal m, data)], pB)"
    "clManager c' = (sm', dA')" "indexed L sm' dA'"
    unfolding out(1) by (rule process_done)
  moreover have "literalOf S addr input (Literal m)" using m by (auto simp: literalOf_def opened_def)
  then have "carries S (qA @ [(addr, input, data)]) (pA @ [(Literal m, data)])"
    using q(1) by (auto simp: carries_def list_all2_appendI)
  ultimately show ?thesis using B q(2) unfolding cliInv.simps by blast
qed

lemma unusedKey_reader:
  assumes "unusedKey P L w f (reader self k d addr)" and "clManager c = (sm, d)" and "smMe sm = self" and "smKey sm = k"
  shows "unusedKey P L w f c"
proof -
  have "mGet (diskManager L) w (clManager c) i = mGet (diskManager L) w (clManager (reader self k d addr)) i" for i
    using assms(2-4) by (auto simp: opened_def diskManager_def intro!: Get_cong)
  with assms(1) show ?thesis by (simp add: unusedKey_def)
qed

lemma delivered_printed:
  assumes "delivered S (a, lit, r, evs)" and "literalOf S addr input lit" and "clEvents c = evs"
  shows "cliDelivered S (addr, input, printed recvLine c, r)"
proof -
  from assms(1) obtain i where "r = None" "evs = (case parseSalty S lit of
       Inr (TextMsg m) \<Rightarrow> [OnMessageReceived i a lit m]
     | Inr (EventMsg m) \<Rightarrow> [OnEventReceived i a lit m] | _ \<Rightarrow> [])"
    by (auto simp: delivered_def)
  with assms(2,3) show ?thesis
    by (auto simp: cliDelivered_def printed_def map_filter_simps split: sum.splits saltyMsg.splits intro!: exI [of _ lit])
qed

lemma Input_ratchet:
  assumes "distinct hs" and "set hs = {SaltPack, Ratchet, Other}" and "unmarshalMessage msg = Inr r"
  shows "Input M P L S w q msg hs c = handleRatchet M P L S w q msg c"
proof -
  have "handlerFor msg = Ratchet"
    using dataMsg_ratchet [OF assms(3)] isRatchet_not_SaltPack by (simp add: handlerFor_def)
  then show ?thesis unfolding Input_one [OF assms(1,2)] by (simp add: runHandler_def)
qed

lemma cliInv_recv:
  assumes laws: "aesLaw P" "hmacLaw P" "dhLaw P" "jsonLaw L" and w: "goodCli I L w b kb addrB"
    and f: "ioRand (cOp w) 0 = RandOk f"
    and un: "unusedKey P L (cOp w) f (reader a ka dA addr)" "unusedKey P L (cOp w) f (reader b kb dB addr)"
    and hs: "distinct hs" "set hs = {SaltPack, Ratchet, Other}"
    and s: "cliRecv I L P S w hs dB data = (dB', lines, posts, r)"
    and inv: "cliInv P L S a ka b kb (dA, dB, (addr, input, data) # qA, qB)"
  shows "cliInv P L S a ka b kb (dA, dB', qA, qB) \<and> cliDelivered S (addr, input, lines, r)"
proof -
  from inv obtain cA cB smA smB pA0 pB where ex: "exInv P L a ka b kb (cA, cB, pA0, pB)"
    and A: "clManager cA = (smA, dA)" "indexed L smA dA" and B: "clManager cB = (smB, dB)" "indexed L smB dB"
    and q: "carries S ((addr, input, data) # qA) pA0" "carries S qB pB" unfolding cliInv.simps by blast
  from q(1) obtain lit pA where pA0: "pA0 = (lit, data) # pA" and lit: "literalOf S addr input lit" and qA: "carries S qA pA"
    unfolding carries_def by (auto simp: list_all2_Cons1)
  have mi: "managerInv a ka (smA, dA)" "managerInv b kb (smB, dB)" using exInv_managers [OF ex] A(1) B(1) by simp_all
  obtain sm where o: "cliOpen I L w dB = Inr (sm, b)" "newClient (cOp w) (sm, dB) b = Inr (opened sm dB addrB)"
    and st: "sameStore (smB, dB) (sm, dB)" "managerInv b kb (sm, dB)" and v: "indexValid (smSessions sm)"
    using laws(4) w mi(2) B(2) by (rule process_open)
  let ?c = "opened sm dB addrB"
  have "exInv P L b kb a ka (cB, cA, pB, pA0)" using ex exInv_swap by blast
  then have "exInv P L b kb a ka (?c, cA, pB, pA0)"
    by (rule exInv_sameStore) (use B(1) st in \<open>simp_all add: opened_def\<close>)
  then have ex0: "exInv P L a ka b kb (cA, ?c, (lit, data) # pA, pB)" using exInv_swap pA0 by blast
  then obtain pB' where "toSession L b pB' data" by auto
  then obtain dm where dm: "unmarshalMessage data = Inr (sessData, DataM dm)" by (auto simp: toSession_def)
  note inp = Input_ratchet [OF hs dm]
  obtain c1 r1 where h: "handleRatchet (diskManager L) P L S (cOp w) 1 data ?c = (c1, r1)" by fastforce
  have g: "goodIo L (cOp w)" "ioLock (cOp w) = None" using w by (simp_all add: goodCli_def goodIo_def)
  have u: "unusedKey P L (cOp w) f cA" "unusedKey P L (cOp w) f ?c"
    using unusedKey_reader [OF un(1) A(1)] unusedKey_reader [OF un(2), of ?c sm] mi(1) st(2)
    by (auto simp: opened_def managerInv_def)
  have ev: "clEvents c1 = clEvents ?c @ clEvents c1" by (simp add: opened_def)
  note rec = exInv_receive [OF laws(1-3) g(1) f u h ev ex0]
  then have r1: "r1 = None" by (auto simp: delivered_def)
  have out: "dB' = cliDone L w (clManager c1)" "lines = printed recvLine c1" "r = None"
    using s o h r1 by (simp_all add: cliRecv_def inp)
  have n: "indexNames c1 \<subseteq> indexNames ?c"
    using handleRatchet_names [OF dm g(2) h, of "{}"] by (simp add: unsealMsg_def)
  have ex1: "exInv P L b kb a ka (c1, cA, pB, pA)" using rec exInv_swap by blast
  have "indexValid (smSessions (fst (clManager ?c)))" "managerInv b kb (clManager ?c)"
    using v st(2) by (simp_all add: opened_def)
  then have v1: "indexValid (smSessions (fst (clManager c1)))"
    using n exInv_managers [OF ex1] indexValid_names by blast
  from w ex1 obtain c' sm' where "exInv P L b kb a ka (c', cA, pB, pA)" "clManager c' = (sm', dB')" "indexed L sm' dB'"
    using v1 unfolding out(1) by (rule process_done)
  then have "cliInv P L S a ka b kb (dA, dB', qA, qB)"
    using A qA q(2) exInv_swap unfolding cliInv.simps by blast
  moreover have "cliDelivered S (addr, input, lines, r)"
    unfolding out using delivered_printed [OF _ lit, of a r1 "clEvents c1" c1] rec r1 by simp
  ultimately show ?thesis ..
qed

lemma cliAct_inv:
  assumes "cliAct I P L S a ka b kb s l s'" and "aesLaw P" and "hmacLaw P" and "dhLaw P" and "jsonLaw L"
    and "cliInv P L S a ka b kb s"
  shows "cliInv P L S a ka b kb s' \<and> list_all (cliDelivered S) l"
  using assms
proof (induction rule: cliAct.induct)
  case (send w a ka addr dA b input dA' data posts kb dB qA qB)
  then show ?case using cliInv_send by simp
next
  case (recv w b kb addrB f a ka dA addr dB hs data dB' lines posts r input qA qB)
  then show ?case using cliInv_recv by simp
next
  case (swap b kb a ka dB dA qB qA l dB' dA' qB' qA')
  then have "cliInv P L S b kb a ka (dB, dA, qB, qA)" by (subst cliInv_swap)
  with swap have "cliInv P L S b kb a ka (dB', dA', qB', qA') \<and> list_all (cliDelivered S) l" by blast
  then show ?case using cliInv_swap by blast
qed

lemma cliRun_inv:
  assumes "cliRun I P L S a ka b kb s l s'" and "aesLaw P" and "hmacLaw P" and "dhLaw P" and "jsonLaw L"
    and "cliInv P L S a ka b kb s"
  shows "cliInv P L S a ka b kb s' \<and> list_all (cliDelivered S) l"
  using assms
proof (induction rule: cliRun.induct)
  case (more l s' l' s'')
  then have "cliInv P L S a ka b kb s'" "list_all (cliDelivered S) l" by blast+
  with cliAct_inv [OF more.hyps(2)] more.prems show ?case by simp
qed simp

section \<open>The handshake on the command line\<close>

text \<open>One process after another on the same directory.\<close>

lemma process_reopen:
  assumes "jsonLaw L" and "goodCli I L w self k addr0" and "goodCli I L w' self k addr"
    and "managerInv self k (clManager c)" and "\<forall>n \<in> indexNames c. ascii n"
  obtains sm where "cliOpen I L w' (cliDone L w (clManager c)) = Inr (sm, self)"
    and "newClient (cOp w') (sm, cliDone L w (clManager c)) self = Inr (opened sm (cliDone L w (clManager c)) addr)"
    and "sameStore (clManager c) (clManager (opened sm (cliDone L w (clManager c)) addr))"
    and "managerInv self k (clManager (opened sm (cliDone L w (clManager c)) addr))"
    and "\<forall>n \<in> indexNames (opened sm (cliDone L w (clManager c)) addr). ascii n"
proof -
  obtain sm0 d where c: "clManager c = (sm0, d)" by fastforce
  let ?d = "cliDone L w (sm0, d)"
  have m: "managerInv self k (sm0, d)" and v: "indexValid (smSessions sm0)"
    using assms(4,5) indexValid_names [OF assms(4)] c by simp_all
  note cd = cliDone_indexed [OF assms(2) m v]
  obtain sm where o: "cliOpen I L w' ?d = Inr (sm, self)" "newClient (cOp w') (sm, ?d) self = Inr (opened sm ?d addr)"
    and s: "sameStore (sm0, ?d) (sm, ?d)" "managerInv self k (sm, ?d)" and v': "indexValid (smSessions sm)"
    by (rule process_open [OF assms(1,3) cd(3,1)])
  have mo: "managerInv self k (clManager (opened sm ?d addr))" using s(2) by (simp add: opened_def)
  have "\<forall>n \<in> indexNames (opened sm ?d addr). ascii n"
    using v' indexValid_names [OF mo] by (simp add: opened_def)
  moreover have "sameStore (sm0, d) (clManager (opened sm ?d addr))"
    using sameStore_trans [OF cd(2) s(1)] by (simp add: opened_def)
  ultimately show thesis using o mo by (intro that [of sm]) (simp_all add: c)
qed

text \<open>The first process on an empty directory.\<close>

lemma process_empty:
  assumes "goodCli I L w self k addr"
  obtains sm where "cliOpen I L w Map.empty = Inr (sm, self)"
    and "newClient (cOp w) (sm, Map.empty) self = Inr (opened sm Map.empty addr)"
    and "managerInv self k (clManager (opened sm Map.empty addr))" and "indexNames (opened sm Map.empty addr) = {}"
    and "noSession L w' (clManager (opened sm Map.empty addr)) them"
proof -
  have "ioOpen (cOpen w) = None" using assms by (simp add: goodCli_def goodIo_def noFault_def)
  then have "cliOpen I L w Map.empty = Inr (\<lparr>smMe = self, smKey = k, smPos = -1, smSessions = []\<rparr>, self)"
    using assms by (simp add: cliOpen_def goodCli_def NewSessionManager_def Load_def)
  then show thesis
    by (rule that) (use assms in \<open>simp_all add: newClient_def goodCli_def opened_def managerInv_def privateDisk_def
        indexNames_def smNames_def noSession_def\<close>)
qed

text \<open>The inputs of the four processes of a handshake.\<close>

definition cliShake :: "prims \<Rightarrow> libs \<Rightarrow> identities \<Rightarrow> bytes \<Rightarrow> bytes \<Rightarrow> bytes \<Rightarrow> bytes \<Rightarrow> Addr \<Rightarrow> Addr \<Rightarrow>
    cliIo \<Rightarrow> cliIo \<Rightarrow> cliIo \<Rightarrow> cliIo \<Rightarrow> bool" where
  "cliShake P L I a kA b kB addrA addrB w1 w2 w3 w4 \<longleftrightarrow>
     goodCli I L w1 a kA addrA \<and> goodCli I L w2 b kB addrB \<and> goodCli I L w3 b kB addrB \<and> goodCli I L w4 a kA addrA
     \<and> ioPost (cOp w1) = None \<and> ioPost (cOp w3) = None
     \<and> ioLookup (cOp w1) b = Inr addrB \<and> addrKey addrB = edPublic kB
     \<and> ioLookup (cOp w2) a = Inr addrA \<and> addrKey addrA = edPublic kA
     \<and> (\<exists>f1 fs f2 f4. ioRand (cOp w1) = (\<lambda>i. RandOk (f1 i)) \<and> ioSeal (cOp w1) = RandOk fs
          \<and> ioRand (cOp w2) = (\<lambda>i. RandOk (f2 i)) \<and> ioRand (cOp w4) = (\<lambda>i. RandOk (f4 i))
          \<and> x25519_base P (map (f4 0) [0..<32]) \<noteq> x25519_base P (map (f1 0) [0..<32]))"

lemma cliShakeE:
  assumes "cliShake P L I a kA b kB addrA addrB w1 w2 w3 w4"
  obtains f1 fs f2 f4 where "ioRand (cOp w1) = (\<lambda>i. RandOk (f1 i))" and "ioSeal (cOp w1) = RandOk fs"
    and "ioRand (cOp w2) = (\<lambda>i. RandOk (f2 i))" and "ioRand (cOp w4) = (\<lambda>i. RandOk (f4 i))"
    and "x25519_base P (map (f4 0) [0..<32]) \<noteq> x25519_base P (map (f1 0) [0..<32])"
  using assms unfolding cliShake_def by blast

lemma cli_first:
  assumes laws: "convLaws P L kA kB" and asc: "ascii a" "ascii b"
    and w: "cliShake P L I a kA b kB addrA addrB w1 w2 w3 w4"
    and rnd: "ioRand (cOp w1) = (\<lambda>i. RandOk (f1 i))" "ioSeal (cOp w1) = RandOk fs" "ioRand (cOp w2) = (\<lambda>i. RandOk (f2 i))"
      "x25519_base P (map (f4 0) [0..<32]) \<noteq> x25519_base P (map (f1 0) [0..<32])"
    and hs: "distinct hs" "set hs = {SaltPack, Ratchet, Other}"
  obtains uA uB h drA drB cA1 offer cB1 where
    "shakes P L kA kB (freshSession uA a kA addrB) (freshSession uB b kB addrA) (RandOk (f1 0)) (RandOk fs)
      (\<lambda>i. RandOk (f2 i)) (RandOk (f4 0)) h"
    and "shaken P (freshSession uA a kA addrB) (freshSession uB b kB addrA) h drA drB"
    and "length uA = 16" and "length uB = 16"
    and "cliOffer I L P w1 late Map.empty b = (cliDone L w1 (clManager cA1), [offer], [(addrEndpoint addrB, offer)], None)"
    and "cliRecv I L P S w2 hs Map.empty offer =
      (cliDone L w2 (clManager cB1), [hsAckMsg h, str ''Session Started with  '' @ a], [], None)"
    and "managerInv a kA (clManager cA1)" and "managerInv b kB (clManager cB1)"
    and "keepsDisk L a kA cA1 b (offerSess uA a kA b addrB h)" and "keepsDisk L b kB cB1 a (pendSess uB b kB a addrA h)"
    and "\<forall>n \<in> indexNames cA1. ascii n" and "\<forall>n \<in> indexNames cB1. ascii n"
proof -
  have l: "aesLaw P" "hmacLaw P" "dhLaw P" "sha512Law P" and ed: "edKey P kA" "edKey P kB" and se: "sealing P L kB"
    using laws by (simp_all add: convLaws_def)
  have g: "goodCli I L w1 a kA addrA" "goodCli I L w2 b kB addrB" and post: "ioPost (cOp w1) = None"
    and addr: "ioLookup (cOp w1) b = Inr addrB" "addrKey addrB = edPublic kB"
      "ioLookup (cOp w2) a = Inr addrA" "addrKey addrA = edPublic kA"
    using w by (simp_all add: cliShake_def)
  have io: "goodIo L (cOp w1)" "goodIo L (cOp w2)" "ioLock (cOp w2) = None" using g by (simp_all add: goodCli_def goodIo_def)
  obtain smA where oA: "cliOpen I L w1 Map.empty = Inr (smA, a)"
      "newClient (cOp w1) (smA, Map.empty) a = Inr (opened smA Map.empty addrA)"
    and iA: "managerInv a kA (clManager (opened smA Map.empty addrA))" "indexNames (opened smA Map.empty addrA) = {}"
    and no: "noSession L (cOp w1) (clManager (opened smA Map.empty addrA)) b"
    by (rule process_empty [OF g(1)])
  obtain smB where oB: "cliOpen I L w2 Map.empty = Inr (smB, b)"
      "newClient (cOp w2) (smB, Map.empty) b = Inr (opened smB Map.empty addrB)"
    and iB: "managerInv b kB (clManager (opened smB Map.empty addrB))" "indexNames (opened smB Map.empty addrB) = {}"
    by (rule process_empty [OF g(2)])
  let ?cA = "opened smA Map.empty addrA" and ?cB = "opened smB Map.empty addrB"
  obtain uA uB h drA drB cA1 offer cB1 where
    sh: "shakes P L kA kB (freshSession uA a kA addrB) (freshSession uB b kB addrA) (RandOk (f1 0)) (RandOk fs)
      (\<lambda>i. RandOk (f2 i)) (RandOk (f4 0)) h"
    and sk: "shaken P (freshSession uA a kA addrB) (freshSession uB b kB addrA) h drA drB"
    and u: "length uA = 16" "length uB = 16"
    and 1: "clientChat (diskManager L) P L (cOp w1) late ?cA b = (cA1, False, None)"
      "clPosts cA1 = clPosts ?cA @ [(addrEndpoint addrB, offer)]" "clEvents cA1 = clEvents ?cA @ [OnOfferSent uA b offer]"
    and 2: "handleRatchet (diskManager L) P L S (cOp w2) 1 offer ?cB = (cB1, None)" "clPosts cB1 = clPosts ?cB"
      "\<exists>i. clEvents cB1 = clEvents ?cB @ [OnOfferReceived i a (hsAckMsg h), OnSessionStarted i a]"
    and m: "unmarshalMessage offer = Inr (sessSealed, SealedM (hsSealed h))"
    and i: "managerInv a kA (clManager cA1)" "managerInv b kB (clManager cB1)"
    and k: "keepsDisk L a kA cA1 b (offerSess uA a kA b addrB h)" "keepsDisk L b kB cB1 a (pendSess uB b kB a addrA h)"
    by (rule handshake_first [where ?f4.0 = f4 and late = late and S = S and ?q2.0 = 1,
          OF l ed se io(1,2) post rnd addr iA(1) iB(1) no])
  have r1: "cliOffer I L P w1 late Map.empty b = (cliDone L w1 (clManager cA1), [offer], [(addrEndpoint addrB, offer)], None)"
    using oA 1 by (simp add: cliOffer_def printed_def opened_def map_filter_simps)
  have r2: "cliRecv I L P S w2 hs Map.empty offer =
      (cliDone L w2 (clManager cB1), [hsAckMsg h, str ''Session Started with  '' @ a], [], None)"
    using oB 2 by (auto simp: cliRecv_def printed_def opened_def map_filter_simps Input_ratchet [OF hs m])
  have nA: "\<forall>n \<in> indexNames cA1. ascii n" using clientChat_names [OF 1(1)] iA(2) asc(2) by auto
  have "managerInv b kB (clManager (setPos (diskManager L) 1 ?cB))"
    using iB(1) dsm.inv_setPosition by (auto simp: setPos_def split: option.split)
  then have "unsealMsg (diskManager L) P L (setPos (diskManager L) 1 ?cB) (SealedM (hsSealed h)) = Inr (OfferM (hsOffer h))"
    using sh dsm.identity by (simp add: unsealMsg_def Let_def shakes_def)
  then have "indexNames cB1 \<subseteq> indexNames ?cB \<union> {a}"
    using handleRatchet_names [OF m io(3) 2(1), of "{a}"] sh by (simp add: shakes_def)
  then have nB: "\<forall>n \<in> indexNames cB1. ascii n" using iB(2) asc(1) by auto
  show thesis by (rule that [OF sh sk u r1 r2 i k nA nB])
qed

lemma cli_second:
  assumes laws: "hmacLaw P" "jsonLaw L" and asc: "ascii a"
    and w: "cliShake P L I a kA b kB addrA addrB w1 w2 w3 w4" and rnd: "ioRand (cOp w4) = (\<lambda>i. RandOk (f4 i))"
    and keys: "length (addrKey addrB) = 32" "length (addrKey addrA) = 32"
    and hs: "distinct hs" "set hs = {SaltPack, Ratchet, Other}"
    and sh: "shakes P L kA kB (freshSession uA a kA addrB) (freshSession uB b kB addrA) r1 rs r2 (RandOk (f4 0)) h"
    and sk: "shaken P (freshSession uA a kA addrB) (freshSession uB b kB addrA) h drA drB"
    and u: "length uA = 16" "length uB = 16"
    and i: "managerInv a kA (clManager cA1)" "managerInv b kB (clManager cB1)"
    and k: "keepsDisk L a kA cA1 b (offerSess uA a kA b addrB h)" "keepsDisk L b kB cB1 a (pendSess uB b kB a addrA h)"
    and n: "\<forall>n \<in> indexNames cA1. ascii n" "\<forall>n \<in> indexNames cB1. ascii n"
  obtains dB2 dA2 where
    "cliOffer I L P w3 late (cliDone L w2 (clManager cB1)) a = (dB2, [], [(addrEndpoint addrA, hsAckMsg h)], None)"
    and "cliRecv I L P S w4 hs (cliDone L w1 (clManager cA1)) (hsAckMsg h) =
      (dA2, [str ''Session Started with  '' @ b], [], None)"
    and "cliInv P L S a kA b kB (dA2, dB2, [], [])"
proof -
  have g: "goodCli I L w1 a kA addrA" "goodCli I L w2 b kB addrB" "goodCli I L w3 b kB addrB" "goodCli I L w4 a kA addrA"
    and post: "ioPost (cOp w3) = None"
    using w by (simp_all add: cliShake_def)
  have io: "goodIo L (cOp w3)" "goodIo L (cOp w4)" "ioLock (cOp w4) = None" using g by (simp_all add: goodCli_def goodIo_def)
  let ?dA = "cliDone L w1 (clManager cA1)" and ?dB = "cliDone L w2 (clManager cB1)"
  obtain smB where oB: "cliOpen I L w3 ?dB = Inr (smB, b)" "newClient (cOp w3) (smB, ?dB) b = Inr (opened smB ?dB addrB)"
    and sB: "sameStore (clManager cB1) (clManager (opened smB ?dB addrB))"
      "managerInv b kB (clManager (opened smB ?dB addrB))" "\<forall>n \<in> indexNames (opened smB ?dB addrB). ascii n"
    by (rule process_reopen [OF laws(2) g(2,3) i(2) n(2)])
  obtain smA where oA: "cliOpen I L w4 ?dA = Inr (smA, a)" "newClient (cOp w4) (smA, ?dA) a = Inr (opened smA ?dA addrA)"
    and sA: "sameStore (clManager cA1) (clManager (opened smA ?dA addrA))"
      "managerInv a kA (clManager (opened smA ?dA addrA))" "\<forall>n \<in> indexNames (opened smA ?dA addrA). ascii n"
    by (rule process_reopen [OF laws(2) g(1,4) i(1) n(1)])
  let ?cA = "opened smA ?dA addrA" and ?cB = "opened smB ?dB addrB"
  have r4: "ioRand (cOp w4) 0 = RandOk (f4 0)" using rnd by simp
  obtain cB2 cA2 where 3: "clientChat (diskManager L) P L (cOp w3) late ?cB a = (cB2, late, None)"
      "clPosts cB2 = clPosts ?cB @ [(addrEndpoint addrA, hsAckMsg h)]" "clEvents cB2 = clEvents ?cB @ [OnSessionStarted uB a]"
    and 4: "handleRatchet (diskManager L) P L S (cOp w4) 1 (hsAckMsg h) ?cA = (cA2, None)"
      "clPosts cA2 = clPosts ?cA" "clEvents cA2 = clEvents ?cA @ [OnSessionStarted uA b]"
    and ex: "exInv P L a kA b kB (cA2, cB2, [], [])"
    by (rule handshake_second [where ?f4.0 = f4 and late = late and S = S and ?q4.0 = 1, OF laws(1) io(1,2) post r4 keys
          sh sk u sA(2) sB(2) keeps_sameStore [OF k(1) sA(1)] keeps_sameStore [OF k(2) sB(1)]])
  have m: "unmarshalMessage (hsAckMsg h) = Inr (sessAck, AckM (hsAck h))" using sh by (simp add: shakes_def)
  have r3: "cliOffer I L P w3 late ?dB a = (cliDone L w3 (clManager cB2), [], [(addrEndpoint addrA, hsAckMsg h)], None)"
    using oB 3 by (simp add: cliOffer_def printed_def opened_def map_filter_simps)
  have r4: "cliRecv I L P S w4 hs ?dA (hsAckMsg h) = (cliDone L w4 (clManager cA2), [str ''Session Started with  '' @ b], [], None)"
    using oA 4 by (auto simp: cliRecv_def printed_def opened_def map_filter_simps Input_ratchet [OF hs m])
  have "indexNames cA2 \<subseteq> indexNames ?cA"
    using handleRatchet_names [OF m io(3) 4(1), of "{}"] by (simp add: unsealMsg_def)
  then have vA: "indexValid (smSessions (fst (clManager cA2)))" using sA(3) exInv_managers [OF ex] indexValid_names by blast
  have vB: "indexValid (smSessions (fst (clManager cB2)))"
    using clientChat_names [OF 3(1)] sB(3) asc exInv_managers [OF ex] indexValid_names by blast
  obtain cA3 smA3 where A3: "exInv P L a kA b kB (cA3, cB2, [], [])" "clManager cA3 = (smA3, cliDone L w4 (clManager cA2))"
    "indexed L smA3 (cliDone L w4 (clManager cA2))"
    by (rule process_done [OF g(4) ex vA])
  have "exInv P L b kB a kA (cB2, cA3, [], [])" using A3(1) exInv_swap by blast
  then obtain cB3 smB3 where B3: "exInv P L b kB a kA (cB3, cA3, [], [])" "clManager cB3 = (smB3, cliDone L w3 (clManager cB2))"
    "indexed L smB3 (cliDone L w3 (clManager cB2))"
    using process_done [OF g(3) _ vB] by blast
  have "carries S [] []" by (simp add: carries_def)
  then have "cliInv P L S a kA b kB (cliDone L w4 (clManager cA2), cliDone L w3 (clManager cB2), [], [])"
    using A3(2,3) B3 exInv_swap unfolding cliInv.simps by blast
  with r3 r4 show thesis by (rule that)
qed

text \<open>
  C2: the command line program works across processes: starting from empty state directories, ratchet offer, ratchet recv, ratchet offer and ratchet recv, each a process of its own that restores the state from files and saves it again, establish a session, printing the offer and the acknowledgement on the way; from then on the ratchet recv that reads the messages of the sender in their order prints what the message parser makes of exactly the message ratchet send built from each text.
\<close>

theorem cli_correct:
  assumes "convLaws P L kA kB" and "jsonLaw L" and "ascii a" and "ascii b"
    and "cliShake P L I a kA b kB addrA addrB w1 w2 w3 w4"
    and "distinct hs" and "set hs = {SaltPack, Ratchet, Other}"
  shows "\<exists>dA1 offer dB1 ack dB2 dA2.
    cliOffer I L P w1 late Map.empty b = (dA1, [offer], [(addrEndpoint addrB, offer)], None)
    \<and> cliRecv I L P S w2 hs Map.empty offer = (dB1, [ack, str ''Session Started with  '' @ a], [], None)
    \<and> cliOffer I L P w3 late dB1 a = (dB2, [], [(addrEndpoint addrA, ack)], None)
    \<and> cliRecv I L P S w4 hs dA1 ack = (dA2, [str ''Session Started with  '' @ b], [], None)
    \<and> (\<forall>l s. cliRun I P L S a kA b kB (dA2, dB2, [], []) l s \<longrightarrow> list_all (cliDelivered S) l)"
proof -
  have laws: "aesLaw P" "hmacLaw P" "dhLaw P" and keys: "length (addrKey addrB) = 32" "length (addrKey addrA) = 32"
    using assms(1,5) edKey_public by (simp_all add: convLaws_def cliShake_def)
  from assms(5) obtain f1 fs f2 f4 where rnd: "ioRand (cOp w1) = (\<lambda>i. RandOk (f1 i))" "ioSeal (cOp w1) = RandOk fs"
    "ioRand (cOp w2) = (\<lambda>i. RandOk (f2 i))" "ioRand (cOp w4) = (\<lambda>i. RandOk (f4 i))"
    "x25519_base P (map (f4 0) [0..<32]) \<noteq> x25519_base P (map (f1 0) [0..<32])"
    by (rule cliShakeE)
  obtain uA uB h drA drB cA1 offer cB1 where
    sh: "shakes P L kA kB (freshSession uA a kA addrB) (freshSession uB b kB addrA) (RandOk (f1 0)) (RandOk fs)
      (\<lambda>i. RandOk (f2 i)) (RandOk (f4 0)) h"
    and sk: "shaken P (freshSession uA a kA addrB) (freshSession uB b kB addrA) h drA drB"
    and u: "length uA = 16" "length uB = 16"
    and r: "cliOffer I L P w1 late Map.empty b = (cliDone L w1 (clManager cA1), [offer], [(addrEndpoint addrB, offer)], None)"
      "cliRecv I L P S w2 hs Map.empty offer =
        (cliDone L w2 (clManager cB1), [hsAckMsg h, str ''Session Started with  '' @ a], [], None)"
    and i: "managerInv a kA (clManager cA1)" "managerInv b kB (clManager cB1)"
    and k: "keepsDisk L a kA cA1 b (offerSess uA a kA b addrB h)" "keepsDisk L b kB cB1 a (pendSess uB b kB a addrA h)"
    and n: "\<forall>n \<in> indexNames cA1. ascii n" "\<forall>n \<in> indexNames cB1. ascii n"
    by (rule cli_first [where ?f1.0 = f1 and ?f4.0 = f4 and late = late and S = S, OF assms(1,3-5) rnd(1-3,5) assms(6,7)])
  obtain dB2 dA2 where "cliOffer I L P w3 late (cliDone L w2 (clManager cB1)) a = (dB2, [], [(addrEndpoint addrA, hsAckMsg h)], None)"
    "cliRecv I L P S w4 hs (cliDone L w1 (clManager cA1)) (hsAckMsg h) = (dA2, [str ''Session Started with  '' @ b], [], None)"
    and inv: "cliInv P L S a kA b kB (dA2, dB2, [], [])"
    by (rule cli_second [where ?f4.0 = f4 and late = late and S = S, OF laws(2) assms(2,3,5) rnd(4) keys assms(6,7) sh sk u i k n])
  moreover have "list_all (cliDelivered S) l" if "cliRun I P L S a kA b kB (dA2, dB2, [], []) l s" for l s
    using cliRun_inv [OF that laws assms(2) inv] by blast
  ultimately show ?thesis using r by blast
qed

text \<open>Inputs of processes for the witness.\<close>

definition cliWorld :: "(nat \<Rightarrow> byte) \<Rightarrow> io" where
  "cliWorld f = (demoWorld f [])\<lparr>ioLookup := (\<lambda>n. Inr (demoAddr n (if n = [97] then demoAliceKey else demoBobKey)))\<rparr>"

definition demoIdent :: identities where
  "demoIdent b = Inr (take 1 b, drop 1 b)"

definition demoCli :: "bytes \<Rightarrow> bytes \<Rightarrow> (nat \<Rightarrow> byte) \<Rightarrow> cliIo" where
  "demoCli n k f = \<lparr>cKey = \<lparr>keyStat = Inr 384, keyOpen = None, keyRead = Inr (n @ k)\<rparr>,
     cOpen = demoWorld (\<lambda>_. 5) [], cOp = cliWorld f, cClose = demoWorld (\<lambda>_. 5) [], cOrder = (\<lambda>l. l)\<rparr>"

lemma cliWorld_good: "goodIo demoLibs (cliWorld f)"
  using demo_goodIo [of f "[]"] by (simp add: cliWorld_def goodIo_def noFault_def saneUlid_def ulidLaw_def)

lemma demoCli_good:
  "length n = 1 \<Longrightarrow> goodCli demoIdent demoLibs (demoCli n k f) n k (demoAddr n (if n = [97] then demoAliceKey else demoBobKey))"
  using demo_goodIo cliWorld_good
  by (simp add: goodCli_def demoCli_def ReadSaltyIdentity_def demoIdent_def weakMode_def cliWorld_def)

theorem cli_correct_witness:
  "\<exists>dA1 offer dB1 ack dB2 dA2.
    cliOffer demoIdent demoLibs demo (demoCli [97] demoAliceKey (\<lambda>_. 3)) True Map.empty [98] =
      (dA1, [offer], [(addrEndpoint (demoAddr [98] demoBobKey), offer)], None)
    \<and> cliRecv demoIdent demoLibs demo demoSalty (demoCli [98] demoBobKey word_of_nat) [Other, Ratchet, SaltPack] Map.empty offer =
      (dB1, [ack, str ''Session Started with  '' @ [97]], [], None)
    \<and> cliOffer demoIdent demoLibs demo (demoCli [98] demoBobKey (\<lambda>_. 5)) True dB1 [97] =
      (dB2, [], [(addrEndpoint (demoAddr [97] demoAliceKey), ack)], None)
    \<and> cliRecv demoIdent demoLibs demo demoSalty (demoCli [97] demoAliceKey (\<lambda>_. 4)) [Other, Ratchet, SaltPack] dA1 ack =
      (dA2, [str ''Session Started with  '' @ [98]], [], None)
    \<and> (\<forall>l s. cliRun demoIdent demo demoLibs demoSalty [97] demoAliceKey [98] demoBobKey (dA2, dB2, [], []) l s
          \<longrightarrow> list_all (cliDelivered demoSalty) l)"
proof (rule cli_correct [OF demo_convLaws demo_jsonLaw])
  have "x25519_base demo (map ((\<lambda>_ _. 4) (0 :: nat)) [0..<32]) \<noteq> x25519_base demo (map ((\<lambda>_ _. 3) (0 :: nat)) [0..<32])"
    using demo_inputs(7) by simp
  then have "\<exists>f1 fs f2 f4. ioRand (cliWorld (\<lambda>_. 3)) = (\<lambda>i. RandOk (f1 i)) \<and> ioSeal (cliWorld (\<lambda>_. 3)) = RandOk fs
      \<and> ioRand (cliWorld word_of_nat) = (\<lambda>i. RandOk (f2 i)) \<and> ioRand (cliWorld (\<lambda>_. 4)) = (\<lambda>i. RandOk (f4 i))
      \<and> x25519_base demo (map (f4 0) [0..<32]) \<noteq> x25519_base demo (map (f1 0) [0..<32])"
    by (intro exI [of _ "\<lambda>_ _. 3"] exI [of _ "\<lambda>_. 9"] exI [of _ "\<lambda>i _. word_of_nat i"] exI [of _ "\<lambda>_ _. 4"])
      (simp add: cliWorld_def demoWorld_def demoIo_def)
  then show "cliShake demo demoLibs demoIdent [97] demoAliceKey [98] demoBobKey (demoAddr [97] demoAliceKey) (demoAddr [98] demoBobKey)
      (demoCli [97] demoAliceKey (\<lambda>_. 3)) (demoCli [98] demoBobKey word_of_nat) (demoCli [98] demoBobKey (\<lambda>_. 5))
      (demoCli [97] demoAliceKey (\<lambda>_. 4))"
    using demoCli_good [of "[97]"] demoCli_good [of "[98]"]
    by (simp add: cliShake_def demoAddr_def) (simp add: demoCli_def cliWorld_def demoWorld_def demoIo_def demoAddr_def)
qed (auto simp: ascii_def)

section \<open>The position of the message bus\<close>

lemma setPos_disk: "clManager (setPos (diskManager L) q c) = (SetPosition (q + 1) (fst (clManager c)), snd (clManager c))"
  by (simp add: setPos_def diskManager_def split: prod.split)

text \<open>
  What an incoming message of any type keeps of the manager: whatever new sessions, saving and deleting
  keep. Nothing but \<open>SetPosition\<close> changes the position.
\<close>

definition preserves :: "libs \<Rightarrow> io \<Rightarrow> (DiskSessionManager \<times> disk \<Rightarrow> bool) \<Rightarrow> bool" where
  "preserves L w R \<longleftrightarrow> (\<forall>s n s' r. R s \<longrightarrow> mNew (diskManager L) w s n = (s', r) \<longrightarrow> R s')
     \<and> (\<forall>s p s' e. R s \<longrightarrow> mPut (diskManager L) w s p = (s', e) \<longrightarrow> R s')
     \<and> (\<forall>s p s' e. R s \<longrightarrow> mDelete (diskManager L) w s p = (s', e) \<longrightarrow> R s')"

lemma preservesD:
  assumes "preserves L w R" and "R s"
  shows "mNew (diskManager L) w s n = (s', r) \<Longrightarrow> R s'"
    and "mPut (diskManager L) w s p = (s', e) \<Longrightarrow> R s'"
    and "mDelete (diskManager L) w s p = (s', e) \<Longrightarrow> R s'"
  using assms unfolding preserves_def by blast+

lemma sessionFor_preserves:
  assumes "preserves L w R" and "R (clManager c)" and "sessionFor (diskManager L) w c i m = (c', r)"
  shows "R (clManager c')"
proof (cases m)
  case (OfferM offer)
  obtain s res where n: "mNew (diskManager L) w (clManager c) (o_nick offer) = (s, res)" by fastforce
  then have "c' = c\<lparr>clManager := s\<rparr>" using assms(3) OfferM by (auto simp: sessionFor_def split: sum.splits)
  with preservesD(1) [OF assms(1,2) n] show ?thesis by simp
qed (use assms(2,3) in \<open>auto simp: sessionFor_def split: sum.splits if_splits\<close>)

lemma putSession_preserves:
  assumes "preserves L w R" and "R (clManager c)" and "putSession (diskManager L) w c sess = (c', e)"
  shows "R (clManager c')"
proof -
  obtain s e' where p: "mPut (diskManager L) w (clManager c) sess = (s, e')" by fastforce
  then have "c' = c\<lparr>clManager := s\<rparr>" using assms(3) by (simp add: putSession_def)
  with preservesD(2) [OF assms(1,2) p] show ?thesis by simp
qed

lemma afterReceive_preserves:
  assumes "preserves L w R" and "R (clManager c)"
  shows "R (clManager (fst (afterReceive (diskManager L) S w c sess xm est cl pt)))"
proof -
  note preservesD(3) [OF assms, of sess]
  with assms(2) show ?thesis
    by (auto simp: afterReceive_def dispatch_def Let_def split: sum.splits saltyMsg.splits if_splits option.splits prod.splits)
qed

lemma ratchetBody_preserves:
  assumes p: "preserves L w R" and R: "R (clManager (setPos (diskManager L) q c))"
    and b: "ratchetBody (diskManager L) P L S w q i xmsg c = (c', r)"
  shows "R (clManager c')"
proof (cases "unsealMsg (diskManager L) P L (setPos (diskManager L) q c) xmsg")
  case (Inl e)
  then show ?thesis using R b by (auto simp: ratchetBody_def Let_def)
next
  case (Inr m)
  obtain c1 so where s: "sessionFor (diskManager L) w (setPos (diskManager L) q c) i m = (c1, so)" by fastforce
  have R1: "R (clManager c1)" using p R s by (rule sessionFor_preserves)
  show ?thesis
  proof (cases "\<exists>sess. so = Inr (Some sess)")
    case False
    then show ?thesis using b Inr s R1 by (auto simp: ratchetBody_def Let_def split: sum.splits option.splits)
  next
    case True
    then obtain sess where so: "so = Inr (Some sess)" by blast
    obtain sess' est cl pt e where rm: "peerReceiveMsg P (ioRand w) sess m = (sess', est, cl, pt, e)"
      by (cases "peerReceiveMsg P (ioRand w) sess m") auto
    define c2 where "c2 = (if PendingAck sess' \<noteq> [] then
        fst (dispatch c1 (OnOfferReceived (toULID (deref (ID m))) (Name sess') (PendingAck sess'))) else c1)"
    obtain c3 e3 where put: "putSession (diskManager L) w c2 sess' = (c3, e3)" by fastforce
    have "R (clManager c2)" using R1 by (simp add: c2_def dispatch_def)
    with p have R3: "R (clManager c3)" using put by (rule putSession_preserves)
    have "(c', r) = (case e of Some e \<Rightarrow> (c1, Some (wrap ''session receive'' e)) | None \<Rightarrow>
        (case e3 of Some e \<Rightarrow> (c3, Some e) | None \<Rightarrow> afterReceive (diskManager L) S w c3 sess' m est cl pt))"
      using b Inr s so rm put by (simp add: ratchetBody_def Let_def c2_def [symmetric] split: option.splits)
    then have "c' = fst \<dots>" by (metis fst_conv)
    with R1 R3 afterReceive_preserves [OF p R3, of S sess' m est cl pt] show ?thesis by (cases e; cases e3) auto
  qed
qed

lemma report_manager: "report (c, r) = (c', r') \<Longrightarrow> clManager c' = clManager c"
  by (cases "(c, r)" rule: report.cases) (auto simp: dispatch_def)

lemma handleRatchet_preserves:
  assumes "unmarshalMessage msg = Inr (t, xmsg)" and "ioLock w = None"
    and "handleRatchet (diskManager L) P L S w q msg c = (c', r)"
    and "preserves L w R" and "R (clManager (setPos (diskManager L) q c))"
  shows "R (clManager c')"
proof -
  obtain c1 e where b: "ratchetBody (diskManager L) P L S w q (goCopy 16 (deref (ID xmsg))) xmsg c = (c1, e)" by fastforce
  with assms(1-3) have "report (c1, e) = (c', r)"
    using dataMsg_ratchet [OF assms(1)] by (simp add: handleRatchet_def readMsg_def Parse_def Use_def)
  with report_manager ratchetBody_preserves [OF assms(4,5) b] show ?thesis by metis
qed

lemma preserves_position:
  assumes "saneUlid w"
  shows "preserves L w (\<lambda>s. managerInv self k s \<and> smPos (fst s) = p)"
proof -
  have n: "smPos (fst (New w sm n)) = smPos sm" for sm n
    unfolding New_fst by (simp add: ByName_def split: option.split)
  have d: "Delete L w sm d s = (sm', d', e) \<Longrightarrow> smPos sm' = smPos sm" for sm d s sm' d' e
    by (auto simp: Delete_def Let_def split: option.splits)
  have "smPos (fst s') = smPos (fst s)" if "mNew (diskManager L) w s m = (s', r)" for s m s' r
    using that n [of "fst s" m] by (auto simp: diskManager_def split: prod.splits)
  moreover have "smPos (fst s') = smPos (fst s)" if "mPut (diskManager L) w s m = (s', e)" for s m s' e
    using that by (auto simp: diskManager_def split: prod.splits)
  moreover have "smPos (fst s') = smPos (fst s)" if "mDelete (diskManager L) w s m = (s', e)" for s m s' e
    using that d by (auto simp: diskManager_def split: prod.splits)
  ultimately show ?thesis
    unfolding preserves_def by (auto dest: dsm.inv_new [OF _ assms] dsm.inv_put dsm.inv_delete)
qed

text \<open>The offer a message carries for the owner of the key \<open>k\<close>, in the open or sealed.\<close>

fun offerIn :: "libs \<Rightarrow> prims \<Rightarrow> bytes \<Rightarrow> Msg \<Rightarrow> offerMessage option" where
  "offerIn L P k (OfferM offer) = Some offer"
| "offerIn L P k (SealedM s) = (case Unseal P s (x25519Private L k) (x25519Own L k) of Inr (OfferM offer) \<Rightarrow> Some offer | _ \<Rightarrow> None)"
| "offerIn L P k _ = None"

lemma unsealMsg_offer:
  assumes "managerInv self k (clManager c)" and "unsealMsg (diskManager L) P L c xmsg = Inr (OfferM offer)"
  shows "offerIn L P k xmsg = Some offer"
  using assms dsm.identity [OF assms(1)] by (cases xmsg) (auto simp: unsealMsg_def Let_def)

text \<open>The manager after \<open>recv\<close> has handled a message: the position is 2 and its index can be stored.\<close>

lemma recv_position:
  assumes "unmarshalMessage msg = Inr (t, xmsg)" and "goodIo L w"
    and "managerInv self k (clManager c)" and "indexValid (smSessions (fst (clManager c)))"
    and "\<And>offer. offerIn L P k xmsg = Some offer \<Longrightarrow> ascii (o_nick offer)"
    and "handleRatchet (diskManager L) P L S w q msg c = (c', r)"
  shows "managerInv self k (clManager c') \<and> smPos (fst (clManager c')) = q + 1 \<and> indexValid (smSessions (fst (clManager c')))"
proof -
  have g: "saneUlid w" "ioLock w = None" using assms(2) by (simp_all add: goodIo_def)
  have i: "managerInv self k (clManager (setPos (diskManager L) q c))"
    using assms(3) dsm.inv_setPosition by (auto simp: setPos_def split: option.split)
  then have "managerInv self k (clManager (setPos (diskManager L) q c)) \<and> smPos (fst (clManager (setPos (diskManager L) q c))) = q + 1"
    by (simp add: setPos_disk SetPosition_def)
  then have m: "managerInv self k (clManager c') \<and> smPos (fst (clManager c')) = q + 1"
    using handleRatchet_preserves [OF assms(1) g(2) assms(6) preserves_position [OF g(1)], of self k "q + 1"] by blast
  have "indexNames c' \<subseteq> indexNames c \<union> {n. ascii n}"
    using assms(5) unsealMsg_offer [OF i]
    by (intro handleRatchet_names [OF assms(1) g(2) assms(6)]) blast
  with m assms(3,4) show ?thesis using indexValid_names [of self k c] indexValid_names [of self k c'] by blast
qed

text \<open>
  C31: the command recv rewinds the message bus: it hands every message to the client with position 1, so that after it has handled a ratchet message of any type (an offer, in the open or sealed, from a name that JSON can store) the position a manager that is opened later reports is 2, whatever it was before.
\<close>

theorem cli_recv_rewinds:
  assumes "jsonLaw L" and "goodCli I L w self k addr" and "managerInv self k (sm, d)" and "indexed L sm d"
    and "unmarshalMessage input = Inr (t, xmsg)"
    and "\<forall>offer. offerIn L P k xmsg = Some offer \<longrightarrow> ascii (o_nick offer)"
    and "distinct hs" and "set hs = {SaltPack, Ratchet, Other}"
    and "cliRecv I L P S w hs d input = (d', lines, posts, None)" and "ioOpen w' = None"
  shows "\<exists>sm'. NewSessionManager L w' self k d' = (sm', None) \<and> Position sm' = 2"
proof -
  obtain sm0 where o: "cliOpen I L w d = Inr (sm0, self)" "newClient (cOp w) (sm0, d) self = Inr (opened sm0 d addr)"
    and st: "sameStore (sm, d) (sm0, d)" "managerInv self k (sm0, d)" and v: "indexValid (smSessions sm0)"
    by (rule process_open [OF assms(1-4)])
  obtain c1 r where h: "handleRatchet (diskManager L) P L S (cOp w) 1 input (opened sm0 d addr) = (c1, r)" by fastforce
  have g: "goodIo L (cOp w)" using assms(2) by (simp add: goodCli_def)
  have io: "managerInv self k (clManager (opened sm0 d addr))" "indexValid (smSessions (fst (clManager (opened sm0 d addr))))"
    using st(2) v by (simp_all add: opened_def)
  obtain sm1 d1 where c: "clManager c1 = (sm1, d1)" by fastforce
  with recv_position [OF assms(5) g io _ h] assms(6)
  have p: "smMe sm1 = self" "smPos sm1 = 2" and v1: "indexValid (smSessions sm1)" by (auto simp: managerInv_def)
  have d': "d' = cliDone L w (sm1, d1)"
    using assms(9) o h c by (auto simp: cliRecv_def Input_ratchet [OF assms(7,8,5)] split: option.splits)
  have f: "ioCreate (cClose w) = None" "ioWrite (cClose w) = None" and ms: "mset (cOrder w (smSessions sm1)) = mset (smSessions sm1)"
    using assms(2) by (simp_all add: goodCli_def goodIo_def noFault_def)
  obtain n where n: "d' (indexName self) = Some n" "fileData n = jsonIndex L (2, cOrder w (smSessions sm1))"
    using f p unfolding d' by (auto simp: cliDone_def closeManager_def Let_def split: option.splits)
  have "indexValid (cOrder w (smSessions sm1))" using v1 indexValid_mset [OF ms] by simp
  then have "unjsonIndex L (fileData n) = Inr (2, cOrder w (smSessions sm1))"
    using assms(1) n(2) by (simp add: jsonLaw_def indexValid_def)
  with n(1) assms(10) show ?thesis by (simp add: NewSessionManager_def Load_def Position_def)
qed

theorem cli_recv_rewinds_witness:
  "\<exists>d input d' lines posts sm'. cliRecv demoIdent demoLibs demo demoSalty (demoCli [98] demoBobKey (\<lambda>_. 5))
      [Ratchet, SaltPack, Other] d input = (d', lines, posts, None)
    \<and> NewSessionManager demoLibs (demoWorld (\<lambda>_. 5) []) [98] demoBobKey d' = (sm', None) \<and> Position sm' = 2"
proof -
  let ?w = "demoCli [98] demoBobKey (\<lambda>_. 5)" and ?sm = "\<lparr>smMe = [98], smKey = demoBobKey, smPos = 7, smSessions = []\<rparr>"
  let ?d = "cliDone demoLibs ?w (?sm, Map.empty)"
  have g: "goodCli demoIdent demoLibs ?w [98] demoBobKey (demoAddr [98] demoBobKey)" using demoCli_good [of "[98]"] by simp
  have m0: "managerInv [98] demoBobKey (?sm, Map.empty)" by (simp add: managerInv_def privateDisk_def)
  have v0: "indexValid (smSessions ?sm)" by (simp add: indexValid_def)
  note cd = cliDone_indexed [OF g m0 v0]
  have "msgValid (DataM \<lparr>d_uuid = replicate 16 1, d_payload = [1]\<rparr>)" by (simp add: dataValid_def)
  then obtain input where dm: "unmarshalMessage input = Inr (sessData, DataM \<lparr>d_uuid = replicate 16 1, d_payload = [1]\<rparr>)"
    by (rule transport) simp_all
  obtain sm where o: "cliOpen demoIdent demoLibs ?w ?d = Inr (sm, [98])"
      "newClient (cOp ?w) (sm, ?d) [98] = Inr (opened sm ?d (demoAddr [98] demoBobKey))"
    and st: "sameStore (?sm, ?d) (sm, ?d)"
    by (rule process_open [OF demo_jsonLaw g cd(3,1)])
  have "?d (sessionhash demoLibs [98] i) = None" for i using cd(2) sessionhash_index by simp
  then have "mGet (diskManager demoLibs) (cOp ?w) (SetPosition 2 sm, ?d) i = Inl (wrap ''stat'' ErrNotExist)" for i
    using st g by (simp add: diskManager_def Get_def SetPosition_def goodCli_def goodIo_def noFault_def)
  then have h: "handleRatchet (diskManager demoLibs) demo demoLibs demoSalty (cOp ?w) 1 input (opened sm ?d (demoAddr [98] demoBobKey)) =
      (setPos (diskManager demoLibs) 1 (opened sm ?d (demoAddr [98] demoBobKey)), None)"
    using g dataMsg_ratchet [OF dm] dm
    by (simp add: handleRatchet_def readMsg_def Parse_def Use_def ratchetBody_def unsealMsg_def sessionFor_def setPos_disk
        opened_def goodCli_def goodIo_def)
  have hs: "distinct [Ratchet, SaltPack, Other]" "set [Ratchet, SaltPack, Other] = {SaltPack, Ratchet, Other}" by auto
  obtain d' lines posts where r: "cliRecv demoIdent demoLibs demo demoSalty ?w [Ratchet, SaltPack, Other] ?d input = (d', lines, posts, None)"
    using o h by (simp add: cliRecv_def Input_ratchet [OF hs dm] del: Input.simps)
  have "ioOpen (demoWorld (\<lambda>_. 5) []) = None" by (simp add: demoWorld_def demoIo_def)
  moreover have "\<forall>offer. offerIn demoLibs demo demoBobKey (DataM \<lparr>d_uuid = replicate 16 1, d_payload = [1]\<rparr>) = Some offer \<longrightarrow> ascii (o_nick offer)"
    by simp
  ultimately show ?thesis using cli_recv_rewinds [OF demo_jsonLaw g cd(3,1) dm _ hs r] r by blast
qed

end
