(* ===== verification/EntryPoint.thy ===== *)
theory EntryPoint
  imports Ui CliRuns
begin

text \<open>
  The program (\<open>src/main.go\<close>) and the driver of the message bus
  (\<open>src/client/driver-msgbus/driver-msgbus.go\<close>): where the text of a message is read from, which command
  runs, and with which status the process exits. The parser of the command line (\<open>docopt\<close>) and the
  client of the message bus are parameters; the paths of the identity file and of the state directory
  stand for the file and the directory they name.
\<close>

section \<open>The message bus\<close>

record busMessage =
  msgID :: int
  msgPayload :: bytes

text \<open>The handler gives the identifier of the message as its position and drops the error.\<close>

definition hdlr :: "(int \<Rightarrow> bytes \<Rightarrow> 'c \<Rightarrow> 'c \<times> err option) \<Rightarrow> busMessage \<Rightarrow> 'c \<Rightarrow> 'c \<times> err option" where
  "hdlr fn msg c = (case fn (msgID msg) (msgPayload msg) c of (c, r) \<Rightarrow> (c, onlyPanic r))"

section \<open>Options and input\<close>

text \<open>The options \<open>--session\<close>, \<open>--log\<close> and \<open>--post\<close> are bound but never read.\<close>

record opts =
  optOffer :: bool
  optSend :: bool
  optRecv :: bool
  optClose :: bool
  optChat :: bool
  optUI :: bool
  optThem :: bytes
  optMsg :: bytes
  optMsgFile :: bytes
  optMsgStdin :: bool

text \<open>A reader by what it delivers and the error after that.\<close>

type_synonym reader = "bytes \<times> err"

text \<open>\<open>bufio.Reader.ReadString\<close>: up to and including the first separator.\<close>

definition ReadString :: "byte \<Rightarrow> reader \<Rightarrow> bytes result" where
  "ReadString sep r = (case r of (b, e) \<Rightarrow>
     (if sep \<in> set b then Inr (takeWhile (\<lambda>c. c \<noteq> sep) b @ [sep]) else Inl e))"

text \<open>
  The input of a process: that of the client, standard input, the file of the option, the run of an
  interactive command, what its driver returns, and whether the terminal library catches a panic of
  the update function (the default of \<open>bubbletea\<close>).
\<close>

record mainIo =
  mCli :: cliIo
  mStdin :: reader
  mOpen :: "reader result"
  mLate :: bool
  mHandlers :: "handler list"
  mStart :: shellIo
  mEvents :: "shellEvent list"
  mTea :: "uiInput list"
  mDriver :: "err option"
  mCaught :: bool
  mUsage :: bytes

definition readInput :: "mainIo \<Rightarrow> opts \<Rightarrow> bytes result" where
  "readInput w opt =
     (if \<not> optMsgStdin opt \<and> optMsgFile opt = [] then Inr (TrimSpace (optMsg opt))
      else case (if optMsgStdin opt then Inr (mStdin w) else mOpen w) of
          Inl e \<Rightarrow> Inl e
        | Inr r \<Rightarrow> (case ReadString 10 r of
            Inl e \<Rightarrow> Inl (wrap ''read input'' e)
          | Inr msg \<Rightarrow> Inr (TrimSpace msg)))"

section \<open>The commands\<close>

type_synonym runOut = "disk \<times> printout list \<times> (bytes \<times> bytes) list \<times> err option"

definition fromCli :: "cliOut \<Rightarrow> runOut" where
  "fromCli r = (case r of (d, lines, posts, e) \<Rightarrow> (d, map (\<lambda>b. Stdout (b @ newline)) lines, posts, e))"

text \<open>
  The end of an interactive command: the deferred call of \<open>close\<close>, unless a panic in another goroutine
  has ended the program.
\<close>

definition finish :: "libs \<Rightarrow> mainIo \<Rightarrow> status \<Rightarrow> (DiskSessionManager \<times> disk) client \<Rightarrow> printout list \<Rightarrow> runOut" where
  "finish L w s c out = (case s of Crashed e \<Rightarrow> (snd (clManager c), out, clPosts c, Some e)
     | _ \<Rightarrow> (cliDone L (mCli w) (clManager c), out, clPosts c, mDriver w))"

definition interactively :: "identities \<Rightarrow> libs \<Rightarrow> mainIo \<Rightarrow> disk \<Rightarrow>
    (bytes \<Rightarrow> (DiskSessionManager \<times> disk) client \<Rightarrow> status \<times> (DiskSessionManager \<times> disk) client \<times> printout list) \<Rightarrow> runOut" where
  "interactively I L w d body =
     (case cliOpen I L (mCli w) d of Inl e \<Rightarrow> (d, [], [], Some e)
      | Inr (sm, me) \<Rightarrow> (case newClient (cOp (mCli w)) (sm, d) me of
          Inl e \<Rightarrow> (cliDone L (mCli w) (sm, d), [], [], Some e)
        | Inr c \<Rightarrow> (case body me c of (s, c, out) \<Rightarrow> finish L w s c out)))"

definition runChat :: "(DiskSessionManager \<times> disk) linked \<Rightarrow> mainIo \<Rightarrow> bytes \<Rightarrow> bytes \<Rightarrow> (DiskSessionManager \<times> disk) client \<Rightarrow>
    status \<times> (DiskSessionManager \<times> disk) client \<times> printout list" where
  "runChat E w them me c = (case Interactive E (mStart w) me them (mEvents w) c of (st, s) \<Rightarrow> (s, shClient st, shOut st))"

text \<open>
  The full screen interface runs the updates of the terminal library and the client in two goroutines.
  A panic while an update is running can be caught by the library: its \<open>Run\<close> returns, the context is
  cancelled and the deferred calls run. A panic in the goroutine of the client ends the program.
\<close>

fun inUpdate :: "'s linked \<Rightarrow> uiInput list \<Rightarrow> 's model \<times> status \<Rightarrow> bool" where
  "inUpdate E [] ms = False"
| "inUpdate E (i # inputs) ms =
     (case uiStep E i ms of (m, Crashed e) \<Rightarrow> (case i of Tea _ \<Rightarrow> snd ms = Reading | Arrived _ _ _ \<Rightarrow> False)
      | ms' \<Rightarrow> inUpdate E inputs ms')"

text \<open>What the interface draws is not output of the program.\<close>

definition runUi :: "(DiskSessionManager \<times> disk) linked \<Rightarrow> mainIo \<Rightarrow> bytes \<Rightarrow> bytes \<Rightarrow> (DiskSessionManager \<times> disk) client \<Rightarrow>
    status \<times> (DiskSessionManager \<times> disk) client \<times> printout list" where
  "runUi E w them me c = (case uiRun E them (mTea w) c of (m, s) \<Rightarrow>
     (if mCaught w \<and> inUpdate E (mTea w) (InitialModel E c them, Reading) then Stopped else s, uClient m, []))"

definition run :: "identities \<Rightarrow> (DiskSessionManager \<times> disk) linked \<Rightarrow> mainIo \<Rightarrow> opts \<Rightarrow> disk \<Rightarrow> runOut" where
  "run I E w opt d =
     (if optOffer opt then fromCli (cliOffer I (kL E) (kP E) (mCli w) (mLate w) d (optThem opt))
      else if optSend opt then
        (case readInput w opt of Inl e \<Rightarrow> (d, [], [], Some e)
         | Inr input \<Rightarrow> fromCli (cliSend I (kL E) (kP E) (kS E) (mCli w) d (optThem opt) input))
      else if optRecv opt then
        (case readInput w opt of Inl e \<Rightarrow> (d, [], [], Some e)
         | Inr input \<Rightarrow> fromCli (cliRecv I (kL E) (kP E) (kS E) (mCli w) (mHandlers w) d input))
      else if optClose opt then fromCli (cliClose I (kL E) (mCli w) d (optThem opt))
      else if optChat opt then interactively I (kL E) w d (runChat E w (optThem opt))
      else if optUI opt then interactively I (kL E) w d (runUi E w (optThem opt))
      else (d, [Stderr (COLOR_GREY @ mUsage w @ RESET_COLOR @ newline)], [], None))"

text \<open>The status of the process: a panic exits with 2, like an error of the options.\<close>

definition exitStatus :: "err option \<Rightarrow> nat" where
  "exitStatus r = (case r of None \<Rightarrow> 0 | Some e \<Rightarrow> (case onlyPanic r of Some _ \<Rightarrow> 2 | None \<Rightarrow> 1))"

definition errLine :: "fmtLib \<Rightarrow> err \<Rightarrow> printout" where
  "errLine F e = Stderr (COLOR_GREY @ errText F e @ RESET_COLOR @ newline)"

definition mainProgram :: "identities \<Rightarrow> (DiskSessionManager \<times> disk) linked \<Rightarrow> mainIo \<Rightarrow> opts result \<Rightarrow> disk \<Rightarrow>
    disk \<times> printout list \<times> (bytes \<times> bytes) list \<times> nat" where
  "mainProgram I E w parsed d =
     (case parsed of Inl e \<Rightarrow> (d, [errLine (kF E) e], [], 2)
      | Inr opt \<Rightarrow> (case run I E w opt d of (d, out, posts, r) \<Rightarrow>
          (d, (case r of Some e \<Rightarrow> (if exitStatus r = 1 then out @ [errLine (kF E) e] else out) | None \<Rightarrow> out),
           posts, exitStatus r)))"

section \<open>Reading a line\<close>

lemma spaceLen_newline: "(\<And>r. r \<in> set rs \<Longrightarrow> r = [10] \<or> 10 \<notin> set r) \<Longrightarrow> b \<noteq> [] \<Longrightarrow> spaceLen rs (b @ [10]) = spaceLen rs b"
proof (induction rs)
  case (Cons r rs)
  have "hasPrefix (b @ [10]) r = hasPrefix b r"
  proof (cases "length r \<le> length b")
    case False
    then have "\<not> hasPrefix b r" "hasPrefix (b @ [10]) r \<Longrightarrow> r = b @ [10]" by (auto simp: hasPrefix_def)
    moreover have "r \<noteq> b @ [10]" using Cons.prems(1) [of r] Cons.prems(2) by auto
    ultimately show ?thesis by blast
  qed (simp add: hasPrefix_def)
  with Cons show ?case by simp
qed simp

lemma spaceRunes_newline: "r \<in> set spaceRunes \<Longrightarrow> r = [10] \<or> 10 \<notin> set r"
proof -
  have "\<forall>r \<in> set spaceRunes. r = [10] \<or> 10 \<notin> set r" by code_simp
  then show "r \<in> set spaceRunes \<Longrightarrow> r = [10] \<or> 10 \<notin> set r" by blast
qed

lemma trimLeft_newline:
  "trimLeft spaceRunes (b @ [10]) = (if trimLeft spaceRunes b = [] then [] else trimLeft spaceRunes b @ [10])"
proof (induction "length b" arbitrary: b rule: less_induct)
  case less
  have e: "trimLeft spaceRunes [] = []" by (subst trimLeft.simps) simp
  have n: "trimLeft spaceRunes [10] = []" by code_simp
  show ?case
  proof (cases "b = []")
    case False
    then have l: "spaceLen spaceRunes (b @ [10]) = spaceLen spaceRunes b"
      by (intro spaceLen_newline spaceRunes_newline)
    have d: "drop (spaceLen spaceRunes b) (b @ [10]) = drop (spaceLen spaceRunes b) b @ [10]"
      using spaceLen_le [of spaceRunes b] by simp
    show ?thesis
    proof (cases "spaceLen spaceRunes b = 0")
      case True
      then show ?thesis using l False by (simp add: trimLeft.simps [of spaceRunes "b @ [10]"] trimLeft.simps [of spaceRunes b])
    next
      case c: False
      then have "length (drop (spaceLen spaceRunes b) b) < length b" using False by simp
      from less [OF this] show ?thesis using c l d
        by (simp add: trimLeft.simps [of spaceRunes "b @ [10]"] trimLeft.simps [of spaceRunes b])
    qed
  qed (simp add: e n)
qed

lemma TrimSpace_newline: "TrimSpace (b @ [10]) = TrimSpace b"
proof -
  have "spaceLen (map rev spaceRunes) (10 # x) = 1" for x
    by (simp add: spaceRunes_def hasPrefix_def)
  then have "trimLeft (map rev spaceRunes) (10 # x) = trimLeft (map rev spaceRunes) x" for x
    by (simp add: trimLeft.simps [of _ "10 # x"])
  then show ?thesis by (simp add: TrimSpace_def trimLeft_newline)
qed

lemma ReadString_line:
  assumes "10 \<notin> set line"
  shows "ReadString 10 (line @ 10 # rest, e) = Inr (line @ [10])" and "ReadString 10 (line, e) = Inl e"
proof -
  have "takeWhile (\<lambda>c. c \<noteq> 10) (line @ 10 # rest) = line" using assms by (induction line) auto
  then show "ReadString 10 (line @ 10 # rest, e) = Inr (line @ [10])" by (simp add: ReadString_def)
qed (simp add: ReadString_def assms)

text \<open>
  C24: the command send reads exactly one line from standard input: with a line end in the input the text that is sent is the first line without the white space around it and whatever follows is ignored; when the input ends without one, whatever the text, the command fails before it touches the state directory, sends nothing and exits with status 1.
\<close>

theorem send_reads_line:
  assumes "optSend opt" and "\<not> optOffer opt" and "optMsgStdin opt" and "10 \<notin> set line" and "mStdin w = (line @ tail, failure)"
    and "onlyPanic (Some failure) = None"
  shows "(\<forall>rest. tail = 10 # rest \<longrightarrow>
      run I E w opt d = fromCli (cliSend I (kL E) (kP E) (kS E) (mCli w) d (optThem opt) (TrimSpace line)))
    \<and> (tail = [] \<longrightarrow> (\<exists>lines. mainProgram I E w (Inr opt) d = (d, lines, [], 1)))"
proof -
  have "onlyPanic (Some (wrap ''read input'' failure)) = None" using assms(6) by (cases failure) auto
  then show ?thesis using assms(1-5)
    by (simp add: run_def readInput_def ReadString_line TrimSpace_newline mainProgram_def exitStatus_def)
qed

section \<open>Errors\<close>

text \<open>An incoming message makes the client return no error but a panic.\<close>

lemma report_panic: "report x = (c', r) \<Longrightarrow> onlyPanic r = r"
  by (cases x rule: report.cases) (auto simp: dispatch_def)

lemma runHandler_panic: "runHandler M P L S w p input h c = (c', r) \<Longrightarrow> onlyPanic r = r"
  by (cases h) (auto simp: runHandler_def handleSaltPack_def handleRatchet_def handleOther_def dispatch_def
      split: if_splits sum.splits prod.splits dest: report_panic)

lemma Input_panic: "Input M P L S w p input hs c = (c', r) \<Longrightarrow> onlyPanic r = r"
proof (induction hs arbitrary: c)
  case (Cons h hs)
  obtain c1 r1 where h: "runHandler M P L S w p input h c = (c1, r1)" by fastforce
  from Cons.prems h Cons.IH [of c1] runHandler_panic [OF h] show ?case by (cases r1) auto
qed simp

text \<open>
  The driver of the message bus loses nothing when it drops the error of the client: handling an incoming message never returns an error, so that the handler behaves exactly as the client's input with the identifier of the message as its position; errors reach the user as events.
\<close>

theorem bus_drops_nothing:
  "hdlr (\<lambda>p payload. Input M P L S w p payload hs) msg c = Input M P L S w (msgID msg) (msgPayload msg) hs c"
  by (cases "Input M P L S w (msgID msg) (msgPayload msg) hs c") (simp add: hdlr_def Input_panic)

text \<open>
  An identity that cannot be used: the file cannot be inspected, its mode grants any of the bits \<open>0066\<close>
  to others, it cannot be opened or read, or its content is no identity. An index that cannot be read:
  opening it fails for another reason than that there is none, or its content cannot be decoded.
\<close>

definition identityUnusable :: "identities \<Rightarrow> keyIn \<Rightarrow> bool" where
  "identityUnusable I f \<longleftrightarrow> (\<exists>e. keyStat f = Inl e) \<or> (\<exists>mode. keyStat f = Inr mode \<and> and mode 54 \<noteq> 0)
     \<or> keyOpen f \<noteq> None \<or> (\<exists>e. keyRead f = Inl e) \<or> (\<exists>b e. keyRead f = Inr b \<and> I b = Inl e)"

definition indexUnusable :: "libs \<Rightarrow> io \<Rightarrow> disk \<Rightarrow> bytes \<Rightarrow> bool" where
  "indexUnusable L w d me \<longleftrightarrow> (\<exists>e. ioOpen w = Some e \<and> \<not> isNotExist e)
     \<or> (ioOpen w = None \<and> (\<exists>f e. d (indexName me) = Some f \<and> unjsonIndex L (fileData f) = Inl e))"

definition startFails :: "identities \<Rightarrow> libs \<Rightarrow> cliIo \<Rightarrow> disk \<Rightarrow> bool" where
  "startFails I L w d \<longleftrightarrow> identityUnusable I (cKey w)
     \<or> (\<exists>b me k. keyRead (cKey w) = Inr b \<and> I b = Inr (me, k) \<and> indexUnusable L (cOpen w) d me)"

text \<open>The system and the libraries return errors, they do not panic.\<close>

definition noPanics :: "identities \<Rightarrow> libs \<Rightarrow> mainIo \<Rightarrow> bool" where
  "noPanics I L w \<longleftrightarrow> (let f = cKey (mCli w) in
     \<forall>s. keyStat f \<noteq> Inl (Panic s) \<and> keyOpen f \<noteq> Some (Panic s) \<and> keyRead f \<noteq> Inl (Panic s)
       \<and> (\<forall>b. I b \<noteq> Inl (Panic s)) \<and> ioOpen (cOpen (mCli w)) \<noteq> Some (Panic s)
       \<and> (\<forall>b. unjsonIndex L b \<noteq> Inl (Panic s)) \<and> snd (mStdin w) \<noteq> Panic s \<and> mOpen w \<noteq> Inl (Panic s)
       \<and> (\<forall>b e. mOpen w = Inr (b, e) \<longrightarrow> e \<noteq> Panic s))"

lemma ReadSaltyIdentity_fails: "(\<exists>e. ReadSaltyIdentity I f = Inl e) \<longleftrightarrow> identityUnusable I f"
  by (auto simp: ReadSaltyIdentity_def identityUnusable_def weakMode_def split: sum.splits option.splits)

lemma ReadSaltyIdentity_ok: "ReadSaltyIdentity I f = Inr r \<Longrightarrow> \<exists>b. keyRead f = Inr b \<and> I b = Inr r"
  by (auto simp: ReadSaltyIdentity_def split: sum.splits option.splits if_splits)

lemma NewSessionManager_fails: "(\<exists>sm e. NewSessionManager L w me k d = (sm, Some e)) \<longleftrightarrow> indexUnusable L w d me"
  by (auto simp: NewSessionManager_def Load_def indexUnusable_def Let_def split: sum.splits option.splits prod.splits)

lemma cliOpen_fails: "(\<exists>e. cliOpen I L w d = Inl e) \<longleftrightarrow> startFails I L w d"
proof (cases "ReadSaltyIdentity I (cKey w)")
  case (Inl e)
  then have "identityUnusable I (cKey w)" using ReadSaltyIdentity_fails [of I "cKey w"] by blast
  with Inl show ?thesis by (simp add: cliOpen_def startFails_def)
next
  case (Inr r)
  obtain me k where r: "r = (me, k)" by fastforce
  obtain b where b: "keyRead (cKey w) = Inr b" "I b = Inr (me, k)" using ReadSaltyIdentity_ok [OF Inr] r by blast
  have "\<not> identityUnusable I (cKey w)" using ReadSaltyIdentity_fails [of I "cKey w"] Inr by simp
  with b have "startFails I L w d \<longleftrightarrow> indexUnusable L (cOpen w) d me" by (simp add: startFails_def)
  with Inr r NewSessionManager_fails [of L "cOpen w" me k d] show ?thesis
    by (auto simp: cliOpen_def split: prod.splits option.splits)
qed

lemma onlyPanic_None: "onlyPanic (Some e) = None \<longleftrightarrow> (\<forall>s. e \<noteq> Panic s)"
  by (cases e) auto

lemma cliOpen_ordinary:
  assumes "noPanics I L w" and "cliOpen I L (mCli w) d = Inl e"
  shows "onlyPanic (Some e) = None"
  using assms
  by (auto simp: onlyPanic_None noPanics_def Let_def cliOpen_def ReadSaltyIdentity_def NewSessionManager_def Load_def
      split: sum.splits option.splits if_splits prod.splits)

lemma readInput_ordinary:
  assumes "noPanics I L w" and "readInput w opt = Inl e"
  shows "onlyPanic (Some e) = None"
  using assms
  by (auto simp: onlyPanic_None noPanics_def Let_def readInput_def ReadString_def split: if_splits sum.splits prod.splits)

lemma run_unopened:
  assumes "cliOpen I (kL E) (mCli w) d = Inl e"
    and "optOffer opt \<or> optSend opt \<or> optRecv opt \<or> optClose opt \<or> optChat opt \<or> optUI opt"
  shows "run I E w opt d = (d, [], [], Some e) \<or> (\<exists>e1. readInput w opt = Inl e1 \<and> run I E w opt d = (d, [], [], Some e1))"
proof -
  have i: "interactively I (kL E) w d body = (d, [], [], Some e)" for body using assms(1) by (simp add: interactively_def)
  have c: "fromCli (cliOffer I (kL E) (kP E) (mCli w) late d them) = (d, [], [], Some e)"
    "fromCli (cliSend I (kL E) (kP E) (kS E) (mCli w) d them input) = (d, [], [], Some e)"
    "fromCli (cliRecv I (kL E) (kP E) (kS E) (mCli w) hs d input) = (d, [], [], Some e)"
    "fromCli (cliClose I (kL E) (mCli w) d them) = (d, [], [], Some e)" for late them input hs
    using assms(1) by (simp_all add: fromCli_def cliOffer_def cliSend_def cliRecv_def cliClose_def)
  show ?thesis using assms(2) by (cases "readInput w opt") (auto simp: run_def i c)
qed

lemma weak_identity:
  "keyStat (cKey w) = Inr mode \<Longrightarrow> and mode 54 \<noteq> 0 \<Longrightarrow> cliOpen I L w d = Inl (wrap ''reading keyfile'' ErrPermissions)"
  by (simp add: cliOpen_def ReadSaltyIdentity_def weakMode_def)

text \<open>
  C23: a command that cannot start does nothing: when the identity file cannot be inspected, is open to others (any of the bits 0066 of its mode), cannot be opened or read or holds no identity, or when the index of the sessions exists and cannot be opened or decoded, every command leaves the state directory as it was, posts nothing, prints nothing but an error and exits with status 1; with a mode that is open to others and an input that could be read the error is that the permissions are too weak.
\<close>

theorem run_fails_clean:
  assumes "startFails I (kL E) (mCli w) d" and "noPanics I (kL E) w"
    and "optOffer opt \<or> optSend opt \<or> optRecv opt \<or> optClose opt \<or> optChat opt \<or> optUI opt"
  shows "(\<exists>e. mainProgram I E w (Inr opt) d = (d, [errLine (kF E) e], [], 1))
    \<and> (\<forall>mode input. keyStat (cKey (mCli w)) = Inr mode \<and> and mode 54 \<noteq> 0 \<and> readInput w opt = Inr input \<longrightarrow>
        mainProgram I E w (Inr opt) d = (d, [errLine (kF E) (wrap ''reading keyfile'' ErrPermissions)], [], 1))"
proof -
  obtain e where e: "cliOpen I (kL E) (mCli w) d = Inl e" using cliOpen_fails assms(1) by blast
  note r = run_unopened [OF e assms(3)]
  obtain e' where "run I E w opt d = (d, [], [], Some e')" and "onlyPanic (Some e') = None"
    using r cliOpen_ordinary [OF assms(2) e] readInput_ordinary [OF assms(2)] by blast
  then have "\<exists>e. mainProgram I E w (Inr opt) d = (d, [errLine (kF E) e], [], 1)"
    by (auto simp: mainProgram_def exitStatus_def)
  moreover have "mainProgram I E w (Inr opt) d = (d, [errLine (kF E) (wrap ''reading keyfile'' ErrPermissions)], [], 1)"
    if "keyStat (cKey (mCli w)) = Inr mode" "and mode 54 \<noteq> 0" "readInput w opt = Inr input" for mode input
    using r e weak_identity [OF that(1,2), of I "kL E" d] that(3) by (auto simp: mainProgram_def exitStatus_def)
  ultimately show ?thesis by blast
qed

section \<open>Concrete processes\<close>

text \<open>The identity file of the process may be read by everybody.\<close>

definition demoOpts :: opts where
  "demoOpts = \<lparr>optOffer = False, optSend = True, optRecv = False, optClose = False, optChat = False, optUI = False,
     optThem = [98], optMsg = [], optMsgFile = [], optMsgStdin = True\<rparr>"

definition demoMain :: "bytes \<Rightarrow> mainIo" where
  "demoMain input = \<lparr>mCli = (demoCli [97] demoAliceKey (\<lambda>_. 3))\<lparr>cKey := \<lparr>keyStat = Inr 420, keyOpen = None, keyRead = Inr []\<rparr>\<rparr>,
     mStdin = (input, ErrOs 0), mOpen = Inl ErrNotExist, mLate = False, mHandlers = [], mStart = demoShellIo, mEvents = [],
     mTea = [], mDriver = None, mCaught = True, mUsage = []\<rparr>"

theorem send_reads_line_witness:
  "run demoIdent demoLinked (demoMain (str '' hi '' @ [10, 65])) demoOpts Map.empty =
     fromCli (cliSend demoIdent demoLibs demo demoSalty (mCli (demoMain (str '' hi '' @ [10, 65]))) Map.empty [98] (str ''hi''))
   \<and> (\<exists>lines. mainProgram demoIdent demoLinked (demoMain (str ''hi'')) (Inr demoOpts) Map.empty = (Map.empty, lines, [], 1))"
proof -
  have l: "(10 :: byte) \<notin> set (str '' hi '')" "(10 :: byte) \<notin> set (str ''hi'')" "TrimSpace (str '' hi '') = str ''hi''" by code_simp+
  have o: "optSend demoOpts" "\<not> optOffer demoOpts" "optMsgStdin demoOpts" "optThem demoOpts = [98]" by (simp_all add: demoOpts_def)
  have k: "kL demoLinked = demoLibs" "kP demoLinked = demo" "kS demoLinked = demoSalty" by (simp_all add: demoLinked_def)
  have m: "mStdin (demoMain (str '' hi '' @ [10, 65])) = (str '' hi '' @ 10 # [65], ErrOs 0)"
    "mStdin (demoMain (str ''hi'')) = (str ''hi'' @ [], ErrOs 0)" by (simp_all add: demoMain_def)
  have p: "onlyPanic (Some (ErrOs 0)) = None" by simp
  show ?thesis
    using send_reads_line [OF o(1-3) l(1) m(1) p, of demoIdent demoLinked Map.empty]
      send_reads_line [OF o(1-3) l(2) m(2) p, of demoIdent demoLinked Map.empty] l(3) o(4) k by simp
qed

theorem run_fails_clean_witness:
  "(\<exists>e. mainProgram demoIdent demoLinked (demoMain (str ''hi'')) (Inr demoOpts) Map.empty = (Map.empty, [errLine demoFmt e], [], 1))
   \<and> mainProgram demoIdent demoLinked (demoMain (str ''hi'' @ [10])) (Inr demoOpts) Map.empty =
      (Map.empty, [errLine demoFmt (wrap ''reading keyfile'' ErrPermissions)], [], 1)"
proof -
  have f: "startFails demoIdent (kL demoLinked) (mCli (demoMain x)) Map.empty" for x
    by (simp add: startFails_def identityUnusable_def demoMain_def)
  have p: "noPanics demoIdent (kL demoLinked) (demoMain x)" for x
    by (simp add: noPanics_def Let_def demoMain_def demoIdent_def demoCli_def demoLinked_def demoLibs_def demoWorld_def demoIo_def)
  have o: "optOffer demoOpts \<or> optSend demoOpts \<or> optRecv demoOpts \<or> optClose demoOpts \<or> optChat demoOpts \<or> optUI demoOpts"
    by (simp add: demoOpts_def)
  have r: "readInput (demoMain (str ''hi'' @ [10])) demoOpts = Inr (str ''hi'')" by code_simp
  have m: "keyStat (cKey (mCli (demoMain x))) = Inr 420" for x by (simp add: demoMain_def)
  have k: "kF demoLinked = demoFmt" by (simp add: demoLinked_def)
  show ?thesis
    using run_fails_clean [OF f p o, of "str ''hi''"] run_fails_clean [OF f p o, of "str ''hi'' @ [10]"] r m k by simp
qed

end
