(* ===== verification/Faults.thy ===== *)
theory Faults
  imports Liveness
begin

text \<open>
  The chat client (\<open>src/client/client.go\<close>) when the network fails and when messages come from an
  attacker: a request that reports an error, a sealed message without content, an offer that is
  replayed, and a message that the session refuses.
\<close>

section \<open>A request that reports an error\<close>

text \<open>The parts of an encrypted message of a running chain.\<close>

lemma Encrypt_parts:
  assumes "dr_chainKeySend dr = Some ck" and "Encrypt P rnd dr pt = (dr', Inr msg)"
  obtains ck' mk hData ct where "chainKdf P ck = Inr (ck', mk)" and "marshal (sendHeader dr) = Inr hData"
    and "encrypt P mk pt (dr_associatedData dr) = Inr ct" and "msg = hData @ ct"
  using assms that by (auto simp: Encrypt_def sendHeader_def Let_def split: sum.splits prod.splits)

text \<open>Two messages that are encrypted with one message key under one header.\<close>

definition sameKey :: "prims \<Rightarrow> bytes \<Rightarrow> bytes \<Rightarrow> bytes \<Rightarrow> bytes \<Rightarrow> bool" where
  "sameKey P lit msg lit' msg' \<longleftrightarrow> (\<exists>hData mk ad ct ct'. length hData = headerLen
     \<and> encrypt P mk lit ad = Inr ct \<and> encrypt P mk lit' ad = Inr ct' \<and> msg = hData @ ct \<and> msg' = hData @ ct')"

lemma restored_sameKey:
  assumes "restoredRatchet (Some dr) (Some dr1)" and "restoredRatchet (Some dr) (Some dr2)"
    and "dr_chainKeySend dr \<noteq> None" and "length (r_dhPub (dr_dhr dr)) = 32"
    and "Encrypt P rnd1 dr1 lit1 = (dr1', Inr msg1)" and "Encrypt P rnd2 dr2 lit2 = (dr2', Inr msg2)"
  shows "sameKey P lit1 msg1 lit2 msg2"
proof -
  from assms(3) obtain ck where ck: "dr_chainKeySend dr = Some ck" by blast
  from assms(1,2) have eq: "dr_chainKeySend dr1 = Some ck" "dr_chainKeySend dr2 = Some ck"
    "sendHeader dr1 = sendHeader dr2" "dr_associatedData dr1 = dr_associatedData dr2"
    "length (h_dhPub (sendHeader dr1)) = 32"
    using ck assms(4) by (auto simp: sendHeader_def)
  obtain ck1 mk hData ct1 where 1: "chainKdf P ck = Inr (ck1, mk)" "marshal (sendHeader dr1) = Inr hData"
    "encrypt P mk lit1 (dr_associatedData dr1) = Inr ct1" "msg1 = hData @ ct1"
    using eq(1) assms(5) by (rule Encrypt_parts)
  obtain ck2 mk2 h2 ct2 where 2: "chainKdf P ck = Inr (ck2, mk2)" "marshal (sendHeader dr2) = Inr h2"
    "encrypt P mk2 lit2 (dr_associatedData dr2) = Inr ct2" "msg2 = h2 @ ct2"
    using eq(2) assms(6) by (rule Encrypt_parts)
  have "mk2 = mk" "h2 = hData" using 1 2 eq(3) by simp_all
  moreover have "length hData = headerLen" using 1(2) eq(5)
    by (auto simp: marshal_def headerLen_def uint16Bytes_def split: if_splits)
  ultimately show ?thesis using 1(3,4) 2(3,4) eq(4) unfolding sameKey_def by metis
qed

context session_manager
begin

text \<open>A client whose request failed keeps the session it had.\<close>

lemma client_send_failed:
  assumes "good w" and "sane w" and "inv (clManager c)" and "keeps M good slot ident (clManager c) them p"
    and "talking p x dr" and "ioPost w = Some e" and "clientSend M P S w c them text events = (c', r)"
    and "\<forall>u. length (ioSetTime w u) = 16" and "clPosts c' \<noteq> clPosts c"
  obtains t dr1 dr2 data where "r = Some e" and "inv (clManager c')"
    and "keeps M good slot ident (clManager c') them p" and "clAddr c' = clAddr c" and "clEvents c' = clEvents c"
    and "clPosts c' = clPosts c @ [(Endpoint p, data)]" and "restoredRatchet (Some dr) (Some dr1)"
    and "Encrypt P (ioRand w 0) dr1
      (Literal (newSaltyText S t (User (clAddr c)) (Domain (clAddr c)) (toElems text events))) = (dr2, Inr (payloadOf data))"
proof -
  obtain s u where b: "mByName M w (clManager c) them = (s, u)" by fastforce
  have u: "u = localID p" and k: "keeps M good slot ident s them p" using keeps_byName [OF assms(4) b] by simp_all
  have i: "inv s" using inv_byName [OF assms(3,2) b] by simp
  from k assms(1) u obtain p1 where g: "mGet M w s u = Inr p1" and rp: "restoredPeer ident p p1"
    unfolding keeps_def by blast
  obtain x1 dr1 where t: "talking p1 x1 dr1" and rr: "restoredRatchet (Some dr) (Some dr1)"
    using rp assms(5) by (rule restored_talking)
  have ep: "Endpoint p1 = Endpoint p" using restoredPeer_sameParty [OF rp] by (simp add: sameParty_def)
  have in1: "inner p1 = Some x1" "ratchet x1 = Some dr1" using t by (simp_all add: talking_def)
  have lock: "ioLock w = None" using assms(7,9) by (auto simp: clientSend_def Use_def split: option.splits)
  let ?id = "toULID (ioSetTime w (localID p1))"
  let ?m = "newSaltyText S (ulidTime S ?id) (User (clAddr c)) (Domain (clAddr c)) (toElems text events)"
  obtain x2 res where se: "Send P (ioSetTime w) (ioRand w 0) x1 (Literal ?m) = (x2, res)" by fastforce
  from assms(7,9) lock b g se in1 obtain data where d: "res = Inr data"
    by (cases res) (auto simp: clientSend_def Use_def peerSend_def Let_def)
  obtain dr2 where en: "Encrypt P (ioRand w 0) dr1 (Literal ?m) = (dr2, Inr (payloadOf data))"
    using assms(8) in1(2) se [unfolded d] by (rule Send_refines)
  from assms(6,7) lock b g se in1 d ep have c': "r = Some e"
    "c' = c\<lparr>clManager := s, clPosts := clPosts c @ [(Endpoint p, data)]\<rparr>"
    by (auto simp: clientSend_def Use_def peerSend_def sendMsg_def Let_def)
  show thesis by (rule that [OF c'(1) _ _ _ _ _ rr en]) (use c'(2) i k in simp_all)
qed

end

text \<open>
  C28: a message key is used twice when a request reports an error: Send stores the advanced session only after the post has succeeded, so when the post of a text fails although the request has left the client, the next text is encrypted with the same message key under the same header, and both ciphertexts are on the network.
\<close>

theorem failed_post_reuses_key:
  assumes "party L self k them c p x dr" and "goodIo L w" and "goodIo L w'"
    and "length (r_dhPub (dr_dhr dr)) = 32" and "ioPost w = Some e"
    and "clientSend (diskManager L) P S w c them text events = (c1, r)" and "clPosts c1 \<noteq> clPosts c"
    and "clientSend (diskManager L) P S w' c1 them text' events' = (c2, None)"
  shows "\<exists>t t' msg msg'. r = Some e \<and> clPosts c2 = clPosts c @ [(Endpoint p, msg), (Endpoint p, msg')]
    \<and> sameKey P
        (Literal (newSaltyText S t (User (clAddr c)) (Domain (clAddr c)) (toElems text events))) (payloadOf msg)
        (Literal (newSaltyText S t' (User (clAddr c)) (Domain (clAddr c)) (toElems text' events'))) (payloadOf msg')"
proof -
  have g: "libsLaw L \<and> noFault w" "libsLaw L \<and> noFault w'" "saneUlid w" "saneUlid w'"
    "\<forall>u. length (ioSetTime w u) = 16" "\<forall>u. length (ioSetTime w' u) = 16"
    using assms(2,3) by (simp_all add: goodIo_def ulidLaw_def)
  have A: "managerInv self k (clManager c)" "talking p x dr"
    "keeps (diskManager L) (\<lambda>w. libsLaw L \<and> noFault w) (sessionhash L self) k (clManager c) them p"
    and ck: "dr_chainKeySend dr \<noteq> None"
    using assms(1) by (simp_all add: party_def)
  obtain t dr1 dr1' msg where r: "r = Some e" and i1: "managerInv self k (clManager c1)"
    and k1: "keeps (diskManager L) (\<lambda>w. libsLaw L \<and> noFault w) (sessionhash L self) k (clManager c1) them p"
    and a1: "clAddr c1 = clAddr c" and p1: "clPosts c1 = clPosts c @ [(Endpoint p, msg)]"
    and r1: "restoredRatchet (Some dr) (Some dr1)"
    and e1: "Encrypt P (ioRand w 0) dr1
      (Literal (newSaltyText S t (User (clAddr c)) (Domain (clAddr c)) (toElems text events))) = (dr1', Inr (payloadOf msg))"
    by (rule dsm.client_send_failed [OF g(1,3) A(1,3,2) assms(5,6) g(5) assms(7)])
  obtain dr2 dr2' t' msg' where r2: "restoredRatchet (Some dr) (Some dr2)"
    and e2: "Encrypt P (ioRand w' 0) dr2
      (Literal (newSaltyText S t' (User (clAddr c)) (Domain (clAddr c)) (toElems text' events'))) = (dr2', Inr (payloadOf msg'))"
    and p2: "clPosts c2 = clPosts c1 @ [(Endpoint p, msg')]"
    using dsm.client_send [OF g(2,4) i1 k1 A(2) assms(8) g(6)] a1 by metis
  have "sameKey P
      (Literal (newSaltyText S t (User (clAddr c)) (Domain (clAddr c)) (toElems text events))) (payloadOf msg)
      (Literal (newSaltyText S t' (User (clAddr c)) (Domain (clAddr c)) (toElems text' events'))) (payloadOf msg')"
    using r1 r2 ck assms(4) e1 e2 by (rule restored_sameKey)
  with r p1 p2 show ?thesis by auto
qed

theorem failed_post_reuses_key_witness:
  "\<exists>c (p :: PeerSession) c1 c2 t t' msg msg'.
     clientSend (diskManager demoLibs) demo demoSalty ((demoWorld (\<lambda>_. 5) [])\<lparr>ioPost := Some ErrHttp\<rparr>) c [98] [72] [] = (c1, Some ErrHttp)
     \<and> clientSend (diskManager demoLibs) demo demoSalty (demoWorld (\<lambda>_. 5) []) c1 [98] [105] [] = (c2, None)
     \<and> clPosts c2 = clPosts c @ [(Endpoint p, msg), (Endpoint p, msg')]
     \<and> sameKey demo
        (Literal (newSaltyText demoSalty t (User (clAddr c)) (Domain (clAddr c)) (toElems [72] []))) (payloadOf msg)
        (Literal (newSaltyText demoSalty t' (User (clAddr c)) (Domain (clAddr c)) (toElems [105] []))) (payloadOf msg')"
proof -
  let ?w = "demoWorld (\<lambda>_. 5) []" and ?M = "diskManager demoLibs"
  let ?f = "?w\<lparr>ioPost := Some ErrHttp\<rparr>"
  have w: "goodIo demoLibs ?w" by (rule demo_goodIo)
  then have f: "goodIo demoLibs ?f" by (simp add: goodIo_def noFault_def saneUlid_def ulidLaw_def)
  have laws: "aesLaw demo" "hmacLaw demo" "dhLaw demo" using demo_laws by simp_all
  obtain c cB where i: "exInv demo demoLibs [97] demoAliceKey [98] demoBobKey (c, cB, [], [])"
    and r: "\<forall>w. goodIo demoLibs w \<longrightarrow> roomFor demoLibs w c [98] \<and> roomFor demoLibs w cB [97]"
    by (rule demo_handshaken)
  from i obtain p x dr drB where A: "party demoLibs [97] demoAliceKey [98] c p x dr"
    and l: "linked demo (dr, drB, payloads [], payloads [])" by auto
  have len: "length (r_dhPub (dr_dhr dr)) = 32" using laws(3) l by (rule linked_pub)
  have n: "dr_sendNo dr < 65536" using party_room [OF A w] r w by simp
  obtain c1 d where 1: "clientSend ?M demo demoSalty ?f c [98] [72] [] = (c1, ioPost ?f)"
    and d: "clPosts c1 = clPosts c @ [(Endpoint p, d)]"
    using party_can_send [OF laws f A l, of demoSalty "[72]" "[]"] r f by blast
  then have ne: "clPosts c1 \<noteq> clPosts c" "ioPost ?f = Some ErrHttp" by simp_all
  have g: "libsLaw demoLibs \<and> noFault ?f" "saneUlid ?f" "\<forall>u. length (ioSetTime ?f u) = 16"
    using f by (simp_all add: goodIo_def ulidLaw_def)
  have A': "managerInv [97] demoAliceKey (clManager c)" "talking p x dr"
    "keeps ?M (\<lambda>w. libsLaw demoLibs \<and> noFault w) (sessionhash demoLibs [97]) demoAliceKey (clManager c) [98] p"
    using A by (simp_all add: party_def)
  have "party demoLibs [97] demoAliceKey [98] c1 p x dr"
    using dsm.client_send_failed [OF g(1,2) A'(1,3,2) ne(2) 1 g(3) ne(1)] A unfolding party_def by blast
  moreover from this have "roomFor demoLibs ?w c1 [98]" using party_room [OF _ w] n by blast
  ultimately obtain c2 where "clientSend ?M demo demoSalty ?w c1 [98] [105] [] = (c2, ioPost ?w)"
    using party_can_send [OF laws w _ l, of "[97]" demoAliceKey "[98]" c1 p x demoSalty "[105]" "[]"] by blast
  then have 2: "clientSend ?M demo demoSalty ?w c1 [98] [105] [] = (c2, None)" using demo_inputs(2) by simp
  have s1: "clientSend ?M demo demoSalty ?f c [98] [72] [] = (c1, Some ErrHttp)" using 1 by (simp only: ne(2))
  from failed_post_reuses_key [OF A f w len ne(2) s1 ne(1) 2] s1 2 show ?thesis by blast
qed

section \<open>Messages of an attacker\<close>

text \<open>
  C29: anybody can stop a client: for every client there is a text that depends on nothing but the public key of its owner, a sealed box without content, and handling it ends the program with a panic, whatever sessions the client has.
\<close>

theorem sealed_empty_crashes:
  assumes "sealing P L k"
  shows "\<exists>msg. marshalMessage sessSealed (SealedM (seal_anonymous P f [] (x25519Public L (edPublic k)))) = Inr msg
    \<and> (\<forall>S w q c self. managerInv self k (clManager c) \<longrightarrow> ioLock w = None
        \<longrightarrow> isPanic (case handleRatchet (diskManager L) P L S w q msg c of (c', Some e) \<Rightarrow> Inl e | (c', None) \<Rightarrow> Inr c'))"
proof -
  let ?s = "seal_anonymous P f [] (x25519Own L k)"
  have pub: "x25519Public L (edPublic k) = x25519Own L k" and law: "sealLaw P (x25519Own L k) (x25519Private L k)"
    and "1 < length ?s" using assms by (simp_all add: sealing_def)
  then have "msgValid (SealedM ?s)" by simp
  then obtain msg where m: "marshalMessage sessSealed (SealedM ?s) = Inr msg"
    "unmarshalMessage msg = Inr (sessSealed, SealedM ?s)" by (rule transport) simp
  have un: "Unseal P ?s (x25519Private L k) (x25519Own L k) = Inl (Panic ''index out of range'')"
    using law by (simp add: Unseal_eq sealLaw_def)
  have "handleRatchet (diskManager L) P L S w q msg c = (setPos (diskManager L) q c, Some (Panic ''index out of range''))"
    if "managerInv self k (clManager c)" and "ioLock w = None" for S w q c self
  proof -
    have "managerInv self k (clManager (setPos (diskManager L) q c))"
      using that(1) dsm.inv_setPosition by (auto simp: setPos_def split: option.split)
    then have "unsealMsg (diskManager L) P L (setPos (diskManager L) q c) (SealedM ?s) = Inl (Panic ''index out of range'')"
      using un dsm.identity by (simp add: unsealMsg_def Let_def)
    then show ?thesis using m(2) dataMsg_ratchet [OF m(2)] that(2)
      by (simp add: handleRatchet_def readMsg_def Parse_def Use_def ratchetBody_def Let_def)
  qed
  with m(1) pub show ?thesis by auto
qed

theorem sealed_empty_crashes_witness:
  "\<exists>msg. marshalMessage sessSealed (SealedM (seal_anonymous demo (\<lambda>_. 7) [] (x25519Public demoLibs (edPublic demoBobKey)))) = Inr msg
    \<and> isPanic (case handleRatchet (diskManager demoLibs) demo demoLibs demoSalty (demoWorld (\<lambda>_. 5) []) 0 msg
        (demoNode [98] demoBobKey) of (c', Some e) \<Rightarrow> Inl e | (c', None) \<Rightarrow> Inr c')"
proof -
  have "ioLock (demoWorld (\<lambda>_. 5) []) = None" by (simp add: demoWorld_def demoIo_def)
  with sealed_empty_crashes [OF demo_sealing, of "\<lambda>_. 7"] demo_inputs(13) show ?thesis by blast
qed

text \<open>
  C30: an offer is accepted over an established session: when a client that has a session with a peer handles an offer signed by that peer, be it a replay of an old one, the stored session is replaced by a new one that waits for the acknowledgement to be sent; the ratchet of the established session is lost.
\<close>

theorem offer_replaces_session:
  assumes "party L self k them c p x dr" and "goodIo L w"
    and "unmarshalMessage msg = Inr (sessSealed, SealedM sealed)"
    and "Unseal P sealed (x25519Private L k) (x25519Own L k) = Inr (OfferM offer)" and "o_nick offer = them"
    and "ioLookup w them = Inr addr" and "length (addrKey addr) = 32"
    and "receiveOffer P (ioRand w) (freshSession (localID p) self k addr) offer = (B, True, ackMsg, None)"
    and "ackMsg \<noteq> []" and "storable B" and "LocalUUID B = localID p"
  shows "\<exists>c'. handleRatchet (diskManager L) P L S w q msg c = (c', None)
    \<and> (\<forall>w'. goodIo L w' \<longrightarrow> (\<exists>p'. mGet (diskManager L) w' (clManager c') (localID p) = Inr p'
        \<and> PendingAck p' = ackMsg
        \<and> restoredPeer k ((NewSession (localID p) self k them addr)\<lparr>inner := Some B, PendingAck := ackMsg\<rparr>) p'))"
proof -
  have g: "libsLaw L \<and> noFault w" "saneUlid w" "ioLock w = None" using assms(2) by (simp_all add: goodIo_def)
  have A: "managerInv self k (clManager c)"
    "keeps (diskManager L) (\<lambda>w. libsLaw L \<and> noFault w) (sessionhash L self) k (clManager c) them p"
    using assms(1) by (simp_all add: party_def)
  obtain s u where b: "mByName (diskManager L) w (clManager (setPos (diskManager L) q c)) (o_nick offer) = (s, u)"
    by fastforce
  have u: "u = localID p" using dsm.keeps_byName(1) [OF dsm.setPos_manager(2) [OF A]] b assms(5) by blast
  let ?p = "(NewSession (localID p) self k them addr)\<lparr>inner := Some B, PendingAck := ackMsg\<rparr>"
  have lk: "ioLookup w (o_nick offer) = Inr addr" using assms(5,6) by simp
  have rc: "receiveOffer P (ioRand w) (freshSession u self k addr) offer = (B, True, ackMsg, None)" using assms(8) u by simp
  have lu: "LocalUUID B = u" using assms(11) u by simp
  obtain c' where h: "handleRatchet (diskManager L) P L S w q msg c = (c', None)"
    and kp: "keeps (diskManager L) (\<lambda>w. libsLaw L \<and> noFault w) (sessionhash L self) k (clManager c') (o_nick offer)
      ((NewSession u self k (o_nick offer) addr)\<lparr>inner := Some B, PendingAck := ackMsg\<rparr>)"
    by (rule dsm.client_offered [OF g A(1) assms(3,4) lk assms(7) b rc assms(9,10) lu])
  have len: "length (localID p) = 16"
    using assms(1) by (auto simp: localID_def party_def talking_def toULID_def)
  have id: "localID ?p = localID p" using assms(11) len by (simp add: localID_def toULID_def)
  have "\<exists>p'. mGet (diskManager L) w' (clManager c') (localID p) = Inr p' \<and> restoredPeer k ?p p'"
    if "goodIo L w'" for w'
    using kp that id u assms(5) unfolding keeps_def goodIo_def by metis
  moreover have "PendingAck p' = ackMsg" if "restoredPeer k ?p p'" for p'
    using that by (auto simp: restoredPeer_def)
  ultimately show ?thesis using h by blast
qed

theorem offer_replaces_session_witness:
  "\<exists>c p x dr msg ackMsg B c'. party demoLibs [98] demoBobKey [97] c p x dr
    \<and> handleRatchet (diskManager demoLibs) demo demoLibs demoSalty (demoWorld word_of_nat demoAliceKey) 0 msg c = (c', None)
    \<and> ackMsg \<noteq> []
    \<and> (\<exists>p'. mGet (diskManager demoLibs) (demoWorld (\<lambda>_. 4) []) (clManager c') (localID p) = Inr p' \<and> PendingAck p' = ackMsg
        \<and> restoredPeer demoBobKey ((NewSession (localID p) [98] demoBobKey [97] (demoAddr [97] demoAliceKey))
            \<lparr>inner := Some B, PendingAck := ackMsg\<rparr>) p')"
proof -
  obtain cA c where "exInv demo demoLibs [97] demoAliceKey [98] demoBobKey (cA, c, [], [])" by (rule demo_handshaken)
  then obtain p x dr where A: "party demoLibs [98] demoBobKey [97] c p x dr" by auto
  then have len: "length (localID p) = 16" by (auto simp: localID_def party_def talking_def toULID_def)
  let ?A = "freshSession (replicate 16 1) [97] demoAliceKey (demoAddr [98] demoBobKey)"
  let ?B = "freshSession (localID p) [98] demoBobKey (demoAddr [97] demoAliceKey)"
  have pre: "edKey demo (IdentityKey ?A)" "edKey demo (IdentityKey ?B)" "VerifyPeer ?A (edPublic (IdentityKey ?B))"
    "VerifyPeer ?B (edPublic (IdentityKey ?A))" "length (LocalUUID ?A) = 16" "length (LocalUUID ?B) = 16"
    "ratchet ?A = None"
    using demo_edKey len by (simp_all add: demoAddr_def)
  obtain offer ackMsg ack drA drB where o: "msgValid (OfferM offer)" "o_nick offer = Me ?A"
    and B: "receiveOffer demo (\<lambda>i. RandOk (\<lambda>_. word_of_nat i)) ?B offer =
      (?B\<lparr>RemoteUUID := LocalUUID ?A, ratchet := Some drB, IdentityKey := []\<rparr>, True, ackMsg, None)"
    and am: "unmarshalMessage ackMsg = Inr (sessAck, AckM ack)" and pd: "paired demo drA drB [] []"
    by (rule handshake_core [OF demo_laws(3,2,1) demo_sha512Law pre demo_inputs(7), of "\<lambda>i _. word_of_nat i"])
  let ?pub = "x25519Own demoLibs demoBobKey"
  obtain sealed where se: "Seal demo (RandOk (\<lambda>_. 9)) (OfferM offer) ?pub = Inr sealed"
    "Unseal demo sealed (x25519Private demoLibs demoBobKey) ?pub = Inr (OfferM offer)"
    using unseal_seal [of demo ?pub "x25519Private demoLibs demoBobKey" "OfferM offer" "\<lambda>_. 9"] o(1) demo_sealing
    by (auto simp: sealing_def)
  have "msgValid (SealedM sealed)" using Seal_length [OF se(1)] demo_sealing by (auto simp: sealing_def)
  then obtain msg where m: "unmarshalMessage msg = Inr (sessSealed, SealedM sealed)" by (rule transport) simp_all
  have ne: "ackMsg \<noteq> []" using am by (auto simp: unmarshalMessage_eq hasPrefix_def Prefix_def)
  have st: "storable (?B\<lparr>RemoteUUID := LocalUUID ?A, ratchet := Some drB, IdentityKey := []\<rparr>)"
    using paired_storable [OF demo_laws(2) pd] by (simp add: storable_def)
  have k: "length (addrKey (demoAddr [97] demoAliceKey)) = 32"
    using edKey_public [OF demo_edKey(1)] by (simp add: demoAddr_def)
  have n: "o_nick offer = [97]" using o(2) by simp
  have rc: "receiveOffer demo (ioRand (demoWorld word_of_nat demoAliceKey)) ?B offer =
      (?B\<lparr>RemoteUUID := LocalUUID ?A, ratchet := Some drB, IdentityKey := []\<rparr>, True, ackMsg, None)"
    using B demo_inputs(5) by simp
  have "\<exists>c'. handleRatchet (diskManager demoLibs) demo demoLibs demoSalty (demoWorld word_of_nat demoAliceKey) 0 msg c = (c', None)
    \<and> (\<forall>w'. goodIo demoLibs w' \<longrightarrow> (\<exists>p'. mGet (diskManager demoLibs) w' (clManager c') (localID p) = Inr p'
        \<and> PendingAck p' = ackMsg
        \<and> restoredPeer demoBobKey ((NewSession (localID p) [98] demoBobKey [97] (demoAddr [97] demoAliceKey))
            \<lparr>inner := Some (?B\<lparr>RemoteUUID := LocalUUID ?A, ratchet := Some drB, IdentityKey := []\<rparr>), PendingAck := ackMsg\<rparr>) p'))"
    by (rule offer_replaces_session [OF A demo_goodIo m se(2) n demo_inputs(10) k rc ne st]) simp
  with A ne demo_goodIo show ?thesis by meson
qed

section \<open>A message that is refused\<close>

lemma setPos_client: "clManager c = (sm, d) \<Longrightarrow> setPos (diskManager L) q c = c\<lparr>clManager := (SetPosition (q + 1) sm, d)\<rparr>"
  by (simp add: setPos_def diskManager_def)

lemma New_SetPosition: "New w (SetPosition q sm) n = (SetPosition q (fst (ByName w sm n)), snd (New w sm n))"
  by (auto simp: New_def ByName_def SetPosition_def split: option.split sum.split)

lemma unseal_setPos:
  "clManager c = (sm, d) \<Longrightarrow> unsealMsg (diskManager L) P L (c\<lparr>clManager := (SetPosition q sm, d)\<rparr>) xmsg = unsealMsg (diskManager L) P L c xmsg"
  by (simp add: unsealMsg_def diskManager_def Identity_def SetPosition_def split: Msg.split)

text \<open>The index after a message: an offer looks up the identifier of its sender and creates one if there is none.\<close>

definition indexAfter :: "io \<Rightarrow> DiskSessionManager \<Rightarrow> Msg \<Rightarrow> DiskSessionManager" where
  "indexAfter w sm m = (case m of OfferM offer \<Rightarrow> fst (ByName w sm (o_nick offer)) | _ \<Rightarrow> sm)"

definition sessionOf :: "libs \<Rightarrow> io \<Rightarrow> DiskSessionManager \<Rightarrow> disk \<Rightarrow> bytes \<Rightarrow> Msg \<Rightarrow> PeerSession result" where
  "sessionOf L w sm d i m = (case m of OfferM offer \<Rightarrow> snd (New w sm (o_nick offer)) | _ \<Rightarrow> Get L w sm d i)"

lemma sessionFor_disk:
  assumes "sessionOf L w sm d i m = Inr sess"
  shows "sessionFor (diskManager L) w (c\<lparr>clManager := (SetPosition q sm, d)\<rparr>) i m =
    (c\<lparr>clManager := (SetPosition q (indexAfter w sm m), d)\<rparr>, Inr (Some sess))"
proof -
  have g: "Get L w (SetPosition q sm) d i = Get L w sm d i"
    using dsm.setPosition_get [of L "\<lambda>p (sm, d). (SetPosition p sm, d)" w q "(sm, d)" i] by (simp add: diskManager_def)
  show ?thesis using assms g
    by (cases m) (simp_all add: sessionFor_def sessionOf_def indexAfter_def diskManager_def New_SetPosition)
qed

text \<open>
  C26: a message of any type, sealed or not, that the session refuses changes nothing that is stored but the position in the message bus and, for an offer, the index: no file changes whatever the message did to the ratchet in memory, the index of the sessions is as before except that an offer adds an identifier for a sender who has none, nothing is posted, and the user is told the error.
\<close>

theorem refused_message_keeps_store:
  assumes "unmarshalMessage msg = Inr (t, xmsg)" and "ioLock w = None" and "clManager c = (sm, d)"
    and "unsealMsg (diskManager L) P L c xmsg = Inr m"
    and "sessionOf L w sm d (goCopy 16 (deref (ID xmsg))) m = Inr sess"
    and "peerReceiveMsg P (ioRand w) sess m = (sess', est, cl, pt, Some e)" and "\<not> isPanic (Inl e :: bytes result)"
  shows "\<exists>c'. handleRatchet (diskManager L) P L S w q msg c = (c', None)
    \<and> clManager c' = (SetPosition (q + 1) (indexAfter w sm m), d)
    \<and> clEvents c' = clEvents c @ [OnError (wrap ''session receive'' e)] \<and> clPosts c' = clPosts c
    \<and> ((\<forall>offer. m \<noteq> OfferM offer) \<longrightarrow> indexAfter w sm m = sm)
    \<and> (\<forall>n u. map_of (smSessions sm) n = Some u \<longrightarrow> map_of (smSessions (indexAfter w sm m)) n = Some u)"
proof -
  have "ratchetBody (diskManager L) P L S w q (goCopy 16 (deref (ID xmsg))) xmsg c =
      (c\<lparr>clManager := (SetPosition (q + 1) (indexAfter w sm m), d)\<rparr>, Some (wrap ''session receive'' e))"
    using assms(4,6) sessionFor_disk [OF assms(5)]
    by (simp add: ratchetBody_def setPos_client [OF assms(3)] unseal_setPos [OF assms(3)])
  moreover have "report (c', Some (wrap ''session receive'' e)) = dispatch c' (OnError (wrap ''session receive'' e))"
    for c' :: "(DiskSessionManager \<times> disk) client" using assms(7) by (cases e) auto
  moreover have "map_of (smSessions (indexAfter w sm m)) n = Some u" if "map_of (smSessions sm) n = Some u" for n u
    using that by (auto simp: indexAfter_def ByName_def update_conv' split: Msg.split option.split)
  moreover have "indexAfter w sm m = sm" if "\<forall>offer. m \<noteq> OfferM offer" using that by (cases m) (auto simp: indexAfter_def)
  ultimately show ?thesis using dataMsg_ratchet [OF assms(1)] assms(1,2)
    by (simp add: handleRatchet_def readMsg_def Parse_def Use_def dispatch_def)
qed

theorem refused_message_keeps_store_witness:
  "\<exists>c p x dr msg c'. party demoLibs [98] demoBobKey [97] c p x dr
    \<and> handleRatchet (diskManager demoLibs) demo demoLibs demoSalty (demoWorld (\<lambda>_. 4) []) 0 msg c = (c', None)
    \<and> snd (clManager c') = snd (clManager c) \<and> clEvents c' \<noteq> clEvents c"
proof -
  obtain cA c where "exInv demo demoLibs [97] demoAliceKey [98] demoBobKey (cA, c, [], [])" by (rule demo_handshaken)
  then obtain p x dr where A: "party demoLibs [98] demoBobKey [97] c p x dr" by auto
  then have len: "length (localID p) = 16" by (auto simp: localID_def party_def talking_def toULID_def)
  let ?w = "demoWorld (\<lambda>_. 4) []"
  obtain sm d where c: "clManager c = (sm, d)" by fastforce
  have w: "libsLaw demoLibs \<and> noFault ?w" "ioLock ?w = None" using demo_goodIo [of "\<lambda>_. 4" "[]"] by (auto simp: goodIo_def)
  then obtain p' where g: "Get demoLibs ?w sm d (localID p) = Inr p'" and re: "restoredPeer demoBobKey p p'"
    using A c unfolding party_def keeps_def by (simp add: diskManager_def) blast
  from re A obtain x' dr' where x': "inner p' = Some x'" "ratchet x' = Some dr'"
    using restoredRatchet_None by (fastforce simp: restoredPeer_def party_def talking_def)
  let ?m = "\<lparr>d_uuid = localID p, d_payload = [1]\<rparr>"
  have "msgValid (DataM ?m)" using len by (simp add: dataValid_def)
  then obtain msg where m: "unmarshalMessage msg = Inr (sessData, DataM ?m)" by (rule transport) simp_all
  have r: "peerReceiveMsg demo (ioRand ?w) p' (DataM ?m) = (p', False, False, [], Some ErrCipherShort)"
    using x' by (simp add: peerReceiveMsg_def ReceiveMsg_def receiveData_def Decrypt_eq headerLen_def)
  have u: "unsealMsg (diskManager demoLibs) demo demoLibs c (DataM ?m) = Inr (DataM ?m)" by (simp add: unsealMsg_def)
  have "sessionOf demoLibs ?w sm d (goCopy 16 (deref (ID (DataM ?m)))) (DataM ?m) = Inr p'"
    using g len by (simp add: sessionOf_def)
  from refused_message_keeps_store [OF m w(2) c u this r] A c show ?thesis by fastforce
qed

end
