(* ===== verification/Fuzz.thy ===== *)
theory Fuzz
  imports Chat
begin

text \<open>
  The fuzzing harness of the session protocol (\<open>src/xochimilco/session_fuzz.go\<close>): it plays a conversation
  of two fresh sessions and hands the message under test to both at one of its stages.
\<close>

section \<open>The harness\<close>

text \<open>
  The generated identity keys and the random bytes of every call; \<open>zProbe\<close> those of the calls with the
  message under test.
\<close>

record fuzzIo =
  zAlice :: bytes
  zBob :: bytes
  zProbe :: "nat \<Rightarrow> reads"
  zOffer :: entropy
  zAck :: reads
  zEstab :: reads
  zSend :: entropy
  zData :: reads
  zBye :: reads
  zTime :: "bytes \<Rightarrow> bytes"

definition fuzzSession :: "bytes \<Rightarrow> bytes \<Rightarrow> Session" where
  "fuzzSession key peer = \<lparr>LocalUUID = [], RemoteUUID = [], Me = [], IdentityKey = key,
     VerifyPeer = (\<lambda>p. p = edPublic peer), spkPub = [], spkPriv = [], ratchet = None\<rparr>"

text \<open>What a call that panics does to the harness, and the calls of \<open>panic\<close> in the harness itself.\<close>

definition goBind :: "'a result \<Rightarrow> ('a \<Rightarrow> 'b result) \<Rightarrow> 'b result" where
  "goBind r f = (case r of Inl e \<Rightarrow> Inl e | Inr x \<Rightarrow> f x)"

definition panics :: "'a result" where
  "panics = Inl (Panic ''panic'')"

text \<open>The message under test is given to both sessions; only a panic is noticed.\<close>

definition ignored :: "Session \<times> received \<Rightarrow> Session result" where
  "ignored r = (case r of (s, _, _, _, e) \<Rightarrow> (case e of Some (Panic p) \<Rightarrow> Inl (Panic p) | _ \<Rightarrow> Inr s))"

definition probe :: "prims \<Rightarrow> fuzzIo \<Rightarrow> nat \<Rightarrow> nat \<Rightarrow> bytes \<Rightarrow> Session \<times> Session \<Rightarrow> (Session \<times> Session) result" where
  "probe P w mode stage msg ab =
     (if mode \<noteq> stage then Inr ab
      else case ab of (a, b) \<Rightarrow>
        goBind (ignored (Receive P (zProbe w 0) a msg)) (\<lambda>a.
        goBind (ignored (Receive P (zProbe w 1) b msg)) (\<lambda>b. Inr (a, b))))"

text \<open>The stages of the conversation.\<close>

definition fuzzOffer :: "prims \<Rightarrow> fuzzIo \<Rightarrow> Session \<times> Session \<Rightarrow> (bytes \<times> Session \<times> Session) result" where
  "fuzzOffer P w = (\<lambda>(alice, bob). case Offer P (zOffer w) alice of
     (alice, Inl e) \<Rightarrow> panics | (alice, Inr offerMsg) \<Rightarrow> Inr (offerMsg, alice, bob))"

definition fuzzAck :: "prims \<Rightarrow> fuzzIo \<Rightarrow> bytes \<Rightarrow> Session \<times> Session \<Rightarrow> (bytes \<times> Session \<times> Session) result" where
  "fuzzAck P w offerMsg = (\<lambda>(alice, bob). case Acknowledge P (zAck w) bob offerMsg of
     (bob, ackMsg, Some e) \<Rightarrow> panics | (bob, ackMsg, None) \<Rightarrow> Inr (ackMsg, alice, bob))"

definition fuzzEstablish :: "prims \<Rightarrow> fuzzIo \<Rightarrow> bytes \<Rightarrow> Session \<times> Session \<Rightarrow> (Session \<times> Session) result" where
  "fuzzEstablish P w ackMsg = (\<lambda>(alice, bob). case Receive P (zEstab w) alice ackMsg of
     (alice, isEstablished, isClosed, plaintext, err) \<Rightarrow>
       (if err \<noteq> None then panics
        else if \<not> isEstablished \<or> isClosed \<or> length plaintext > 0 then panics else Inr (alice, bob)))"

definition fuzzSend :: "prims \<Rightarrow> fuzzIo \<Rightarrow> Session \<times> Session \<Rightarrow> (bytes \<times> Session \<times> Session) result" where
  "fuzzSend P w = (\<lambda>(alice, bob). case Send P (zTime w) (zSend w) alice (str ''hello bob'') of
     (alice, Inl e) \<Rightarrow> panics | (alice, Inr dataMsg) \<Rightarrow> Inr (dataMsg, alice, bob))"

definition fuzzData :: "prims \<Rightarrow> fuzzIo \<Rightarrow> bytes \<Rightarrow> Session \<times> Session \<Rightarrow> (Session \<times> Session) result" where
  "fuzzData P w dataMsg = (\<lambda>(alice, bob). case Receive P (zData w) bob dataMsg of
     (bob, isEstablished, isClosed, _, err) \<Rightarrow>
       (if err \<noteq> None then panics else if isEstablished \<or> isClosed then panics else Inr (alice, bob)))"

definition fuzzClose :: "Session \<times> Session \<Rightarrow> (bytes \<times> Session \<times> Session) result" where
  "fuzzClose = (\<lambda>(alice, bob). case Close alice of
     (alice, Inl e) \<Rightarrow> panics | (alice, Inr closeMsg) \<Rightarrow> Inr (closeMsg, alice, bob))"

definition fuzzBye :: "prims \<Rightarrow> fuzzIo \<Rightarrow> bytes \<Rightarrow> Session \<times> Session \<Rightarrow> (Session \<times> Session) result" where
  "fuzzBye P w closeMsg = (\<lambda>(alice, bob). case Receive P (zBye w) bob closeMsg of
     (bob, isEstablished, isClosed, _, err) \<Rightarrow>
       (if err \<noteq> None then panics else if isEstablished \<or> \<not> isClosed then panics else Inr (alice, bob)))"

definition fuzzEnd :: "Session \<times> Session \<Rightarrow> (Session \<times> Session) result" where
  "fuzzEnd = (\<lambda>(alice, bob). case Close bob of (bob, Inl e) \<Rightarrow> panics | (bob, Inr _) \<Rightarrow> Inr (alice, bob))"

definition Fuzz :: "prims \<Rightarrow> fuzzIo \<Rightarrow> bytes \<Rightarrow> int result" where
  "Fuzz P w data =
     (if length data = 0 then Inr 0
      else let mode = unat (data ! 0 mod 8); data = drop 1 data in
        if \<not> hasPrefix data Prefix then Inr (-1)
        else let msg = Prefix @ data @ Suffix; probe = (\<lambda>stage. probe P w mode stage msg) in
          goBind (probe 0 (fuzzSession (zAlice w) (zBob w), fuzzSession (zBob w) (zAlice w))) (\<lambda>ab.
          goBind (fuzzOffer P w ab) (\<lambda>(offerMsg, ab).
          goBind (probe 1 ab) (\<lambda>ab.
          goBind (fuzzAck P w offerMsg ab) (\<lambda>(ackMsg, ab).
          goBind (probe 2 ab) (\<lambda>ab.
          goBind (fuzzEstablish P w ackMsg ab) (\<lambda>ab.
          goBind (probe 2 ab) (\<lambda>ab.
          goBind (fuzzSend P w ab) (\<lambda>(dataMsg, ab).
          goBind (probe 3 ab) (\<lambda>ab.
          goBind (fuzzData P w dataMsg ab) (\<lambda>ab.
          goBind (probe 4 ab) (\<lambda>ab.
          goBind (fuzzClose ab) (\<lambda>(closeMsg, ab).
          goBind (probe 5 ab) (\<lambda>ab.
          goBind (fuzzBye P w closeMsg ab) (\<lambda>ab.
          goBind (probe 6 ab) (\<lambda>ab.
          goBind (fuzzEnd ab) (\<lambda>ab.
          goBind (probe 7 ab) (\<lambda>ab. Inr 0))))))))))))))))))"

section \<open>The message under test is never decoded\<close>

lemma doubled_refused:
  assumes "hasPrefix data Prefix"
  shows "unmarshalMessage (Prefix @ data @ Suffix) = Inl (ErrMsgType 241)"
proof -
  obtain rest where d: "data = Prefix @ rest" using assms unfolding hasPrefix_def by (metis append_take_drop_id)
  have t: "(Prefix @ data @ Suffix) ! length Prefix - 48 = 241" by (simp add: d Prefix_def str_def nth_append)
  have "container 241 = Inl (ErrMsgType 241)"
    by (simp add: container_def sessOffer_def sessAck_def sessData_def sessClose_def sessSealed_def)
  moreover have "hasPrefix (Prefix @ data @ Suffix) Prefix" "hasSuffix (Prefix @ data @ Suffix) Suffix"
    "length Prefix < length (Prefix @ data @ Suffix)"
    by (simp_all add: hasPrefix_def hasSuffix_def d Prefix_def)
  ultimately show ?thesis using t by (simp add: unmarshalMessage_eq Let_def)
qed

lemma probe_idle:
  assumes "hasPrefix data Prefix"
  shows "probe P w mode stage (Prefix @ data @ Suffix) ab = Inr ab"
  by (cases ab) (simp add: probe_def Receive_def doubled_refused [OF assms] ignored_def goBind_def)

lemma goBind_Inr [simp]: "goBind (Inr x) f = f x"
  by (simp add: goBind_def)

section \<open>Sessions without an identifier\<close>

text \<open>An empty identifier travels as sixteen zero bytes.\<close>

lemma goCopy_zero: "goCopy 16 [] = replicate 16 0"
  by (simp add: goCopy_def)

lemma Offer_id:
  assumes "goCopy 16 u = goCopy 16 (LocalUUID X)"
  shows "Offer P rnd (X\<lparr>LocalUUID := u\<rparr>) = apfst (\<lambda>s. s\<lparr>LocalUUID := u\<rparr>) (Offer P rnd X)"
  using assms by (simp add: Offer_def createOffer_def Let_def marshalMessage_def offerMarshal_def split: sum.split prod.split)

lemma receiveOffer_id:
  assumes "goCopy 16 u = goCopy 16 (LocalUUID X)"
  shows "receiveOffer P rs (X\<lparr>LocalUUID := u\<rparr>) offer = apfst (\<lambda>s. s\<lparr>LocalUUID := u\<rparr>) (receiveOffer P rs X offer)"
  using assms by (auto simp: receiveOffer_def Let_def split: sum.split prod.split option.split)

lemma receiveAck_id: "receiveAck P rnd (X\<lparr>LocalUUID := u\<rparr>) ack = apfst (\<lambda>s. s\<lparr>LocalUUID := u\<rparr>) (receiveAck P rnd X ack)"
  by (auto simp: receiveAck_def Let_def split: sum.split prod.split)

section \<open>The conversation of the harness\<close>

lemma receiveAck_ratchet:
  assumes "receiveAck P rnd A ack = (A2, True, None)" and "ratchet A2 = Some dr"
  shows "\<exists>k ad pub priv c pt. Decrypt P rnd (CreatePassive k ad pub priv) c = (dr, Inr pt)"
  using assms by (auto simp: receiveAck_def Let_def split: if_splits sum.splits prod.splits) blast

lemma receiveOffer_ratchet:
  assumes "receiveOffer P rs B offer = (B1, True, ackMsg, None)" and "ratchet B1 = Some dr"
  shows "\<exists>k ad pub d pt ct. CreateActive P (rs 1) k ad pub = Inr d \<and> Encrypt P (rs 3) d pt = (dr, Inr ct)"
  using assms by (auto simp: receiveOffer_def Let_def split: if_splits sum.splits prod.splits option.splits) blast

lemma skipLoop_prev: "skipLoop P dr until = (dr', e) \<Longrightarrow> dr_prevSendNo dr' = dr_prevSendNo dr \<and> dr_sendNo dr' = dr_sendNo dr"
proof (induction P dr until rule: skipLoop.induct)
  case (1 P dr until)
  show ?case using 1(2) 1(1) by (subst (asm) skipLoop.simps) (auto split: if_splits sum.splits)
qed

lemma skipMsgKeys_prev: "skipMsgKeys P dr until = (dr', e) \<Longrightarrow> dr_prevSendNo dr' = dr_prevSendNo dr \<and> dr_sendNo dr' = dr_sendNo dr"
  by (auto simp: skipMsgKeys_def split: if_splits dest: skipLoop_prev)

lemma Decrypt_prev:
  assumes "Decrypt P rnd (CreatePassive k ad pub priv) c = (dr, Inr pt)"
  shows "dr_prevSendNo dr = 0"
proof -
  let ?d = "CreatePassive k ad pub priv"
  obtain h d1 where r: "decryptRatchet P rnd ?d h = (d1, None)" and m: "fst (decryptMsgKey P d1 h) = dr"
    using assms by (auto simp: Decrypt_eq split: if_splits sum.splits prod.splits option.splits)
  have "dr_prevSendNo d1 = 0"
    using r by (auto simp: decryptRatchet_def dhStep_def Let_def CreatePassive_def split: if_splits prod.splits option.splits
        dest!: skipMsgKeys_prev)
  moreover have "dr_prevSendNo dr = dr_prevSendNo d1"
    using m by (auto simp: decryptMsgKey_def nextMsgKey_def split: if_splits prod.splits option.splits sum.splits
        dest!: skipMsgKeys_prev)
  ultimately show ?thesis by simp
qed

lemma active_pub:
  assumes "CreateActive P (RandOk f) k ad pub = Inr d" and "Encrypt P rnd d pt = (d', r)"
  shows "r_dhPub (dr_dhr d') = x25519_base P (map f [0..<32])"
proof -
  have d: "dr_chainKeySend d = None" "r_dhPub (dr_dhr d) = x25519_base P (map f [0..<32])"
    "r_isActive (dr_dhr d)" "\<not> r_isInitialized (dr_dhr d)"
    using assms(1) by (auto simp: CreateActive_def dhRatchetActive_def dhKeyPair_ok)
  obtain d1 e where s: "dhStep P rnd d = (d1, e)" by fastforce
  then have "r_dhPub (dr_dhr d1) = r_dhPub (dr_dhr d)"
    using d(3,4) by (auto simp: dhStep_def step_def stepInitial_def Let_def split: sum.splits)
  moreover have "dr_dhr d' = dr_dhr d1"
    using assms(2) d(1) s by (auto simp: Encrypt_def Let_def split: option.splits sum.splits prod.splits)
  ultimately show ?thesis using d(2) by simp
qed

lemma leading_send:
  assumes "aesLaw P" and "hmacLaw P" and "dhLaw P" and "paired P x y [] []"
    and "dr_sendNo x = 0" and "dr_prevSendNo x = 0"
  obtains x' msg where "Encrypt P rnd x pt = (x', Inr msg)" and "admissible x' y (headerOf msg)"
proof -
  from assms(4) obtain ck where a: "dhAhead P (dr_dhr x) (dr_dhr y) ck" and s: "source P ck x []"
    by (auto simp: paired_def leads_def)
  have "headerValid (sendHeader x)"
    using assms(3) dhAheadD(1) [OF a] by (rule sendHeader_valid) (simp_all add: assms(5,6))
  with assms(1,2) s obtain k msg where
    e: "Encrypt P rnd x pt = (x\<lparr>dr_chainKeySend := k, dr_sendNo := dr_sendNo x + 1\<rparr>, Inr msg)"
    and h: "headerOf msg = sendHeader x"
    by (rule source_send)
  have "0 \<le> dr_recvNo y" using assms(4) by (simp add: paired_def hears_def)
  then have "admissible (x\<lparr>dr_chainKeySend := k, dr_sendNo := dr_sendNo x + 1\<rparr>) y (headerOf msg)"
    using h assms(5,6) by (simp add: admissible_def sendHeader_def maxSkipElements_def)
  with e show thesis by (rule that)
qed

lemma delivered_once:
  assumes "aesLaw P" and "hmacLaw P" and "dhLaw P" and "paired P x y [] []"
    and "Encrypt P rnd x pt = (x', Inr msg)" and "admissible x' y (headerOf msg)" and "freshKey P f y []"
  obtains y' where "Decrypt P (RandOk f) y msg = (y', Inr pt)"
proof -
  obtain y' r where d: "Decrypt P (RandOk f) y msg = (y', r)" by fastforce
  have "act P (x, y, [], []) [] (x', y, [] @ [(pt, msg)], [])" using assms(5) by (rule act.send)
  with talk.start have "talk P (x, y, [], []) ([] @ []) (x', y, [] @ [(pt, msg)], [])" by (rule talk.more)
  moreover have "act P (x', y, [] @ (pt, msg) # [], []) [(pt, r)] (x', y', [] @ [], [])"
    using assms(6,7) d by (rule act.deliver)
  ultimately have "talk P (x, y, [], []) (([] @ []) @ [(pt, r)]) (x', y', [] @ [], [])" using talk.more by fastforce
  with assms(1-3) have "honest (([] @ []) @ [(pt, r)])" using talk_synced assms(4) by fastforce
  then have "r = Inr pt" by (simp add: honest_def)
  with d show thesis by (intro that) simp
qed

text \<open>The conversation that the harness plays succeeds at every stage.\<close>

definition fuzzFine :: "prims \<Rightarrow> fuzzIo \<Rightarrow> bool" where
  "fuzzFine P w \<longleftrightarrow> edKey P (zAlice w) \<and> edKey P (zBob w) \<and> (\<forall>u. length (zTime w u) = 16)
     \<and> (\<exists>f g f' h. zOffer w = RandOk f \<and> zAck w = (\<lambda>i. RandOk (g i)) \<and> zEstab w = (\<lambda>i. RandOk f') \<and> zData w = (\<lambda>i. RandOk h)
       \<and> x25519_base P (map f' [0..<32]) \<noteq> x25519_base P (map f [0..<32])
       \<and> x25519_base P (map h [0..<32]) \<noteq> x25519_base P (map (g 1) [0..<32]))"

lemma fuzz_handshake:
  assumes laws: "aesLaw P" "hmacLaw P" "dhLaw P" "sha512Law P" and w: "fuzzFine P w"
  obtains alice bob alice1 bob1 offerMsg ackMsg drA drB h where
    "fuzzOffer P w (fuzzSession (zAlice w) (zBob w), fuzzSession (zBob w) (zAlice w)) = Inr (offerMsg, alice, bob)"
    and "fuzzAck P w offerMsg (alice, bob) = Inr (ackMsg, alice, bob1)"
    and "fuzzEstablish P w ackMsg (alice, bob1) = Inr (alice1, bob1)"
    and "ratchet alice1 = Some drA" and "ratchet bob1 = Some drB" and "paired P drA drB [] []"
    and "dr_sendNo drA = 0" and "dr_prevSendNo drA = 0" and "zData w = (\<lambda>i. RandOk h)" and "freshKey P h drB []"
    and "length (RemoteUUID alice1) = 16" and "length (RemoteUUID bob1) = 16"
proof -
  from w obtain f g f' h where r: "zOffer w = RandOk f" "zAck w = (\<lambda>i. RandOk (g i))" "zEstab w = (\<lambda>i. RandOk f')" "zData w = (\<lambda>i. RandOk h)"
    and fr: "x25519_base P (map f' [0..<32]) \<noteq> x25519_base P (map f [0..<32])"
      "x25519_base P (map h [0..<32]) \<noteq> x25519_base P (map (g 1) [0..<32])"
    and k: "edKey P (zAlice w)" "edKey P (zBob w)"
    unfolding fuzzFine_def by blast
  let ?a = "fuzzSession (zAlice w) (zBob w)" and ?b = "fuzzSession (zBob w) (zAlice w)"
  let ?A = "?a\<lparr>LocalUUID := replicate 16 0\<rparr>" and ?B = "?b\<lparr>LocalUUID := replicate 16 0\<rparr>"
  have pre: "edKey P (IdentityKey ?A)" "edKey P (IdentityKey ?B)" "VerifyPeer ?A (edPublic (IdentityKey ?B))"
    "VerifyPeer ?B (edPublic (IdentityKey ?A))" "length (LocalUUID ?A) = 16" "length (LocalUUID ?B) = 16" "ratchet ?A = None"
    using k by (simp_all add: fuzzSession_def)
  obtain A1 offer ackMsg ack drA drB where o: "createOffer P (RandOk f) ?A = (A1, Inr offer)" "msgValid (OfferM offer)"
    and A1: "A1 = ?A\<lparr>spkPub := spkPub A1, spkPriv := spkPriv A1\<rparr>"
    and b: "receiveOffer P (\<lambda>i. RandOk (g i)) ?B offer =
      (?B\<lparr>RemoteUUID := LocalUUID ?A, ratchet := Some drB, IdentityKey := []\<rparr>, True, ackMsg, None)"
    and u: "unmarshalMessage ackMsg = Inr (sessAck, AckM ack)"
    and a: "receiveAck P (RandOk f') A1 ack = (A1\<lparr>spkPub := [], spkPriv := [], ratchet := Some drA,
      RemoteUUID := LocalUUID ?B, IdentityKey := []\<rparr>, True, None)"
    and p: "paired P drA drB [] []" and z: "dr_sendNo drA = 0"
    by (rule handshake_core [OF laws pre fr(1), of g])
  let ?alice = "A1\<lparr>LocalUUID := []\<rparr>"
  let ?bob = "?B\<lparr>RemoteUUID := LocalUUID ?A, ratchet := Some drB, IdentityKey := [], LocalUUID := []\<rparr>"
  from o(2) obtain s where s: "marshalMessage sessOffer (OfferM offer) = Inr s" "unmarshalMessage s = Inr (sessOffer, OfferM offer)"
    by (rule transport) simp
  have id: "?A\<lparr>LocalUUID := []\<rparr> = ?a" "?B\<lparr>LocalUUID := []\<rparr> = ?b" by (simp_all add: fuzzSession_def)
  have gc: "goCopy 16 [] = goCopy 16 (LocalUUID ?A)" "goCopy 16 [] = goCopy 16 (LocalUUID ?B)" by (simp_all add: goCopy_def)
  have "Offer P (RandOk f) ?A = (A1, Inr s)" using o(1) s(1) by (simp add: Offer_def)
  with Offer_id [OF gc(1), of P "RandOk f"] have O: "Offer P (RandOk f) ?a = (?alice, Inr s)" unfolding id by simp
  have "receiveOffer P (\<lambda>i. RandOk (g i)) ?b offer = (?bob, True, ackMsg, None)"
    using receiveOffer_id [OF gc(2), of P "\<lambda>i. RandOk (g i)" offer] b unfolding id by simp
  then have B: "Acknowledge P (\<lambda>i. RandOk (g i)) ?b s = (?bob, ackMsg, None)" using s(2) by (simp add: Acknowledge_def)
  define alice1 where "alice1 = A1\<lparr>spkPub := [], spkPriv := [], ratchet := Some drA, RemoteUUID := LocalUUID ?B, IdentityKey := [],
    LocalUUID := []\<rparr>"
  have "receiveAck P (RandOk f') ?alice ack = (alice1, True, None)" using receiveAck_id [where X = A1 and u = "[]" and rnd = "RandOk f'" and ack = ack and P = P] a by (simp add: alice1_def)
  then have R: "Receive P (\<lambda>i. RandOk f') ?alice ackMsg = (alice1, True, False, [], None)"
    using u by (simp add: Receive_def ReceiveMsg_def)
  have pv: "dr_prevSendNo drA = 0"
    using receiveAck_ratchet [OF a, of drA] Decrypt_prev by force
  have "r_dhPub (dr_dhr drB) = x25519_base P (map (g 1) [0..<32])"
    using receiveOffer_ratchet [OF b, of drB] active_pub by fastforce
  then have fk: "freshKey P h drB []" using fr(2) by (simp add: freshKey_def ofChain_def)
  show thesis
  proof (rule that [of s ?alice ?b ackMsg ?bob alice1 drA drB h])
    show "fuzzOffer P w (?a, ?b) = Inr (s, ?alice, ?b)" using O r by (simp add: fuzzOffer_def)
    show "fuzzAck P w s (?alice, ?b) = Inr (ackMsg, ?alice, ?bob)" using B r by (simp add: fuzzAck_def)
    show "fuzzEstablish P w ackMsg (?alice, ?bob) = Inr (alice1, ?bob)" using R r by (simp add: fuzzEstablish_def)
  qed (use p z pv r fk in \<open>simp_all add: alice1_def\<close>)
qed

lemma fuzz_texts:
  assumes laws: "aesLaw P" "hmacLaw P" "dhLaw P" and w: "fuzzFine P w"
    and "ratchet alice = Some drA" and "ratchet bob = Some drB" and "paired P drA drB [] []"
    and "dr_sendNo drA = 0" and "dr_prevSendNo drA = 0" and "zData w = (\<lambda>i. RandOk h)" and "freshKey P h drB []"
    and "length (RemoteUUID alice) = 16" and "length (RemoteUUID bob) = 16"
  obtains dataMsg closeMsg alice1 bob1 alice2 bob2 where "fuzzSend P w (alice, bob) = Inr (dataMsg, alice1, bob)"
    and "fuzzData P w dataMsg (alice1, bob) = Inr (alice1, bob1)" and "fuzzClose (alice1, bob1) = Inr (closeMsg, alice2, bob1)"
    and "fuzzBye P w closeMsg (alice2, bob1) = Inr (alice2, bob1)" and "fuzzEnd (alice2, bob1) = Inr (alice2, bob2)"
proof -
  have t: "\<forall>u. length (zTime w u) = 16" using w by (simp add: fuzzFine_def)
  obtain drA' ct where e: "Encrypt P (zSend w) drA (str ''hello bob'') = (drA', Inr ct)" and ad: "admissible drA' drB (headerOf ct)"
    by (rule leading_send [OF laws assms(7-9)])
  obtain drB' where d: "Decrypt P (RandOk h) drB ct = (drB', Inr (str ''hello bob''))"
    by (rule delivered_once [OF laws assms(7) e ad assms(11)])
  let ?d = "\<lparr>d_uuid = encTime (zTime w) (RemoteUUID alice), d_payload = ct\<rparr>"
  have "msgValid (DataM ?d)" using t Encrypt_nonempty [OF e] by (simp add: dataValid_def encTime_def)
  then obtain s where s: "marshalMessage sessData (DataM ?d) = Inr s" "unmarshalMessage s = Inr (sessData, DataM ?d)"
    by (rule transport) simp
  let ?alice = "alice\<lparr>ratchet := Some drA'\<rparr>" and ?bob = "bob\<lparr>ratchet := Some drB'\<rparr>"
  obtain m where c: "Close ?alice = (?alice\<lparr>spkPub := [], spkPriv := [], ratchet := None\<rparr>, Inr m)"
    and um: "unmarshalMessage m = Inr (sessClose, CloseM \<lparr>c_uuid = RemoteUUID ?alice, c_payload = [0xff]\<rparr>)"
    using assms(12) by (auto intro: Close_ok [of ?alice])
  obtain m' where c': "Close ?bob = (?bob\<lparr>spkPub := [], spkPriv := [], ratchet := None\<rparr>, Inr m')"
    using assms(13) by (auto intro: Close_ok [of ?bob])
  show thesis
  proof (rule that)
    show "fuzzSend P w (alice, bob) = Inr (s, ?alice, bob)" using assms(5) e s(1) by (simp add: fuzzSend_def Send_def)
    show "fuzzData P w s (?alice, bob) = Inr (?alice, ?bob)"
      using assms(6,10) d s(2) by (simp add: fuzzData_def Receive_def ReceiveMsg_def receiveData_def)
    show "fuzzClose (?alice, ?bob) = Inr (m, ?alice\<lparr>spkPub := [], spkPriv := [], ratchet := None\<rparr>, ?bob)"
      using c by (simp add: fuzzClose_def)
    show "fuzzBye P w m (?alice\<lparr>spkPub := [], spkPriv := [], ratchet := None\<rparr>, ?bob) =
        Inr (?alice\<lparr>spkPub := [], spkPriv := [], ratchet := None\<rparr>, ?bob)"
      using um by (simp add: fuzzBye_def Receive_def ReceiveMsg_def)
    show "fuzzEnd (?alice\<lparr>spkPub := [], spkPriv := [], ratchet := None\<rparr>, ?bob) =
        Inr (?alice\<lparr>spkPub := [], spkPriv := [], ratchet := None\<rparr>, ?bob\<lparr>spkPub := [], spkPriv := [], ratchet := None\<rparr>)"
      using c' by (simp add: fuzzEnd_def)
  qed
qed

text \<open>
  C33: the fuzzing harness tests nothing: it asks for input that starts with the prefix of a message and then puts the prefix in front of it once more, so that the sessions refuse every message under test by its type before they decode anything; with a working random source and fresh keys the harness reports success for every input with the prefix and rejects all others, it never panics.
\<close>

theorem fuzz_tests_nothing:
  assumes "aesLaw P" and "hmacLaw P" and "dhLaw P" and "sha512Law P" and "fuzzFine P w"
  shows "Fuzz P w data = Inr (if data \<noteq> [] \<and> \<not> hasPrefix (drop 1 data) Prefix then -1 else 0)
    \<and> (hasPrefix (drop 1 data) Prefix \<longrightarrow>
        Receive P rs sess (Prefix @ drop 1 data @ Suffix) = (sess, False, False, [], Some (ErrMsgType 241)))"
proof (cases "hasPrefix (drop 1 data) Prefix")
  case True
  then have ne: "data \<noteq> []" by (auto simp: hasPrefix_def Prefix_def)
  obtain alice bob alice1 bob1 offerMsg ackMsg drA drB h where
    o: "fuzzOffer P w (fuzzSession (zAlice w) (zBob w), fuzzSession (zBob w) (zAlice w)) = Inr (offerMsg, alice, bob)"
      "fuzzAck P w offerMsg (alice, bob) = Inr (ackMsg, alice, bob1)"
      "fuzzEstablish P w ackMsg (alice, bob1) = Inr (alice1, bob1)"
    and c: "ratchet alice1 = Some drA" "ratchet bob1 = Some drB" "paired P drA drB [] []" "dr_sendNo drA = 0" "dr_prevSendNo drA = 0"
      "zData w = (\<lambda>i. RandOk h)" "freshKey P h drB []" "length (RemoteUUID alice1) = 16" "length (RemoteUUID bob1) = 16"
    by (rule fuzz_handshake [OF assms])
  obtain dataMsg closeMsg alice2 bob2 alice3 bob3 where "fuzzSend P w (alice1, bob1) = Inr (dataMsg, alice2, bob1)"
    "fuzzData P w dataMsg (alice2, bob1) = Inr (alice2, bob2)" "fuzzClose (alice2, bob2) = Inr (closeMsg, alice3, bob2)"
    "fuzzBye P w closeMsg (alice3, bob2) = Inr (alice3, bob2)" "fuzzEnd (alice3, bob2) = Inr (alice3, bob3)"
    by (rule fuzz_texts [OF assms(1-3,5) c])
  with o ne True have "Fuzz P w data = Inr 0"
    by (simp add: Fuzz_def Let_def probe_idle [OF True, simplified])
  with True doubled_refused [OF True] show ?thesis by (simp add: Receive_def)
qed (auto simp: Fuzz_def Let_def)

definition demoFuzz :: fuzzIo where
  "demoFuzz = \<lparr>zAlice = demoAliceKey, zBob = demoBobKey, zProbe = (\<lambda>_ _. RandOk (\<lambda>_. 0)), zOffer = RandOk (\<lambda>_. 3),
     zAck = (\<lambda>i. RandOk (\<lambda>_. word_of_nat i)), zEstab = (\<lambda>_. RandOk (\<lambda>_. 4)), zSend = RandOk (\<lambda>_. 0),
     zData = (\<lambda>_. RandOk (\<lambda>_. 5)), zBye = (\<lambda>_. RandOk (\<lambda>_. 0)), zTime = goCopy 16\<rparr>"

theorem fuzz_tests_nothing_witness:
  "Fuzz demo demoFuzz (7 # str ''!RAT!3abc'') = Inr 0 \<and> Fuzz demo demoFuzz (7 # str ''abc'') = Inr (-1)
   \<and> Receive demo (\<lambda>_. RandOk (\<lambda>_. 0)) demoA (Prefix @ str ''!RAT!3abc'' @ Suffix) = (demoA, False, False, [], Some (ErrMsgType 241))"
proof -
  have "x25519_base demo (map (\<lambda>_. 4) [0..<32]) \<noteq> x25519_base demo (map (\<lambda>_. 3) [0..<32])"
    "x25519_base demo (map (\<lambda>_. 5) [0..<32]) \<noteq> x25519_base demo (map (\<lambda>_. word_of_nat 1) [0..<32])"
    by (simp_all add: demo_def map_replicate_const)
  then have w: "fuzzFine demo demoFuzz" using demo_edKey unfolding fuzzFine_def demoFuzz_def by fastforce
  have "hasPrefix (drop 1 (7 # str ''!RAT!3abc'')) Prefix" "\<not> hasPrefix (drop 1 (7 # str ''abc'')) Prefix"
    by (simp_all add: hasPrefix_def Prefix_def str_def)
  then show ?thesis
    using fuzz_tests_nothing [OF demo_laws(3,2,1) demo_sha512Law w, of "7 # str ''!RAT!3abc''" "\<lambda>_. RandOk (\<lambda>_. 0)" demoA]
      fuzz_tests_nothing [OF demo_laws(3,2,1) demo_sha512Law w, of "7 # str ''abc''" "\<lambda>_. RandOk (\<lambda>_. 0)" demoA] by simp
qed

end
