(* ===== verification/Spec2Isabelle.thy ===== *)
theory Spec2Isabelle
  imports EntryPoint Faults Fuzz
begin

text \<open>
  A verification library for Ratchet Chat, a messenger that encrypts conversations end to end with
  the X3DH key agreement and the double ratchet and delivers them over a message bus.

  \<^bold>\<open>The program and its theories.\<close> Every theory is named with the files under \<open>src/\<close> it models; the
  definitions keep the names of the source where they can, the fields of records carry a short prefix.

  \<^item> \<open>Prelude\<close>: bytes, Go slices and strings, errors and panics, the index and slice expressions with
    their run-time checks (\<open>goIndex\<close>, \<open>goSlice\<close>, \<open>goMake\<close>), random input, and the interfaces that several
    components fulfil: \<open>codec\<close>, \<open>canonical_codec\<close> and \<open>simulation\<close>.
  \<^item> \<open>Pkcs7\<close>, \<open>MsgHeader\<close>, \<open>KeyBuff\<close>, \<open>Primitives\<close>, \<open>DhRatchet\<close>, \<open>DoubleRatchet\<close>
    (\<open>doubleratchet/*.go\<close>): padding, the 36 bytes of a header, the ring of cached message keys, the
    authenticated encryption, the Diffie-Hellman ratchet with its root chain, and \<open>Encrypt\<close> and
    \<open>Decrypt\<close>. \<open>Conversation\<close> and \<open>RatchetSafety\<close> are about two ratchets, and about one ratchet and an
    attacker.
  \<^item> \<open>X3dh\<close> (\<open>x3dh/*.go\<close>): signed prekeys, both sides of the agreement, the conversion of Ed25519 keys.
  \<^item> \<open>Base64\<close>, \<open>Message\<close> (\<open>xochimilco/message.go\<close>): the messages on the wire, their container, sealing.
  \<^item> \<open>XSession\<close>, \<open>Chat\<close> (\<open>xochimilco/session.go\<close>): offer, acknowledgement, data and close, and two
    sessions that exchange texts. \<open>Fuzz\<close> (\<open>xochimilco/session_fuzz.go\<close>): the fuzzing harness.
  \<^item> \<open>Marshal\<close> (\<open>doubleratchet/marshal.go\<close> and the methods of \<open>Session\<close>): saving and restoring;
    \<open>Restore\<close>: conversations whose ends are restored between any two steps.
  \<^item> \<open>DiskSession\<close> (\<open>session/disk-session.go\<close>): sessions in files, the index, failing system calls.
    \<open>Manager\<close>: the interface \<open>SessionManager\<close> of \<open>client/client.go\<close> as a record of functions and its
    contract as the locale \<open>session_manager\<close>, interpreted on the files.
  \<^item> \<open>Client\<close> (\<open>client/client.go\<close>): \<open>Chat\<close>, \<open>Send\<close>, \<open>Close\<close>, \<open>SendSalty\<close> and the three handlers of incoming
    messages, over any manager. \<open>Exchange\<close>, \<open>Handshake\<close>, \<open>Liveness\<close>, \<open>Closing\<close> and \<open>Faults\<close> are about two
    clients, most of it proved once in the locale of the manager.
  \<^item> \<open>MemSession\<close> (\<open>session/mem/mem-session.go\<close>): the logs of events kept in memory.
  \<^item> \<open>Cli\<close>, \<open>CliRuns\<close> (\<open>cli/basic.go\<close>): the four commands as processes of their own, and two users who
    run them one after the other.
  \<^item> \<open>GoStrings\<close>, \<open>Terminal\<close>: the functions of package \<open>strings\<close> on UTF-8 text, and the lines printed
    for events. \<open>Shell\<close>, \<open>ShellRuns\<close> (\<open>interactive/interactive.go\<close>): the interactive shell. \<open>Ui\<close>
    (\<open>ui/chat.go\<close>): the full screen interface.
  \<^item> \<open>EntryPoint\<close> (\<open>main.go\<close>, \<open>client/driver-msgbus/msgbus.go\<close>): the options, the input, the commands and
    the exit status.

  The parts interact as follows. An interface of the user calls an operation of the client under its
  lock; the client reads the session of a peer from the manager, lets the protocol session encrypt or
  decrypt with its ratchet, posts the result, stores the session and dispatches events, which the
  interface prints and the logs keep. The message bus calls the client with incoming texts in between.

  \<^bold>\<open>How code becomes definitions.\<close> A method with a pointer receiver is a function that returns the
  changed state, on every path, errors included. An error is a value of \<open>err\<close>, a run-time panic its
  constructor \<open>Panic\<close>; an index, a slice or a length that depends on the input is checked and panics out of
  range, as do \<open>ed25519.Verify\<close>, \<open>Sign\<close> and the modes of package \<open>cipher\<close> on operands of a wrong length; a
  lemma \<open>..._eq\<close> after each such definition shows which accesses the checks of the code keep in range. Random bytes and the answers of the operating system, the network, the clock and
  the lock are arguments (\<open>entropy\<close>, \<open>io\<close>, \<open>cliIo\<close>, \<open>shellIo\<close>, \<open>mainIo\<close>), so that every failure is a
  case of the model. The client, the shell and the screen are step functions over explicit states;
  interleavings are lists of steps or inductive relations. Code that is not part of the repository is
  a record of functions: \<open>prims\<close> (X25519, Ed25519, HMAC, HKDF, SHA-512, the AES block function, the NaCl
  box), \<open>libs\<close> (gob, JSON, keys, ULID), \<open>saltyLib\<close>, \<open>mathLib\<close>, \<open>fmtLib\<close>, \<open>drawLib\<close>, \<open>identities\<close>. What
  the code relies on are named hypotheses: \<open>aesLaw\<close>, \<open>hmacLaw\<close>, \<open>dhLaw\<close>, \<open>sha512Law\<close>, \<open>libsLaw\<close>,
  \<open>edKey\<close> (a generated key pair: signatures verify, and its two public keys are related by the birational
  map of RFC 7748), \<open>jsonLaw\<close>, \<open>ulidLaw\<close>, \<open>sealing\<close>, \<open>pages\<close> (the one page the shell reads); concrete functions that fulfil them (\<open>demo\<close>, \<open>demoLibs\<close>,
  \<open>demoMath\<close>) are used by the witnesses.

  \<^bold>\<open>What is shown.\<close>

  \<^item> Correct conversations, layer by layer: two ratchets over a lossy and reordering channel, two
    sessions, two clients whose sessions live in files and that start with a handshake over sealed
    offers, and two users of the command line deliver every text unchanged (theories \<open>Conversation\<close>,
    \<open>Chat\<close>, \<open>Handshake\<close>, \<open>CliRuns\<close>); a client with a session can send (\<open>Liveness\<close>), and closing deletes the
    session at both ends (\<open>Closing\<close>).
    Between clients texts must arrive in the order in which they were sent, because restoring a session
    loses cached keys, and every new ratchet key must not have been used before.
  \<^item> Agreement and round trips: both sides of X3DH and of the Diffie-Hellman ratchet derive the same
    keys; encryption, messages, sessions in files and the index survive a round trip, with what restoring
    loses stated exactly.
  \<^item> Safety against any input: the invariants of the ratchet and of the manager in every reachable
    state, closing and opening again included, no panic in \<open>Encrypt\<close>, \<open>Decrypt\<close> and, while a session holds
    its identity key, \<open>Receive\<close>; a refused message leaves the files as they were.
  \<^item> The user interfaces refine one machine of commands (\<open>ShellRuns\<close>, \<open>Ui\<close>): logs, prompts
    and the screen have no influence on the client; the prompt names nobody but the receiver of the next
    text, the logs are the events of the client, and both interfaces understand a line alike.
  \<^item> The program: which line is sent, that a command that cannot open its sessions does nothing, when
    reading the standard input returns.
  \<^item> Behaviour at the edges that the code does not intend, each with the theorem that proves it: replays
    and forged headers, what the authentication does not cover, exhausted counters, failed writes and
    requests, sealed messages without content, replayed offers, the rewound message bus, a fuzzing
    harness that tests nothing.

  \<^bold>\<open>Bounds.\<close> Counters of messages are unbounded integers in the model. The receiving counter is proved to
  stay below \<open>2 ^ 16 + 1\<close>; the sending counters grow with every call of \<open>Encrypt\<close>, failing ones included, and
  are proved to be at most the number of calls, so that the 64 bits of the code last for \<open>2 ^ 63\<close> calls. Bytes, modes of files and the positions of the logs keep their width and wrap. The
  loops that skip keys, pair keys, split and trim text and read pages end by a measure or by structure.
  Only \<open>ctxRead\<close> may run forever: it is a partial function, and when it returns is a theorem. The theorems
  about the shell assume fewer than \<open>2 ^ 63\<close> events, which a Go slice cannot exceed.

  \<^bold>\<open>Simplifications.\<close> The directory of a manager maps base names to files. A panic in a handler ends the
  program without deferred calls, since handlers run in goroutines of their own; a panic in an update of the
  full screen interface is caught or not by the terminal library, which is an argument. The order in which the
  operands of \<open>return established, ...\<close> are evaluated is an argument (\<open>late\<close>), as is the order in which
  \<open>range\<close> visits a map and in which the three handlers of an input run. The shell handles a line as a
  whole before the next incoming message. The body of a request counts as sent even if the call reports
  an error. The output of the full screen interface is the text given to its viewport.

  \<^bold>\<open>Not modelled.\<close> The package comment \<open>xochimilco/xochimilco.go\<close>; in \<open>main.go\<close> the parser of the command
  line, the signal handler and \<open>setupChatlog\<close>, which nothing calls; in the driver of the message bus the
  subscription, which hands a position and the handler to an external client; the widgets and styles of
  the full screen interface; goroutines, timing and the secrecy of keys, which shallow functions on states do not
  express.
\<close>

end
